(* ===== verification/Prelude.thy ===== *)
theory Prelude
  imports Main "HOL-Library.AList"
begin

section \<open>Shared vocabulary: Python containers and their laws\<close>

text \<open>
  The containers the modelled code uses, with the laws the component theories share.

  \<^item> A Python \<^verbatim>\<open>dict\<close> keeps insertion order and replaces in place: it is an
    association list with distinct keys, \<open>AList.update\<close> is item assignment,
    \<open>AList.delete\<close> is \<^verbatim>\<open>pop(k, None)\<close> and \<open>map_of\<close> is
    \<^verbatim>\<open>get\<close>.
  \<^item> \<^verbatim>\<open>dict.fromkeys\<close> over a sequence is the first-occurrence
    deduplication \<open>fromkeys\<close>.
  \<^item> A bounded \<^verbatim>\<open>collections.deque\<close> keeps the newest entries:
    \<open>deque_append\<close>.
  \<^item> An instant and a duration are integers (Python's microseconds).
  \<^item> A Python exception is the left side of a sum; \<open>bind_sum\<close> is the sequencing
    that stops at the first one.
\<close>

type_synonym instant = int
type_synonym duration = int
type_synonym ('k, 'v) pydict = "('k \<times> 'v) list"

named_theorems dict_simps
named_theorems result_simps

abbreviation dict_keys :: "('k, 'v) pydict \<Rightarrow> 'k list" where
  "dict_keys d \<equiv> map fst d"

abbreviation dict_values :: "('k, 'v) pydict \<Rightarrow> 'v list" where
  "dict_values d \<equiv> map snd d"

abbreviation wf_dict :: "('k, 'v) pydict \<Rightarrow> bool" where
  "wf_dict d \<equiv> distinct (map fst d)"

subsection \<open>Dictionaries\<close>

lemma dict_get_set [dict_simps]:
  "map_of (AList.update k v d) = (map_of d)(k \<mapsto> v)"
  by (rule update_conv')

lemma dict_get_pop [dict_simps]: "map_of (AList.delete k d) = (map_of d)(k := None)"
  by (rule delete_conv')

lemma dict_keys_set [dict_simps]:
  "set (dict_keys (AList.update k v d)) = insert k (set (dict_keys d))"
  by (induction d) auto

lemma dict_keys_image [dict_simps]: "fst ` set (AList.update k v d) = insert k (fst ` set d)"
  by (induction d) auto

lemma wf_dict_set [dict_simps]: "wf_dict d \<Longrightarrow> wf_dict (AList.update k v d)"
  by (rule distinct_update)

lemma wf_dict_pop [dict_simps]: "wf_dict d \<Longrightarrow> wf_dict (AList.delete k d)"
  by (rule distinct_delete)

lemma dict_values_iff:
  "wf_dict d \<Longrightarrow> v \<in> set (dict_values d) \<longleftrightarrow> (\<exists>k. map_of d k = Some v)"
  by (force simp: image_iff)

lemma dict_item_iff: "wf_dict d \<Longrightarrow> (k, v) \<in> set d \<longleftrightarrow> map_of d k = Some v"
  by simp

lemma dict_update_keys_same:
  "k \<in> set (dict_keys d) \<Longrightarrow> dict_keys (AList.update k v d) = dict_keys d"
  by (induction d) auto

lemma dict_update_keys_new:
  "k \<notin> set (dict_keys d) \<Longrightarrow> AList.update k v d = d @ [(k, v)]"
  by (induction d) auto

lemma dict_get_keys: "map_of d k = Some v \<Longrightarrow> k \<in> set (dict_keys d)"
  by (force dest: map_of_SomeD)

lemma dict_get_None: "map_of d k = None \<longleftrightarrow> k \<notin> set (dict_keys d)"
  by (simp add: map_of_eq_None_iff)

subsection \<open>First-occurrence deduplication\<close>

fun fromkeys :: "'a list \<Rightarrow> 'a list" where
  "fromkeys [] = []"
| "fromkeys (x # xs) = x # filter (\<lambda>y. y \<noteq> x) (fromkeys xs)"

lemma set_fromkeys [simp]: "set (fromkeys xs) = set xs"
  by (induction xs) auto

lemma distinct_fromkeys [simp]: "distinct (fromkeys xs)"
  by (induction xs) auto

lemma fromkeys_Nil_iff [simp]: "fromkeys xs = [] \<longleftrightarrow> xs = []"
  by (cases xs) auto

lemma fromkeys_distinct: "distinct xs \<Longrightarrow> fromkeys xs = xs"
  by (induction xs) (auto intro!: filter_True)

subsection \<open>Bounded double-ended queues\<close>

definition deque_append :: "nat \<Rightarrow> 'a list \<Rightarrow> 'a \<Rightarrow> 'a list" where
  "deque_append cap xs x = drop (length xs + 1 - cap) (xs @ [x])"

definition last_n :: "nat \<Rightarrow> 'a list \<Rightarrow> 'a list" where
  "last_n n xs = drop (length xs - n) xs"

lemma length_last_n [simp]: "length (last_n n xs) = min n (length xs)"
  by (simp add: last_n_def)

lemma deque_append_last_n: "deque_append cap (last_n cap xs) x = last_n cap (xs @ [x])"
  by (cases "cap \<le> length xs") (auto simp: deque_append_def last_n_def Suc_diff_le)

lemma deque_append_bound: "length (deque_append cap xs x) \<le> cap"
  by (simp add: deque_append_def)

subsection \<open>Results\<close>

fun bind_sum :: "'e + 'a \<Rightarrow> ('a \<Rightarrow> 'e + 'b) \<Rightarrow> 'e + 'b" where
  "bind_sum (Inl e) f = Inl e"
| "bind_sum (Inr x) f = f x"

fun is_ok :: "'e + 'a \<Rightarrow> bool" where
  "is_ok (Inl e) = False"
| "is_ok (Inr x) = True"

lemma bind_sum_Inr [result_simps]:
  "bind_sum r f = Inr y \<longleftrightarrow> (\<exists>x. r = Inr x \<and> f x = Inr y)"
  by (cases r) auto

lemma bind_sum_Inl [result_simps]:
  "bind_sum r f = Inl e \<longleftrightarrow> r = Inl e \<or> (\<exists>x. r = Inr x \<and> f x = Inl e)"
  by (cases r) auto

lemma is_ok_iff [result_simps]: "is_ok r \<longleftrightarrow> (\<exists>x. r = Inr x)"
  by (cases r) auto

lemma if_Inr: "(if b then Inr x else Inl e) = Inr y \<Longrightarrow> y = x"
  by (simp split: if_splits)

fun map_error :: "('e \<Rightarrow> 'f) \<Rightarrow> 'e + 'a \<Rightarrow> 'f + 'a" where
  "map_error f (Inl e) = Inl (f e)"
| "map_error f (Inr x) = Inr x"

lemma map_error_Inr [result_simps]: "map_error f r = Inr x \<longleftrightarrow> r = Inr x"
  by (cases r) auto

lemma map_error_Inl [result_simps]: "map_error f r = Inl e \<longleftrightarrow> (\<exists>d. r = Inl d \<and> e = f d)"
  by (cases r) auto

text \<open>A comprehension whose value is awaited per key, in order, up to the first failure.\<close>

fun read_each :: "('k \<Rightarrow> 'e + 'v) \<Rightarrow> 'k list \<Rightarrow> 'e + ('k \<times> 'v) list" where
  "read_each read [] = Inr []"
| "read_each read (k # ks) =
     bind_sum (read k) (\<lambda>v. bind_sum (read_each read ks) (\<lambda>rest. Inr ((k, v) # rest)))"

lemma read_each_ok:
  "read_each read ks = Inr kvs \<Longrightarrow> map fst kvs = ks \<and> (\<forall>k v. (k, v) \<in> set kvs \<longrightarrow> read k = Inr v)"
  by (induction ks arbitrary: kvs) (auto simp: bind_sum_Inr)

text \<open>Sequencing that stops at the first failure and keeps, in order, what was done up to it.\<close>

fun then_do :: "('e + 'a) \<times> 'w list \<Rightarrow> ('a \<Rightarrow> ('e + 'b) \<times> 'w list) \<Rightarrow> ('e + 'b) \<times> 'w list" where
  "then_do (Inl e, w) f = (Inl e, w)"
| "then_do (Inr x, w) f = (fst (f x), w @ snd (f x))"

lemma then_do_code [code]:
  "then_do (Inl e, w) f = (Inl e, w)"
  "then_do (Inr x, w) f = (case f x of (r, w') \<Rightarrow> (r, w @ w'))"
  by (simp_all add: case_prod_unfold)

lemma then_do_Inr [result_simps]:
  "then_do m f = (Inr y, w) \<longleftrightarrow>
     (\<exists>x w1 w2. m = (Inr x, w1) \<and> f x = (Inr y, w2) \<and> w = w1 @ w2)"
  by (cases m; cases "fst m"; cases "f (projr (fst m))") auto

lemma then_do_Inl [result_simps]:
  "then_do m f = (Inl e, w) \<longleftrightarrow>
     m = (Inl e, w) \<or> (\<exists>x w1 w2. m = (Inr x, w1) \<and> f x = (Inl e, w2) \<and> w = w1 @ w2)"
  by (cases m; cases "fst m"; cases "f (projr (fst m))") auto

subsection \<open>Lists\<close>

lemma find_Some_first:
  "find P xs = Some x \<Longrightarrow>
     \<exists>pre post. xs = pre @ x # post \<and> P x \<and> (\<forall>y \<in> set pre. \<not> P y)"
proof (induction xs)
  case Nil
  then show ?case by simp
next
  case (Cons a xs)
  show ?case
  proof (cases "P a")
    case True
    with Cons.prems have "a # xs = [] @ x # xs \<and> P x \<and> (\<forall>y \<in> set []. \<not> P y)" by simp
    then show ?thesis by blast
  next
    case False
    with Cons obtain pre post where
      "xs = pre @ x # post" "P x" "\<forall>y \<in> set pre. \<not> P y" by auto
    with False have "a # xs = (a # pre) @ x # post \<and> P x \<and> (\<forall>y \<in> set (a # pre). \<not> P y)"
      by simp
    then show ?thesis by blast
  qed
qed

lemma find_None_iff_all: "find P xs = None \<longleftrightarrow> (\<forall>x \<in> set xs. \<not> P x)"
  by (induction xs) auto

lemma find_append:
  "find P (xs @ ys) = (case find P xs of Some y \<Rightarrow> Some y | None \<Rightarrow> find P ys)"
  by (induction xs) auto

lemma find_key_None: "find (\<lambda>a. key a = i) xs = None \<longleftrightarrow> i \<notin> set (map key xs)"
  by (auto simp: find_None_iff)

lemma find_key_member:
  "find (\<lambda>a. key a = i) xs = Some a \<Longrightarrow> a \<in> set xs \<and> key a = i"
  by (auto dest!: find_Some_first)

text \<open>A dictionary comprehension \<^verbatim>\<open>{key(x): value(x) for x in xs}\<close>: the last entry of a
  key is the one that stays.\<close>

definition dict_of :: "('a \<Rightarrow> 'k) \<Rightarrow> ('a \<Rightarrow> 'v) \<Rightarrow> 'a list \<Rightarrow> ('k, 'v) pydict" where
  "dict_of key val xs = foldl (\<lambda>d x. AList.update (key x) (val x) d) [] xs"

lemma wf_dict_of: "wf_dict (dict_of key val xs)"
proof -
  have "wf_dict (foldl (\<lambda>d x. AList.update (key x) (val x) d) d xs)" if "wf_dict d" for d
    using that by (induction xs arbitrary: d) (auto simp: wf_dict_set)
  then show ?thesis by (simp add: dict_of_def)
qed

lemma dict_of_fold:
  "map_of (foldl (\<lambda>d x. AList.update (key x) (val x) d) d xs) i =
     (case find (\<lambda>x. key x = i) (rev xs) of Some x \<Rightarrow> Some (val x) | None \<Rightarrow> map_of d i)"
  by (induction xs arbitrary: d) (auto simp: dict_get_set find_append split: option.splits)

lemma dict_of_get:
  "map_of (dict_of key val xs) i = map_option val (find (\<lambda>x. key x = i) (rev xs))"
  by (auto simp: dict_of_def dict_of_fold split: option.splits)

lemma dict_of_None: "map_of (dict_of key val xs) i = None \<longleftrightarrow> i \<notin> set (map key xs)"
  by (simp add: dict_of_get find_key_None)

lemma dict_of_Some:
  "map_of (dict_of key val xs) i = Some v \<Longrightarrow> \<exists>x \<in> set xs. key x = i \<and> v = val x"
  by (force simp: dict_of_get dest: find_key_member)

lemma dict_of_distinct:
  assumes "distinct (map key xs)" and "x \<in> set xs"
  shows "map_of (dict_of key val xs) (key x) = Some (val x)"
proof -
  have "map_of (dict_of key val xs) (key x) \<noteq> None" using assms(2) by (simp add: dict_of_None)
  then obtain y where "y \<in> set xs" "key y = key x"
      "map_of (dict_of key val xs) (key x) = Some (val y)"
    using dict_of_Some by force
  then show ?thesis using assms by (metis distinct_map inj_onD)
qed

text \<open>\<^verbatim>\<open>{**d, **e}\<close>: the second wins.\<close>

definition dict_merge :: "('k, 'v) pydict \<Rightarrow> ('k, 'v) pydict \<Rightarrow> ('k, 'v) pydict" where
  "dict_merge d e = foldl (\<lambda>d (k, v). AList.update k v d) d e"

lemma dict_merge_get:
  assumes "wf_dict e"
  shows "map_of (dict_merge d e) k = (case map_of e k of Some v \<Rightarrow> Some v | None \<Rightarrow> map_of d k)"
  using assms unfolding dict_merge_def
proof (induction e arbitrary: d)
  case (Cons p e)
  obtain i v where p: "p = (i, v)" by (cases p)
  have "map_of e i = None" using Cons.prems unfolding p by (simp add: map_of_eq_None_iff)
  then show ?case
    using Cons unfolding p by (cases "map_of e k") (auto simp: dict_get_set)
qed simp

lemma dict_merge_keys: "set (dict_keys (dict_merge d e)) = set (dict_keys d) \<union> set (dict_keys e)"
  unfolding dict_merge_def
proof (induction e arbitrary: d)
  case (Cons p e)
  show ?case using Cons [of "AList.update (fst p) (snd p) d"] dict_keys_image [of "fst p" "snd p" d]
    by (cases p) auto
qed simp

text \<open>\<^verbatim>\<open>collections.Counter\<close> over a sequence: keys in order of first occurrence.\<close>

definition counter :: "'k list \<Rightarrow> ('k, nat) pydict" where
  "counter ks =
     foldl (\<lambda>d k. AList.update k (Suc (case map_of d k of None \<Rightarrow> 0 | Some n \<Rightarrow> n)) d) [] ks"

lemma counter_snoc:
  "counter (ks @ [k]) =
     AList.update k (Suc (case map_of (counter ks) k of None \<Rightarrow> 0 | Some n \<Rightarrow> n)) (counter ks)"
  by (simp add: counter_def)

lemma counter_get:
  "map_of (counter ks) i = (if i \<in> set ks then Some (length (filter (\<lambda>k. k = i) ks)) else None)"
proof (induction ks rule: rev_induct)
  case Nil
  then show ?case by (simp add: counter_def)
next
  case (snoc k ks)
  have "k \<notin> set ks \<Longrightarrow> filter (\<lambda>x. x = k) ks = []" by (auto simp: filter_empty_conv)
  then show ?case
    unfolding counter_snoc dict_get_set using snoc by (cases "k \<in> set ks") auto
qed

lemma wf_counter: "wf_dict (counter ks)"
  by (induction ks rule: rev_induct) (simp add: counter_def, simp add: counter_snoc wf_dict_set)

subsection \<open>Strings\<close>

text \<open>
  A Python string is the list of the bytes of its UTF-8 form. \<open>py_isspace\<close>
  is what \<^verbatim>\<open>str.strip\<close> removes and \<open>rx_isspace\<close> is the
  \<^verbatim>\<open>\s\<close> of the schema patterns, both on ASCII text; the white space
  outside ASCII is not modelled. The two differ on the four separators 28 to 31.
\<close>

definition py_isspace :: "char \<Rightarrow> bool" where
  "py_isspace c \<longleftrightarrow>
     (let n = (of_char c :: nat) in (9 \<le> n \<and> n \<le> 13) \<or> (28 \<le> n \<and> n \<le> 32))"

definition rx_isspace :: "char \<Rightarrow> bool" where
  "rx_isspace c \<longleftrightarrow> (let n = (of_char c :: nat) in (9 \<le> n \<and> n \<le> 13) \<or> n = 32)"

lemma of_char_mem: "(of_char c :: nat) \<in> of_char ` A \<longleftrightarrow> c \<in> A"
  by (auto simp: image_iff)

lemma rx_isspace_code [code]:
  "rx_isspace c \<longleftrightarrow> c \<in> set [CHR 0x09, CHR 0x0A, CHR 0x0B, CHR 0x0C, CHR 0x0D, CHR '' '']"
    (is "_ \<longleftrightarrow> c \<in> set ?cs")
proof -
  have "rx_isspace c \<longleftrightarrow> (of_char c :: nat) \<in> (of_char :: char \<Rightarrow> nat) ` set ?cs"
    unfolding rx_isspace_def Let_def by auto
  then show ?thesis unfolding of_char_mem .
qed

definition py_blank :: "string \<Rightarrow> bool" where
  "py_blank s \<longleftrightarrow> list_all py_isspace s"

definition has_text :: "string \<Rightarrow> bool" where
  "has_text s \<longleftrightarrow> list_ex (\<lambda>c. \<not> rx_isspace c) s"

lemma not_blank_has_text: "\<not> py_blank s \<Longrightarrow> has_text s"
  by (auto simp: py_blank_def has_text_def list_all_iff list_ex_iff py_isspace_def
      rx_isspace_def Let_def)

lemma has_text_nonempty: "has_text s \<Longrightarrow> s \<noteq> []"
  by (auto simp: has_text_def)

lemma has_text_append: "has_text s \<Longrightarrow> has_text (s @ t)"
  by (auto simp: has_text_def)

definition digit :: "nat \<Rightarrow> char" where
  "digit n = char_of (48 + n)"

fun decimal :: "nat \<Rightarrow> string" where
  "decimal n = (if n < 10 then [digit n] else decimal (n div 10) @ [digit (n mod 10)])"

declare decimal.simps [simp del]

definition undecimal :: "string \<Rightarrow> nat" where
  "undecimal s = foldl (\<lambda>acc c. acc * 10 + ((of_char c :: nat) - 48)) 0 s"

lemma digits_listed: "map digit [0..<10] = ''0123456789''"
  by (simp add: upt_rec digit_def char_of_def bit_0)

lemma digit_listed: "n < 10 \<Longrightarrow> digit n = ''0123456789'' ! n"
  by (simp add: digits_listed [symmetric] del: upt_rec_numeral)

lemma decimal_code [code]:
  "decimal n = (if n < 10 then [''0123456789'' ! n]
     else decimal (n div 10) @ [''0123456789'' ! (n mod 10)])"
  by (simp add: decimal.simps [of n] digit_listed)

lemma of_char_digit: "n < 10 \<Longrightarrow> (of_char (digit n) :: nat) = 48 + n"
  by (simp add: digit_def)

lemma undecimal_decimal: "undecimal (decimal n) = n"
proof (induction n rule: decimal.induct)
  case (1 n)
  show ?case
  proof (cases "n < 10")
    case True
    then show ?thesis by (simp add: decimal.simps [of n] undecimal_def of_char_digit)
  next
    case False
    then have "undecimal (decimal (n div 10)) = n div 10" using 1 by simp
    then have "undecimal (decimal n) = (n div 10) * 10 + n mod 10"
      using False by (simp add: decimal.simps [of n] undecimal_def of_char_digit)
    then show ?thesis by simp
  qed
qed

lemma decimal_inject: "decimal m = decimal n \<longleftrightarrow> m = n"
  using undecimal_decimal by metis

definition is_digit :: "char \<Rightarrow> bool" where
  "is_digit c \<longleftrightarrow> (let n = (of_char c :: nat) in 48 \<le> n \<and> n \<le> 57)"

lemma is_digit_code [code]: "is_digit c \<longleftrightarrow> c \<in> set ''0123456789''"
proof -
  have "is_digit c \<longleftrightarrow> (of_char c :: nat) \<in> (of_char :: char \<Rightarrow> nat) ` set ''0123456789''"
    unfolding is_digit_def Let_def by simp presburger
  then show ?thesis unfolding of_char_mem .
qed

lemma is_digit_digit: "n < 10 \<Longrightarrow> is_digit (digit n)"
  by (simp add: is_digit_def of_char_digit)

lemma digit_0: "digit 0 = CHR ''0''"
proof -
  have "(of_char (digit 0) :: nat) = of_char (CHR ''0'')" by (simp add: digit_def)
  then show ?thesis by (simp only: of_char_eq_iff)
qed

lemma decimal_digits: "list_all is_digit (decimal n)"
proof (induction n rule: decimal.induct)
  case (1 n)
  then show ?case
    by (cases "n < 10") (simp_all add: decimal.simps [of n] is_digit_digit)
qed

lemma decimal_leading: "0 < n \<Longrightarrow> decimal n \<noteq> [] \<and> hd (decimal n) \<noteq> digit 0"
proof (induction n rule: decimal.induct)
  case (1 n)
  show ?case
  proof (cases "n < 10")
    case True
    have "digit n \<noteq> digit 0"
    proof
      assume "digit n = digit 0"
      then have "(of_char (digit n) :: nat) = of_char (digit 0)" by simp
      then show False using True 1(2) of_char_digit [of n] of_char_digit [of 0] by simp
    qed
    then show ?thesis using True by (simp add: decimal.simps [of n])
  next
    case False
    then have "decimal (n div 10) \<noteq> [] \<and> hd (decimal (n div 10)) \<noteq> digit 0"
      using 1 by simp
    then show ?thesis using False by (simp add: decimal.simps [of n])
  qed
qed

end
