(* ===== verification/JobStream.thy ===== *)
theory JobStream
  imports Prelude
begin

section \<open>The replay stream of one job\<close>

text \<open>
  The class \<^verbatim>\<open>_JobStream\<close> of
  \<^verbatim>\<open>src/kodezart/adapters/asyncio_job_queue.py\<close>: a bounded replay buffer
  plus live fan-out. A subscriber's \<^verbatim>\<open>asyncio.Queue\<close> is a list of
  items, \<open>None\<close> being the end marker that \<^verbatim>\<open>close\<close> puts. The
  generator \<^verbatim>\<open>stream()\<close> is a \<open>reader\<close> value resumed by
  \<open>reader_next\<close>: its body runs from one \<^verbatim>\<open>yield\<close> (or one blocking
  \<^verbatim>\<open>get\<close>) to the next, which is what the event loop runs without
  interruption. A subscriber is named by a number that stands for the identity of its queue.
\<close>

record 'ev job_stream =
  st_capacity :: nat
  st_buffer :: "'ev list"
  st_subscribers :: "(nat, 'ev option list) pydict"
  st_closed :: bool

definition new_stream :: "nat \<Rightarrow> 'ev job_stream" where
  "new_stream cap =
     \<lparr>st_capacity = cap, st_buffer = [], st_subscribers = [], st_closed = False\<rparr>"

definition put_all ::
  "'ev option \<Rightarrow> (nat, 'ev option list) pydict \<Rightarrow> (nat, 'ev option list) pydict" where
  "put_all item subs = map (\<lambda>(i, q). (i, q @ [item])) subs"

text \<open>\<open>publish\<close> returns the flag of the source (the oldest frame was evicted).\<close>

definition stream_publish :: "'ev job_stream \<Rightarrow> 'ev \<Rightarrow> bool \<times> 'ev job_stream" where
  "stream_publish s ev =
     (length (st_buffer s) = st_capacity s,
      s\<lparr>st_buffer := deque_append (st_capacity s) (st_buffer s) ev,
        st_subscribers := put_all (Some ev) (st_subscribers s)\<rparr>)"

definition stream_close :: "'ev job_stream \<Rightarrow> 'ev job_stream" where
  "stream_close s = s\<lparr>st_closed := True, st_subscribers := put_all None (st_subscribers s)\<rparr>"

definition stream_discard_buffer :: "'ev job_stream \<Rightarrow> nat \<times> 'ev job_stream" where
  "stream_discard_buffer s = (length (st_buffer s), s\<lparr>st_buffer := []\<rparr>)"

datatype 'ev reader =
    Fresh
  | ReplayClosed "'ev list"
  | ReplayLive nat "'ev list"
  | Done

datatype 'ev pull = Yield 'ev | Blocked | Stop

definition subscribe :: "nat \<Rightarrow> 'ev job_stream \<Rightarrow> 'ev job_stream" where
  "subscribe i s = s\<lparr>st_subscribers := st_subscribers s @ [(i, [])]\<rparr>"

definition unsubscribe :: "nat \<Rightarrow> 'ev job_stream \<Rightarrow> 'ev job_stream" where
  "unsubscribe i s = s\<lparr>st_subscribers := AList.delete i (st_subscribers s)\<rparr>"

text \<open>The body after the replay: one \<^verbatim>\<open>await subscriber.get()\<close>.\<close>

definition live_pull :: "nat \<Rightarrow> 'ev job_stream \<Rightarrow> 'ev pull \<times> 'ev reader \<times> 'ev job_stream" where
  "live_pull i s =
     (case map_of (st_subscribers s) i of
        None \<Rightarrow> (Blocked, ReplayLive i [], s)
      | Some [] \<Rightarrow> (Blocked, ReplayLive i [], s)
      | Some (None # q) \<Rightarrow> (Stop, Done, unsubscribe i s)
      | Some (Some ev # q) \<Rightarrow>
          (Yield ev, ReplayLive i [],
           s\<lparr>st_subscribers := AList.update i q (st_subscribers s)\<rparr>))"

fun reader_next ::
  "nat \<Rightarrow> 'ev job_stream \<Rightarrow> 'ev reader \<Rightarrow> 'ev pull \<times> 'ev reader \<times> 'ev job_stream" where
  "reader_next new s Fresh =
     (if st_closed s
      then (case st_buffer s of
              [] \<Rightarrow> (Stop, Done, s)
            | ev # evs \<Rightarrow> (Yield ev, ReplayClosed evs, s))
      else (case st_buffer s of
              [] \<Rightarrow> live_pull new (subscribe new s)
            | ev # evs \<Rightarrow> (Yield ev, ReplayLive new evs, subscribe new s)))"
| "reader_next new s (ReplayClosed []) = (Stop, Done, s)"
| "reader_next new s (ReplayClosed (ev # evs)) = (Yield ev, ReplayClosed evs, s)"
| "reader_next new s (ReplayLive i (ev # evs)) = (Yield ev, ReplayLive i evs, s)"
| "reader_next new s (ReplayLive i []) = live_pull i s"
| "reader_next new s Done = (Stop, Done, s)"

text \<open>Closing the generator early runs its \<^verbatim>\<open>finally\<close>.\<close>

fun reader_close :: "'ev job_stream \<Rightarrow> 'ev reader \<Rightarrow> 'ev reader \<times> 'ev job_stream" where
  "reader_close s (ReplayLive i evs) = (Done, unsubscribe i s)"
| "reader_close s r = (Done, s)"

subsection \<open>A reader among the other operations of its stream\<close>

text \<open>
  One attached reader, interleaved in any order with the operations other tasks run on the
  same stream: \<open>Publish\<close>, \<open>Close\<close>, other readers subscribing, pulling and leaving, and
  the reader's own \<open>Pull\<close>. The run returns what the reader was given.
\<close>

datatype 'ev stream_op =
    Publish 'ev
  | Close
  | Discard
  | Pull
  | OtherPull nat "'ev reader"
  | OtherLeave "'ev reader"

definition yielded :: "'ev pull \<Rightarrow> 'ev list" where
  "yielded p = (case p of Yield ev \<Rightarrow> [ev] | _ \<Rightarrow> [])"

fun stream_step ::
  "'ev stream_op \<Rightarrow> 'ev job_stream \<times> 'ev reader \<times> 'ev list \<Rightarrow>
   'ev job_stream \<times> 'ev reader \<times> 'ev list" where
  "stream_step (Publish ev) (s, r, out) = (snd (stream_publish s ev), r, out)"
| "stream_step Close (s, r, out) = (stream_close s, r, out)"
| "stream_step Discard (s, r, out) = (snd (stream_discard_buffer s), r, out)"
| "stream_step Pull (s, r, out) =
     (let (p, r', s') = reader_next 0 s r in (s', r', out @ yielded p))"
| "stream_step (OtherPull j q) (s, r, out) = (snd (snd (reader_next j s q)), r, out)"
| "stream_step (OtherLeave q) (s, r, out) = (snd (reader_close s q), r, out)"

fun stream_run ::
  "'ev stream_op list \<Rightarrow> 'ev job_stream \<times> 'ev reader \<times> 'ev list \<Rightarrow>
   'ev job_stream \<times> 'ev reader \<times> 'ev list" where
  "stream_run [] c = c"
| "stream_run (x # xs) c = stream_run xs (stream_step x c)"

text \<open>What a reader that starts on an open stream is owed: the frames published before the
  close. A foreign operation never touches the reader's own queue.\<close>

fun live_events :: "'ev stream_op list \<Rightarrow> 'ev list" where
  "live_events [] = []"
| "live_events (Publish ev # xs) = ev # live_events xs"
| "live_events (Close # xs) = []"
| "live_events (x # xs) = live_events xs"

fun reader_id :: "'ev reader \<Rightarrow> nat option" where
  "reader_id (ReplayLive i evs) = Some i"
| "reader_id r = None"

fun foreign_op :: "'ev stream_op \<Rightarrow> bool" where
  "foreign_op (OtherPull j q) \<longleftrightarrow> j \<noteq> 0 \<and> reader_id q \<noteq> Some 0"
| "foreign_op (OtherLeave q) \<longleftrightarrow> reader_id q \<noteq> Some 0"
| "foreign_op x \<longleftrightarrow> True"

lemma map_of_put_all [simp]:
  "map_of (put_all item subs) i = map_option (\<lambda>q. q @ [item]) (map_of subs i)"
  by (induction subs) (auto simp: put_all_def)

lemma map_of_snoc_new:
  "i \<noteq> j \<Longrightarrow> map_of (subs @ [(j, q)]) i = map_of subs i"
  by (simp add: map_of_append map_add_def split: option.splits)

definition stream_frame :: "nat \<Rightarrow> 'ev job_stream \<Rightarrow> 'ev job_stream \<Rightarrow> bool" where
  "stream_frame i s s' \<longleftrightarrow>
     map_of (st_subscribers s') i = map_of (st_subscribers s) i \<and>
     st_closed s' = st_closed s"

lemma stream_frame_refl [simp]: "stream_frame i s s"
  by (simp add: stream_frame_def)

lemma stream_frame_trans:
  "stream_frame i s s' \<Longrightarrow> stream_frame i s' s'' \<Longrightarrow> stream_frame i s s''"
  by (simp add: stream_frame_def)

lemma subscribe_frame: "i \<noteq> j \<Longrightarrow> stream_frame i s (subscribe j s)"
  using map_of_snoc_new [of i j "st_subscribers s" "[]"]
  by (simp add: stream_frame_def subscribe_def del: map_of_append)

lemma unsubscribe_frame: "i \<noteq> j \<Longrightarrow> stream_frame i s (unsubscribe j s)"
  by (simp add: stream_frame_def unsubscribe_def dict_simps)

lemma live_pull_frame: "i \<noteq> j \<Longrightarrow> stream_frame i s (snd (snd (live_pull j s)))"
  using unsubscribe_frame [of i j s]
  by (auto simp: live_pull_def stream_frame_def dict_simps split: option.splits list.splits)

lemma reader_next_frame:
  "i \<noteq> j \<Longrightarrow> reader_id q \<noteq> Some i \<Longrightarrow> stream_frame i s (snd (snd (reader_next j s q)))"
  by (cases "(j, s, q)" rule: reader_next.cases)
    (auto simp: subscribe_frame live_pull_frame split: list.splits
      intro: stream_frame_trans [OF subscribe_frame live_pull_frame])

lemma reader_close_frame:
  "reader_id q \<noteq> Some i \<Longrightarrow> stream_frame i s (snd (reader_close s q))"
  by (cases "(s, q)" rule: reader_close.cases) (auto simp: unsubscribe_frame)

text \<open>
  The invariant of a started reader: what it has yielded, what it still replays and what its
  queue holds make up, in order, what it is owed so far.
\<close>

definition reader_inv ::
  "'ev list \<Rightarrow> 'ev stream_op list \<Rightarrow> 'ev job_stream \<times> 'ev reader \<times> 'ev list \<Rightarrow> bool" where
  "reader_inv owed rest c \<longleftrightarrow>
     (case c of (s, r, out) \<Rightarrow>
       (case r of
          ReplayLive i evs \<Rightarrow> i = 0 \<and>
            (\<exists>es junk. map_of (st_subscribers s) 0 =
               Some (map Some es @ (if st_closed s then None # junk else [])) \<and>
               out @ evs @ es @ (if st_closed s then [] else live_events rest) = owed)
        | Done \<Rightarrow> st_closed s \<and> out = owed
        | _ \<Rightarrow> False))"

lemma reader_inv_live:
  "reader_inv owed rest (s, ReplayLive i evs, out) \<longleftrightarrow> i = 0 \<and>
     (\<exists>es junk. map_of (st_subscribers s) 0 =
        Some (map Some es @ (if st_closed s then None # junk else [])) \<and>
        out @ evs @ es @ (if st_closed s then [] else live_events rest) = owed)"
  by (simp add: reader_inv_def)

lemma reader_inv_done:
  "reader_inv owed rest (s, Done, out) \<longleftrightarrow> st_closed s \<and> out = owed"
  by (simp add: reader_inv_def)

lemma reader_inv_not_started [simp]:
  "\<not> reader_inv owed rest (s, Fresh, out)"
  "\<not> reader_inv owed rest (s, ReplayClosed evs, out)"
  by (simp_all add: reader_inv_def)

lemma reader_inv_liveI:
  assumes "map_of (st_subscribers s) 0 =
      Some (map Some es @ (if st_closed s then None # junk else []))"
    and "out @ evs @ es @ (if st_closed s then [] else live_events rest) = owed"
  shows "reader_inv owed rest (s, ReplayLive 0 evs, out)"
  unfolding reader_inv_live using assms by blast

lemma reader_inv_skip:
  assumes eq: "live_events (x # rest) = live_events rest"
  shows "reader_inv owed (x # rest) c \<longleftrightarrow> reader_inv owed rest c"
  unfolding reader_inv_def eq ..

lemmas reader_inv_simps = reader_inv_live reader_inv_done

lemma reader_inv_frame:
  assumes "reader_inv owed rest (s, r, out)" and "stream_frame 0 s s'"
  shows "reader_inv owed rest (s', r, out)"
  using assms by (cases r) (auto simp: reader_inv_simps stream_frame_def)

lemma reader_inv_pull:
  assumes inv: "reader_inv owed rest (s, r, out)"
  shows "reader_inv owed rest (stream_step Pull (s, r, out))"
proof (cases r)
  case (ReplayLive i evs)
  show ?thesis
  proof (cases evs)
    case (Cons e es)
    with inv ReplayLive show ?thesis by (simp add: reader_inv_live yielded_def)
  next
    case Nil
    from inv ReplayLive Nil obtain es junk where
      i: "i = 0"
      and q: "map_of (st_subscribers s) 0 =
        Some (map Some es @ (if st_closed s then None # junk else []))"
      and o: "out @ es @ (if st_closed s then [] else live_events rest) = owed"
      by (auto simp: reader_inv_live)
    show ?thesis
      using ReplayLive Nil i q o
      by (cases es) (auto simp: live_pull_def yielded_def unsubscribe_def dict_simps
          reader_inv_simps)
  qed
qed (use inv in \<open>auto simp: reader_inv_simps yielded_def\<close>)

lemma reader_inv_publish:
  assumes inv: "reader_inv owed (Publish ev # rest) (s, r, out)"
  shows "reader_inv owed rest (snd (stream_publish s ev), r, out)"
proof (cases r)
  case (ReplayLive i evs)
  with inv obtain es junk where
    i: "i = 0"
    and q: "map_of (st_subscribers s) 0 =
      Some (map Some es @ (if st_closed s then None # junk else []))"
    and o: "out @ evs @ es @ (if st_closed s then [] else ev # live_events rest) = owed"
    by (auto simp: reader_inv_live)
  show ?thesis
  proof (cases "st_closed s")
    case True
    with q o show ?thesis
      unfolding ReplayLive i stream_publish_def
      by (auto intro!: reader_inv_liveI [where es = es and junk = "junk @ [Some ev]"])
  next
    case False
    with q o show ?thesis
      unfolding ReplayLive i stream_publish_def
      by (auto intro!: reader_inv_liveI [where es = "es @ [ev]"])
  qed
qed (use inv in \<open>auto simp: reader_inv_simps stream_publish_def\<close>)

lemma reader_inv_close:
  assumes inv: "reader_inv owed (Close # rest) (s, r, out)"
  shows "reader_inv owed rest (stream_close s, r, out)"
proof (cases r)
  case (ReplayLive i evs)
  with inv obtain es junk where
    i: "i = 0"
    and q: "map_of (st_subscribers s) 0 =
      Some (map Some es @ (if st_closed s then None # junk else []))"
    and o: "out @ evs @ es = owed"
    by (auto simp: reader_inv_live split: if_splits)
  from q o show ?thesis
    unfolding ReplayLive i stream_close_def
    by (auto intro!: reader_inv_liveI
        [where es = es and junk = "if st_closed s then junk @ [None] else []"])
qed (use inv in \<open>auto simp: reader_inv_simps stream_close_def\<close>)

lemma reader_inv_step:
  assumes inv: "reader_inv owed (x # rest) (s, r, out)" and ok: "foreign_op x"
  shows "reader_inv owed rest (stream_step x (s, r, out))"
proof (cases x)
  case Pull
  with inv have "reader_inv owed rest (s, r, out)" by (simp add: reader_inv_skip)
  then show ?thesis unfolding Pull by (rule reader_inv_pull)
next
  case (OtherPull j q)
  with inv have "reader_inv owed rest (s, r, out)" by (simp add: reader_inv_skip)
  moreover have "stream_frame 0 s (snd (snd (reader_next j s q)))"
    using OtherPull ok by (simp add: reader_next_frame)
  ultimately show ?thesis unfolding OtherPull stream_step.simps by (rule reader_inv_frame)
next
  case (OtherLeave q)
  with inv have "reader_inv owed rest (s, r, out)" by (simp add: reader_inv_skip)
  moreover have "stream_frame 0 s (snd (reader_close s q))"
    using OtherLeave ok by (simp add: reader_close_frame)
  ultimately show ?thesis unfolding OtherLeave stream_step.simps by (rule reader_inv_frame)
next
  case Discard
  with inv have "reader_inv owed rest (s, r, out)" by (simp add: reader_inv_skip)
  moreover have "stream_frame 0 s (snd (stream_discard_buffer s))"
    by (simp add: stream_discard_buffer_def stream_frame_def)
  ultimately show ?thesis unfolding Discard stream_step.simps by (rule reader_inv_frame)
next
  case (Publish ev)
  with inv show ?thesis by (simp add: reader_inv_publish)
next
  case Close
  with inv show ?thesis by (simp add: reader_inv_close)
qed

lemma reader_inv_run:
  "reader_inv owed xs c \<Longrightarrow> list_all foreign_op xs \<Longrightarrow> reader_inv owed [] (stream_run xs c)"
proof (induction xs arbitrary: c)
  case Nil
  then show ?case by simp
next
  case (Cons x xs)
  then show ?case
    by (cases c) (simp add: reader_inv_step del: stream_step.simps)
qed

lemma reader_inv_start:
  assumes "\<not> st_closed s" and "map_of (st_subscribers s) 0 = None"
  shows "reader_inv (st_buffer s @ live_events xs) xs (stream_step Pull (s, Fresh, []))"
  using assms
  by (auto simp: subscribe_def live_pull_def yielded_def reader_inv_simps map_add_def
      split: list.splits)

lemma live_pull_closed [simp]: "st_closed (snd (snd (live_pull j s))) = st_closed s"
  by (auto simp: live_pull_def unsubscribe_def split: option.splits list.splits)

lemma reader_next_closed [simp]: "st_closed (snd (snd (reader_next j s q))) = st_closed s"
  by (cases "(j, s, q)" rule: reader_next.cases)
    (auto simp: subscribe_def split: list.splits)

lemma reader_close_closed [simp]: "st_closed (snd (reader_close s q)) = st_closed s"
  by (cases "(s, q)" rule: reader_close.cases) (auto simp: unsubscribe_def)

lemma stream_step_closed: "st_closed (fst c) \<Longrightarrow> st_closed (fst (stream_step x c))"
  by (cases "(x, c)" rule: stream_step.cases)
    (auto simp: stream_publish_def stream_close_def stream_discard_buffer_def
      split: prod.splits, metis reader_next_closed snd_conv)

lemma stream_run_closed_mono: "st_closed (fst c) \<Longrightarrow> st_closed (fst (stream_run xs c))"
  by (induction xs arbitrary: c)
    (simp_all add: stream_step_closed del: stream_step.simps split_paired_All)

lemma stream_run_closed: "Close \<in> set xs \<Longrightarrow> st_closed (fst (stream_run xs c))"
proof (induction xs arbitrary: c)
  case Nil
  then show ?case by simp
next
  case (Cons x xs)
  show ?case
  proof (cases "x = Close")
    case True
    have "st_closed (fst (stream_step Close c))"
      by (cases c) (simp add: stream_close_def)
    with True show ?thesis by (simp add: stream_run_closed_mono)
  next
    case False
    with Cons show ?thesis by simp
  qed
qed

lemma stream_run_append: "stream_run (xs @ ys) c = stream_run ys (stream_run xs c)"
  by (induction xs arbitrary: c) simp_all

text \<open>On a closed stream every pull of an unfinished reader yields, or ends it.\<close>

lemma closed_pull_progress:
  assumes "reader_inv owed [] (s, r, out)" and "st_closed s"
    and "stream_step Pull (s, r, out) = (s', r', out')"
  shows "r' = Done \<or> length out' = Suc (length out)"
  using assms
  by (cases r; cases "\<exists>i. r = ReplayLive i []")
    (auto simp: reader_inv_simps live_pull_def yielded_def neq_Nil_conv Cons_eq_append_conv
      split: list.splits option.splits prod.splits)

lemma closed_drain:
  assumes "reader_inv owed [] (s, r, out)" and "st_closed s"
    and "length owed < n + length out"
    and "stream_run (replicate n Pull) (s, r, out) = (s', r', out')"
  shows "r' = Done \<and> out' = owed"
  using assms
proof (induction n arbitrary: s r out)
  case 0
  then show ?case
    by (cases r) (auto simp: reader_inv_simps)
next
  case (Suc n)
  obtain s1 r1 out1 where c1: "stream_step Pull (s, r, out) = (s1, r1, out1)"
    by (cases "stream_step Pull (s, r, out)")
  have inv1: "reader_inv owed [] (s1, r1, out1)"
    using reader_inv_pull [OF Suc.prems(1)] c1 by simp
  have closed1: "st_closed s1"
    using stream_step_closed [of "(s, r, out)" Pull] Suc.prems(2) c1 by simp
  have run: "stream_run (replicate n Pull) (s1, r1, out1) = (s', r', out')"
    using Suc.prems(4) c1 by simp
  show ?case
  proof (cases "r1 = Done")
    case True
    have "stream_run (replicate m Pull) (s1, Done, out1) = (s1, Done, out1)" for m
      by (induction m) (simp_all add: yielded_def)
    with True run inv1 show ?thesis by (auto simp: reader_inv_done)
  next
    case False
    with closed_pull_progress [OF Suc.prems(1,2) c1] have "length out1 = Suc (length out)"
      by blast
    with Suc.prems(3) have "length owed < n + length out1" by simp
    with Suc.IH [OF inv1 closed1 _ run] show ?thesis by simp
  qed
qed

lemma reader_inv_prefix:
  "reader_inv owed [] (s, r, out) \<Longrightarrow> \<exists>rest. owed = out @ rest"
  by (cases r) (auto simp: reader_inv_simps)

text \<open>Publishing onto a stream nobody reads leaves the newest frames in its buffer.\<close>

lemma publish_run_from:
  assumes "st_buffer s = last_n cap evs0" and "st_capacity s = cap" and "\<not> st_closed s"
    and "st_subscribers s = []"
  shows "\<exists>s'. stream_run (map Publish evs) (s, r, out) = (s', r, out) \<and>
    st_buffer s' = last_n cap (evs0 @ evs) \<and> \<not> st_closed s' \<and> st_subscribers s' = []"
  using assms
proof (induction evs arbitrary: s evs0)
  case Nil
  then show ?case by simp
next
  case (Cons ev evs)
  let ?s = "snd (stream_publish s ev)"
  have "st_buffer ?s = last_n cap (evs0 @ [ev])"
    using Cons.prems by (simp add: stream_publish_def deque_append_last_n)
  moreover have "st_capacity ?s = cap" "\<not> st_closed ?s" "st_subscribers ?s = []"
    using Cons.prems by (simp_all add: stream_publish_def put_all_def)
  ultimately show ?case using Cons.IH [of ?s "evs0 @ [ev]"] by simp
qed

lemma publish_run:
  "\<exists>s. stream_run (map Publish evs) (new_stream cap, r, out) = (s, r, out) \<and>
     st_buffer s = last_n cap evs \<and> \<not> st_closed s \<and> st_subscribers s = []"
  using publish_run_from [of "new_stream cap" cap "[]" evs r out]
  by (simp add: new_stream_def last_n_def)

end
