(* ===== verification/JobRegistry.thy ===== *)
theory JobRegistry
  imports JobStream
begin

section \<open>Job records and the store that holds them\<close>

text \<open>
  \<^verbatim>\<open>src/kodezart/types/domain/job.py\<close>,
  \<^verbatim>\<open>types/domain/outcome.py\<close>, \<^verbatim>\<open>types/domain/scope_address.py\<close>
  and \<^verbatim>\<open>adapters/job_registry.py\<close>. The store is the dictionary the queue
  writes; the locale \<open>record_store\<close> is what the queue relies on, and it is interpreted on the
  modelled operations.
\<close>

datatype workflow_outcome =
    merge_divergent
  | fix_consolidation_failed
  | loop_plateaued
  | loop_not_accepted
  | review_passed_no_pr_adapter
  | review_failed_fix_budget_exhausted
  | pr_opened
  | ci_passed
  | ci_not_configured
  | ci_failed_fix_budget_exhausted
  | criteria_infeasible
  | stalled_pr_opened
  | zero_commit_no_pr
  | remediation_budget_exhausted
  | engine_error
  | shutdown_abandoned
  | scope_converged
  | scope_converged_with_residual
  | scope_stopped_short
  | handed_off_for_delivery
  | ci_failed_environment_prerequisite
  | ci_failed_unclassified
  | ci_no_run_at_ref
  | ruling_unrecorded
  | job_timed_out

datatype scope_kind = INITIATIVE | PROJECT | MILESTONE | ISSUE

record scope_ref =
  ref_kind :: scope_kind
  ref_key :: string

datatype job_state = QUEUED | RUNNING | TERMINAL

text \<open>The states in the order a job goes through them.\<close>

fun state_rank :: "job_state \<Rightarrow> nat" where
  "state_rank QUEUED = 0"
| "state_rank RUNNING = 1"
| "state_rank TERMINAL = 2"

lemma state_rank_inj: "state_rank a = state_rank b \<Longrightarrow> a = b"
  by (cases a; cases b) simp_all

instantiation job_state :: linorder
begin

definition less_eq_job_state :: "job_state \<Rightarrow> job_state \<Rightarrow> bool" where
  "less_eq_job_state a b \<longleftrightarrow> state_rank a \<le> state_rank b"

definition less_job_state :: "job_state \<Rightarrow> job_state \<Rightarrow> bool" where
  "less_job_state a b \<longleftrightarrow> state_rank a < state_rank b"

instance
  by standard (auto simp: less_eq_job_state_def less_job_state_def intro: state_rank_inj)

end

lemma TERMINAL_top [simp]: "a \<le> TERMINAL" "TERMINAL \<le> a \<longleftrightarrow> a = TERMINAL"
  by (cases a; simp add: less_eq_job_state_def)+

lemma QUEUED_bot [simp]: "QUEUED \<le> a"
  by (simp add: less_eq_job_state_def)

record job_record =
  rec_job_id :: string
  rec_lane :: string
  rec_state :: job_state
  queue_position :: "nat option"
  submitted_at :: instant
  rec_scope :: "scope_ref option"
  rec_outcome :: "workflow_outcome option"
  truncated :: bool

datatype queue_error = QueueFullError | KeyError string

type_synonym registry = "(string, job_record) pydict"

subsection \<open>The operations of \<^verbatim>\<open>InMemoryJobRegistry\<close>\<close>

definition reg_get :: "registry \<Rightarrow> string \<Rightarrow> job_record option" where
  "reg_get r jid = map_of r jid"

definition reg_add :: "job_record \<Rightarrow> registry \<Rightarrow> registry" where
  "reg_add rec r = AList.update (rec_job_id rec) rec r"

text \<open>\<open>amend\<close> takes the changed fields as a function on the record.\<close>

definition reg_amend ::
  "string \<Rightarrow> (job_record \<Rightarrow> job_record) \<Rightarrow> registry \<Rightarrow> queue_error + job_record \<times> registry" where
  "reg_amend jid changes r =
     (case map_of r jid of
        None \<Rightarrow> Inl (KeyError jid)
      | Some rec \<Rightarrow> Inr (changes rec, AList.update jid (changes rec) r))"

definition reg_forget :: "string \<Rightarrow> registry \<Rightarrow> registry" where
  "reg_forget jid r = AList.delete jid r"

definition reg_open :: "registry \<Rightarrow> job_record list" where
  "reg_open r = filter (\<lambda>rec. rec_state rec \<noteq> TERMINAL) (dict_values r)"

definition reg_live_for_scope :: "scope_ref \<Rightarrow> registry \<Rightarrow> job_record list" where
  "reg_live_for_scope s r =
     filter (\<lambda>rec. rec_scope rec = Some s \<and> rec_state rec \<noteq> TERMINAL) (dict_values r)"

subsection \<open>What the queue relies on\<close>

locale record_store =
  fixes get :: "'s \<Rightarrow> string \<Rightarrow> job_record option"
    and add :: "job_record \<Rightarrow> 's \<Rightarrow> 's"
    and amend :: "string \<Rightarrow> (job_record \<Rightarrow> job_record) \<Rightarrow> 's \<Rightarrow> queue_error + job_record \<times> 's"
    and forget :: "string \<Rightarrow> 's \<Rightarrow> 's"
    and wf :: "'s \<Rightarrow> bool"
  assumes get_add: "get (add rec s) jid = (if jid = rec_job_id rec then Some rec else get s jid)"
    and amend_missing: "get s jid = None \<Longrightarrow> amend jid f s = Inl (KeyError jid)"
    and amend_present: "get s jid = Some rec \<Longrightarrow> \<exists>s'. amend jid f s = Inr (f rec, s')"
    and get_amend: "amend jid f s = Inr (rec, s') \<Longrightarrow>
      get s' k = (if k = jid then Some rec else get s k)"
    and get_forget: "get (forget jid s) k = (if k = jid then None else get s k)"
    and wf_add: "wf s \<Longrightarrow> wf (add rec s)"
    and wf_amend: "wf s \<Longrightarrow> amend jid f s = Inr (rec, s') \<Longrightarrow> wf s'"
    and wf_forget: "wf s \<Longrightarrow> wf (forget jid s)"
begin

lemma amend_ok_iff: "amend jid f s = Inr (rec', s') \<Longrightarrow> \<exists>rec. get s jid = Some rec \<and> rec' = f rec"
proof (cases "get s jid")
  case None
  assume "amend jid f s = Inr (rec', s')"
  with None amend_missing show ?thesis by simp
next
  case (Some rec)
  assume "amend jid f s = Inr (rec', s')"
  with Some amend_present [OF Some, of f] show ?thesis by auto
qed

lemma amend_error_iff: "(\<exists>e. amend jid f s = Inl e) \<longleftrightarrow> get s jid = None"
  using amend_missing [of s jid f] amend_present [of s jid _ f]
  by (cases "get s jid") (simp, metis Inl_Inr_False option.distinct(1))

lemma amend_get_fun:
  "amend jid f s = Inr (rec, s') \<Longrightarrow> get s' = (get s)(jid \<mapsto> rec)"
  by (rule ext) (simp add: get_amend)

lemma amend_twice:
  assumes "amend jid f s = Inr (rec, s')"
  shows "\<exists>s''. amend jid g s' = Inr (g rec, s'')"
  using amend_present [of s' jid rec g] get_amend [OF assms, of jid] by simp

end

interpretation reg: record_store reg_get reg_add reg_amend reg_forget wf_dict
proof unfold_locales
  fix s :: registry and jid f rec s'
  show "reg_get s jid = None \<Longrightarrow> reg_amend jid f s = Inl (KeyError jid)"
    by (simp add: reg_amend_def reg_get_def)
  show "reg_get s jid = Some rec \<Longrightarrow> \<exists>s'. reg_amend jid f s = Inr (f rec, s')"
    by (simp add: reg_amend_def reg_get_def)
  show "wf_dict s \<Longrightarrow> reg_amend jid f s = Inr (rec, s') \<Longrightarrow> wf_dict s'"
    by (auto simp: reg_amend_def dict_simps split: option.splits)
qed (auto simp: reg_amend_def reg_get_def reg_add_def reg_forget_def dict_simps
    split: option.splits)

lemma reg_live_for_scope_iff:
  "wf_dict r \<Longrightarrow> rec \<in> set (reg_live_for_scope s r) \<longleftrightarrow>
     (\<exists>jid. reg_get r jid = Some rec) \<and> rec_scope rec = Some s \<and> rec_state rec \<noteq> TERMINAL"
  by (auto simp: reg_live_for_scope_def dict_values_iff reg_get_def simp del: set_map)

lemma reg_open_iff:
  "wf_dict r \<Longrightarrow> rec \<in> set (reg_open r) \<longleftrightarrow>
     (\<exists>jid. reg_get r jid = Some rec) \<and> rec_state rec \<noteq> TERMINAL"
  by (auto simp: reg_open_def dict_values_iff reg_get_def simp del: set_map)

end
