(* ===== verification/JobQueue.thy ===== *)
theory JobQueue
  imports JobRegistry
begin

section \<open>The in-process job queue\<close>

text \<open>
  The class \<^verbatim>\<open>AsyncioJobQueue\<close> of
  \<^verbatim>\<open>src/kodezart/adapters/asyncio_job_queue.py\<close>. One definition per method; each
  runs from one suspension point of the event loop to the next (the awaits on the logger
  suspend nothing the queue's state depends on and are left out). A worker task is waiting
  at \<^verbatim>\<open>queue.get()\<close> or executing one job, whose local variable
  \<^verbatim>\<open>outcome\<close> it carries; a \<^verbatim>\<open>CancelledError\<close> that the engine lets out of a run
  ends the task itself, which is then \<open>Cancelled\<close> with its job left running. What the engine does (which events it yields, whether
  and how it raises) is the choice of the step, as is the clock; job ids are
  \<^verbatim>\<open>uuid4\<close> values, an argument of \<open>submit\<close>. The fields of a submission that the
  queue only hands to the engine are the payload \<open>'req\<close>.
\<close>

datatype agent_event =
    WorkflowCompleteEvent workflow_outcome
  | ScopeTerminalEvent workflow_outcome
  | ErrorEvent string
  | OtherEvent string

record 'req submission =
  sub_scope :: "scope_ref option"
  sub_payload :: 'req

datatype worker = Waiting | Executing string "workflow_outcome option" | Cancelled string

record lane =
  lane_queue :: "string list"
  pending :: "string list"
  workers :: "worker list"

datatype eviction = DropBuffer string | DropRecord string

record 'req job_queue =
  max_concurrent_runs_per_lane :: nat
  max_depth_per_lane :: int
  run_timeout_seconds :: "duration option"
  event_buffer_capacity :: nat
  lanes :: "(string, lane) pydict"
  registry_of :: registry
  requests :: "(string, 'req submission) pydict"
  streams :: "(string, agent_event job_stream) pydict"
  evictions :: "eviction list"
  accepting :: bool

definition DEFAULT_LANE :: string where
  "DEFAULT_LANE = ''workflow''"

definition new_queue :: "nat \<Rightarrow> int \<Rightarrow> duration option \<Rightarrow> nat \<Rightarrow> 'req job_queue" where
  "new_queue conc depth limit cap =
     \<lparr>max_concurrent_runs_per_lane = conc, max_depth_per_lane = depth,
      run_timeout_seconds = limit, event_buffer_capacity = cap,
      lanes = [], registry_of = [], requests = [], streams = [], evictions = [],
      accepting = False\<rparr>"

definition ensure_lane :: "string \<Rightarrow> 'req job_queue \<Rightarrow> 'req job_queue" where
  "ensure_lane name q =
     (case map_of (lanes q) name of
        Some runtime \<Rightarrow> q
      | None \<Rightarrow>
          q\<lparr>lanes := AList.update name
              \<lparr>lane_queue = [], pending = [],
               workers = replicate (max_concurrent_runs_per_lane q) Waiting\<rparr> (lanes q)\<rparr>)"

definition start :: "'req job_queue \<Rightarrow> 'req job_queue" where
  "start q = ensure_lane DEFAULT_LANE (q\<lparr>accepting := True\<rparr>)"

text \<open>\<^verbatim>\<open>asyncio.Queue.full\<close>: a size of zero or less is no bound.\<close>

definition queue_full :: "'req job_queue \<Rightarrow> lane \<Rightarrow> bool" where
  "queue_full q l \<longleftrightarrow>
     0 < max_depth_per_lane q \<and> max_depth_per_lane q \<le> int (length (lane_queue l))"

text \<open>A refused submission leaves the lane it created behind, so the state is returned on
  both branches.\<close>

definition submit ::
  "string \<Rightarrow> string \<Rightarrow> instant \<Rightarrow> 'req submission \<Rightarrow> 'req job_queue \<Rightarrow>
   (queue_error + job_record) \<times> 'req job_queue" where
  "submit name jid now request q =
     (if \<not> accepting q then (Inl QueueFullError, q)
      else
        let q1 = ensure_lane name q; runtime = the (map_of (lanes q1) name);
            rec = \<lparr>rec_job_id = jid, rec_lane = name, rec_state = QUEUED,
                   queue_position = Some (length (pending runtime) + 1),
                   submitted_at = now, rec_scope = sub_scope request,
                   rec_outcome = None, truncated = False\<rparr>
        in if queue_full q1 runtime then (Inl QueueFullError, q1)
           else (Inr rec,
             q1\<lparr>lanes := AList.update name
                   (runtime\<lparr>lane_queue := lane_queue runtime @ [jid],
                            pending := pending runtime @ [jid]\<rparr>) (lanes q1),
                registry_of := reg_add rec (registry_of q1),
                requests := AList.update jid request (requests q1),
                streams := AList.update jid (new_stream (event_buffer_capacity q1))
                  (streams q1)\<rparr>))"

subsection \<open>Running a job\<close>

fun reindex_from :: "nat \<Rightarrow> string list \<Rightarrow> registry \<Rightarrow> registry" where
  "reindex_from k [] r = r"
| "reindex_from k (p # ps) r =
     reindex_from (Suc k) ps
       (case map_of r p of
          None \<Rightarrow> r
        | Some rec \<Rightarrow>
            if rec_state rec = QUEUED
            then AList.update p (rec\<lparr>queue_position := Some k\<rparr>) r else r)"

definition set_worker :: "nat \<Rightarrow> worker \<Rightarrow> lane \<Rightarrow> lane" where
  "set_worker i w l = l\<lparr>workers := (workers l)[i := w]\<rparr>"

text \<open>
  A waiting worker's \<^verbatim>\<open>get\<close> returns, and \<^verbatim>\<open>_run_job\<close> runs up to the first
  event of the engine.
\<close>

definition take_ready :: "string \<Rightarrow> nat \<Rightarrow> 'req job_queue \<Rightarrow> bool" where
  "take_ready name i q \<longleftrightarrow>
     (case map_of (lanes q) name of
        None \<Rightarrow> False
      | Some l \<Rightarrow> i < length (workers l) \<and> workers l ! i = Waiting \<and> lane_queue l \<noteq> [])"

definition take_job ::
  "string \<Rightarrow> nat \<Rightarrow> 'req job_queue \<Rightarrow> queue_error + 'req submission \<times> 'req job_queue" where
  "take_job name i q =
     (let l = the (map_of (lanes q) name); jid = hd (lane_queue l);
          l' = set_worker i (Executing jid None)
                 (l\<lparr>lane_queue := tl (lane_queue l), pending := remove1 jid (pending l)\<rparr>)
      in case reg_amend jid (\<lambda>rec. rec\<lparr>rec_state := RUNNING, queue_position := None\<rparr>)
                (reindex_from 1 (pending l') (registry_of q)) of
           Inl e \<Rightarrow> Inl e
         | Inr (rec, r') \<Rightarrow>
             (case map_of (requests q) jid of
                None \<Rightarrow> Inl (KeyError jid)
              | Some request \<Rightarrow>
                  Inr (request,
                    q\<lparr>lanes := AList.update name l' (lanes q), registry_of := r',
                      requests := AList.delete jid (requests q)\<rparr>)))"

definition publish_event ::
  "string \<Rightarrow> agent_event \<Rightarrow> 'req job_queue \<Rightarrow> queue_error + 'req job_queue" where
  "publish_event jid ev q =
     (case map_of (streams q) jid of
        None \<Rightarrow> Inl (KeyError jid)
      | Some s \<Rightarrow>
          let (dropped, s') = stream_publish s ev;
              q' = q\<lparr>streams := AList.update jid s' (streams q)\<rparr>
          in if \<not> dropped then Inr q'
             else (case reg_get (registry_of q) jid of
                     None \<Rightarrow> Inl (KeyError jid)
                   | Some rec \<Rightarrow>
                       if truncated rec then Inr q'
                       else bind_sum (reg_amend jid (\<lambda>rec. rec\<lparr>truncated := True\<rparr>)
                                        (registry_of q'))
                              (\<lambda>(rec, r'). Inr (q'\<lparr>registry_of := r'\<rparr>))))"

definition finish_job ::
  "string \<Rightarrow> workflow_outcome option \<Rightarrow> 'req job_queue \<Rightarrow> queue_error + 'req job_queue" where
  "finish_job jid outcome q =
     bind_sum (reg_amend jid
         (\<lambda>rec. rec\<lparr>rec_state := TERMINAL, queue_position := None, rec_outcome := outcome\<rparr>)
         (registry_of q))
       (\<lambda>(rec, r').
          case map_of (streams q) jid of
            None \<Rightarrow> Inl (KeyError jid)
          | Some s \<Rightarrow>
              Inr (q\<lparr>registry_of := r', streams := AList.update jid (stream_close s) (streams q),
                     evictions := evictions q @ [DropBuffer jid, DropRecord jid]\<rparr>))"

definition put_worker :: "string \<Rightarrow> nat \<Rightarrow> worker \<Rightarrow> 'req job_queue \<Rightarrow> 'req job_queue" where
  "put_worker name i w q =
     q\<lparr>lanes := AList.update name (set_worker i w (the (map_of (lanes q) name))) (lanes q)\<rparr>"

definition executing ::
  "string \<Rightarrow> nat \<Rightarrow> 'req job_queue \<Rightarrow> (string \<times> workflow_outcome option) option" where
  "executing name i q =
     (case map_of (lanes q) name of
        None \<Rightarrow> None
      | Some l \<Rightarrow>
          if i < length (workers l)
          then (case workers l ! i of Executing jid out \<Rightarrow> Some (jid, out) | _ \<Rightarrow> None)
          else None)"

fun terminal_outcome :: "agent_event \<Rightarrow> workflow_outcome option \<Rightarrow> workflow_outcome option" where
  "terminal_outcome (WorkflowCompleteEvent o1) out = Some o1"
| "terminal_outcome (ScopeTerminalEvent o1) out = Some o1"
| "terminal_outcome ev out = out"

text \<open>The engine of the job on worker \<open>i\<close> yields an event, ends, or raises.\<close>

definition engine_event ::
  "string \<Rightarrow> nat \<Rightarrow> agent_event \<Rightarrow> 'req job_queue \<Rightarrow> queue_error + 'req job_queue" where
  "engine_event name i ev q =
     (case executing name i q of
        None \<Rightarrow> Inr q
      | Some (jid, out) \<Rightarrow>
          bind_sum (publish_event jid ev q)
            (\<lambda>q'. Inr (put_worker name i (Executing jid (terminal_outcome ev out)) q')))"

definition engine_end ::
  "string \<Rightarrow> nat \<Rightarrow> 'req job_queue \<Rightarrow> queue_error + 'req job_queue" where
  "engine_end name i q =
     (case executing name i q of
        None \<Rightarrow> Inr q
      | Some (jid, out) \<Rightarrow>
          bind_sum (finish_job jid out q) (\<lambda>q'. Inr (put_worker name i Waiting q')))"

definition engine_raise ::
  "string \<Rightarrow> nat \<Rightarrow> string \<Rightarrow> bool \<Rightarrow> 'req job_queue \<Rightarrow> queue_error + 'req job_queue" where
  "engine_raise name i kind expired q =
     (case executing name i q of
        None \<Rightarrow> Inr q
      | Some (jid, out) \<Rightarrow>
          bind_sum (publish_event jid
              (ErrorEvent (if expired then ''TimeoutError'' else kind)) q)
            (\<lambda>q1. bind_sum
               (finish_job jid (Some (if expired then job_timed_out else engine_error)) q1)
               (\<lambda>q2. Inr (put_worker name i Waiting q2))))"

definition engine_cancelled :: "string \<Rightarrow> nat \<Rightarrow> 'req job_queue \<Rightarrow> 'req job_queue" where
  "engine_cancelled name i q =
     (case executing name i q of
        None \<Rightarrow> q
      | Some (jid, out) \<Rightarrow> put_worker name i (Cancelled jid) q)"

subsection \<open>Eviction and shutdown\<close>

definition drop_buffer :: "string \<Rightarrow> 'req job_queue \<Rightarrow> queue_error + 'req job_queue" where
  "drop_buffer jid q0 =
     (let q = q0\<lparr>evictions := remove1 (DropBuffer jid) (evictions q0)\<rparr> in
      case map_of (streams q) jid of
        None \<Rightarrow> Inr q
      | Some s \<Rightarrow>
          let (dropped, s') = stream_discard_buffer s;
              q' = q\<lparr>streams := AList.update jid s' (streams q)\<rparr>
          in if dropped = 0 then Inr q'
             else (case reg_get (registry_of q') jid of
                     None \<Rightarrow> Inr q'
                   | Some rec \<Rightarrow>
                       if truncated rec then Inr q'
                       else bind_sum (reg_amend jid (\<lambda>rec. rec\<lparr>truncated := True\<rparr>)
                                        (registry_of q'))
                              (\<lambda>(rec, r'). Inr (q'\<lparr>registry_of := r'\<rparr>))))"

definition drop_record :: "string \<Rightarrow> 'req job_queue \<Rightarrow> 'req job_queue" where
  "drop_record jid q =
     q\<lparr>evictions := remove1 (DropRecord jid) (evictions q),
       registry_of := reg_forget jid (registry_of q),
       streams := AList.delete jid (streams q)\<rparr>"

definition abandon :: "job_record \<Rightarrow> job_record" where
  "abandon rec =
     rec\<lparr>rec_state := TERMINAL, queue_position := None, rec_outcome := Some shutdown_abandoned\<rparr>"

fun abandon_all ::
  "string list \<Rightarrow> registry \<times> (string, agent_event job_stream) pydict \<Rightarrow>
   queue_error + registry \<times> (string, agent_event job_stream) pydict" where
  "abandon_all [] rs = Inr rs"
| "abandon_all (jid # jids) (r, ss) =
     bind_sum (reg_amend jid abandon r)
       (\<lambda>(rec, r'). abandon_all jids
          (r', case map_of ss jid of
                 None \<Rightarrow> ss
               | Some s \<Rightarrow> AList.update jid (stream_close s) ss))"

definition stop :: "'req job_queue \<Rightarrow> queue_error + 'req job_queue" where
  "stop q =
     bind_sum (abandon_all (map rec_job_id (reg_open (registry_of q)))
         (registry_of q, streams q))
       (\<lambda>(r', ss').
          Inr (q\<lparr>accepting := False, evictions := [],
                 lanes := map (\<lambda>(name, l). (name, l\<lparr>workers := [], pending := []\<rparr>)) (lanes q),
                 registry_of := r', streams := ss'\<rparr>))"

text \<open>\<open>attach\<close> only looks the stream up; resuming the generator it returns is \<open>read_stream\<close>.\<close>

definition attach :: "string \<Rightarrow> 'req job_queue \<Rightarrow> queue_error + agent_event reader" where
  "attach jid q =
     (case map_of (streams q) jid of None \<Rightarrow> Inl (KeyError jid) | Some s \<Rightarrow> Inr Fresh)"

definition read_stream ::
  "string \<Rightarrow> nat \<Rightarrow> agent_event reader \<Rightarrow> 'req job_queue \<Rightarrow> 'req job_queue" where
  "read_stream jid new rd q =
     (case map_of (streams q) jid of
        None \<Rightarrow> q
      | Some s \<Rightarrow>
          q\<lparr>streams := AList.update jid (snd (snd (reader_next new s rd))) (streams q)\<rparr>)"

subsection \<open>The steps of the event loop\<close>

fun eviction_id :: "eviction \<Rightarrow> string" where
  "eviction_id (DropBuffer jid) = jid"
| "eviction_id (DropRecord jid) = jid"

text \<open>
  A fresh \<^verbatim>\<open>uuid4\<close> is one no record and no eviction task carries. A run can only
  end by its deadline when a limit is configured (\<^verbatim>\<open>asyncio.timeout(None)\<close> never
  expires).
\<close>

inductive queue_step :: "'req job_queue \<Rightarrow> 'req job_queue \<Rightarrow> bool" where
  Start: "queue_step q (start q)"
| Submit: "jid \<notin> set (dict_keys (registry_of q)) \<Longrightarrow> jid \<notin> eviction_id ` set (evictions q) \<Longrightarrow>
    submit name jid now request q = (res, q') \<Longrightarrow> queue_step q q'"
| Take: "take_ready name i q \<Longrightarrow> take_job name i q = Inr (request, q') \<Longrightarrow> queue_step q q'"
| Event: "engine_event name i ev q = Inr q' \<Longrightarrow> queue_step q q'"
| End: "engine_end name i q = Inr q' \<Longrightarrow> queue_step q q'"
| Raise: "expired \<longrightarrow> run_timeout_seconds q \<noteq> None \<Longrightarrow>
    engine_raise name i kind expired q = Inr q' \<Longrightarrow> queue_step q q'"
| Cancel: "queue_step q (engine_cancelled name i q)"
| EvictBuffer: "DropBuffer jid \<in> set (evictions q) \<Longrightarrow> drop_buffer jid q = Inr q' \<Longrightarrow>
    queue_step q q'"
| EvictRecord: "DropRecord jid \<in> set (evictions q) \<Longrightarrow> queue_step q (drop_record jid q)"
| Read: "queue_step q (read_stream jid new rd q)"
| Shutdown: "stop q = Inr q' \<Longrightarrow> queue_step q q'"

inductive queue_reachable ::
  "nat \<Rightarrow> int \<Rightarrow> duration option \<Rightarrow> nat \<Rightarrow> 'req job_queue \<Rightarrow> bool"
  for conc depth limit cap where
  Init: "queue_reachable conc depth limit cap (new_queue conc depth limit cap)"
| Step: "queue_reachable conc depth limit cap q \<Longrightarrow> queue_step q q' \<Longrightarrow>
    queue_reachable conc depth limit cap q'"

end
