(* ===== verification/JobQueueInv.thy ===== *)
theory JobQueueInv
  imports JobQueue
begin

section \<open>The invariant of the job queue\<close>

text \<open>
  What holds of the queue's dictionaries, lanes and workers in every reachable state: every
  record has its stream, a queued record sits in its lane's arrival order at its position
  and has its request, a running record is held by exactly one worker of its lane, the
  stream is closed exactly when the record is terminal. Each operation gets one lemma that it
  cannot fail and keeps the invariant.
\<close>

subsection \<open>The invariant\<close>

text \<open>
  The invariant is stated over the queue's dictionaries as maps: \<open>Ln\<close> the lanes, \<open>R\<close> the
  records, \<open>Q\<close> the requests, \<open>S\<close> the streams, \<open>E\<close> the ids of the eviction tasks.
\<close>

fun held :: "worker \<Rightarrow> string list" where
  "held Waiting = []"
| "held (Executing jid out) = [jid]"
| "held (Cancelled jid) = [jid]"

definition held_ids :: "worker list \<Rightarrow> string list" where
  "held_ids ws = concat (map held ws)"

definition lane_ok ::
  "nat \<Rightarrow> int \<Rightarrow> (string \<rightharpoonup> job_record) \<Rightarrow> string \<Rightarrow> lane \<Rightarrow> bool" where
  "lane_ok conc depth R name L \<longleftrightarrow>
     length (workers L) \<le> conc \<and> distinct (pending L) \<and>
     (workers L \<noteq> [] \<longrightarrow> lane_queue L = pending L) \<and>
     length (pending L) \<le> length (lane_queue L) \<and>
     (0 < depth \<longrightarrow> int (length (lane_queue L)) \<le> depth) \<and>
     (\<forall>k < length (pending L). \<exists>rec. R (pending L ! k) = Some rec \<and> rec_state rec = QUEUED \<and>
        rec_lane rec = name \<and> queue_position rec = Some (Suc k)) \<and>
     (\<forall>jid \<in> set (held_ids (workers L)).
        \<exists>rec. R jid = Some rec \<and> rec_state rec = RUNNING \<and> rec_lane rec = name) \<and>
     distinct (held_ids (workers L))"

definition placed :: "(string \<rightharpoonup> lane) \<Rightarrow> (string \<rightharpoonup> 'q) \<Rightarrow> string \<Rightarrow> job_record \<Rightarrow> bool" where
  "placed Ln Q jid rec \<longleftrightarrow>
     (case rec_state rec of
        QUEUED \<Rightarrow> jid \<in> dom Q \<and> (\<exists>L. Ln (rec_lane rec) = Some L \<and> jid \<in> set (pending L))
      | RUNNING \<Rightarrow> queue_position rec = None \<and>
          (\<exists>L. Ln (rec_lane rec) = Some L \<and> jid \<in> set (held_ids (workers L)))
      | TERMINAL \<Rightarrow> queue_position rec = None)"

definition record_ok ::
  "(string \<rightharpoonup> lane) \<Rightarrow> (string \<rightharpoonup> 'q) \<Rightarrow> (string \<rightharpoonup> agent_event job_stream) \<Rightarrow> string set \<Rightarrow>
   string \<Rightarrow> job_record \<Rightarrow> bool" where
  "record_ok Ln Q S E jid rec \<longleftrightarrow>
     rec_job_id rec = jid \<and>
     (\<exists>s. S jid = Some s \<and> st_closed s = (rec_state rec = TERMINAL)) \<and>
     placed Ln Q jid rec \<and> (jid \<in> E \<longrightarrow> rec_state rec = TERMINAL)"

definition core_inv ::
  "nat \<Rightarrow> int \<Rightarrow> (string \<rightharpoonup> lane) \<Rightarrow> (string \<rightharpoonup> job_record) \<Rightarrow> (string \<rightharpoonup> 'q) \<Rightarrow>
   (string \<rightharpoonup> agent_event job_stream) \<Rightarrow> string set \<Rightarrow> bool" where
  "core_inv conc depth Ln R Q S E \<longleftrightarrow>
     dom S = dom R \<and>
     (\<forall>jid rec. R jid = Some rec \<longrightarrow> record_ok Ln Q S E jid rec) \<and>
     (\<forall>name L. Ln name = Some L \<longrightarrow> lane_ok conc depth R name L)"

definition queue_inv :: "'req job_queue \<Rightarrow> bool" where
  "queue_inv q \<longleftrightarrow>
     wf_dict (lanes q) \<and> wf_dict (registry_of q) \<and> wf_dict (requests q) \<and> wf_dict (streams q) \<and>
     core_inv (max_concurrent_runs_per_lane q) (max_depth_per_lane q)
       (map_of (lanes q)) (map_of (registry_of q)) (map_of (requests q)) (map_of (streams q))
       (eviction_id ` set (evictions q))"

lemma core_recordD: "core_inv c d Ln R Q S E \<Longrightarrow> R jid = Some rec \<Longrightarrow> record_ok Ln Q S E jid rec"
  by (simp add: core_inv_def)

lemma core_laneD: "core_inv c d Ln R Q S E \<Longrightarrow> Ln name = Some L \<Longrightarrow> lane_ok c d R name L"
  by (simp add: core_inv_def)

lemma core_streamD:
  "core_inv c d Ln R Q S E \<Longrightarrow> R jid = Some rec \<Longrightarrow>
     \<exists>s. S jid = Some s \<and> st_closed s = (rec_state rec = TERMINAL)"
  by (auto simp: core_inv_def record_ok_def)

lemma lane_ok_pending:
  "lane_ok c d R name L \<Longrightarrow> jid \<in> set (pending L) \<Longrightarrow>
     \<exists>rec. R jid = Some rec \<and> rec_state rec = QUEUED \<and> rec_lane rec = name"
  by (fastforce simp: lane_ok_def in_set_conv_nth)

lemma lane_ok_held:
  "lane_ok c d R name L \<Longrightarrow> jid \<in> set (held_ids (workers L)) \<Longrightarrow>
     \<exists>rec. R jid = Some rec \<and> rec_state rec = RUNNING \<and> rec_lane rec = name"
  by (simp add: lane_ok_def)

text \<open>A record changed only where no invariant looks.\<close>

definition same_view :: "job_record \<Rightarrow> job_record \<Rightarrow> bool" where
  "same_view rec rec' \<longleftrightarrow> rec' = rec \<or> rec' = rec\<lparr>truncated := True\<rparr>"

lemma same_view_fields:
  "same_view rec rec' \<Longrightarrow>
     rec_job_id rec' = rec_job_id rec \<and> rec_lane rec' = rec_lane rec \<and>
     rec_state rec' = rec_state rec \<and> queue_position rec' = queue_position rec"
  by (auto simp: same_view_def)

lemma lane_ok_same_view:
  assumes "lane_ok c d R name L" and "R jid = Some rec" and "same_view rec rec'"
  shows "lane_ok c d (R(jid \<mapsto> rec')) name L"
  using assms(1,2) same_view_fields [OF assms(3)] unfolding lane_ok_def by (auto; metis)

lemma record_ok_same_view:
  assumes "record_ok Ln Q S E jid rec" and "same_view rec rec'"
  shows "record_ok Ln Q S E jid rec'"
  using assms(1) same_view_fields [OF assms(2)]
  by (auto simp: record_ok_def placed_def split: job_state.splits)

lemma record_ok_stream:
  assumes "record_ok Ln Q S E jid rec" and "S k = Some s" and "st_closed s' = st_closed s"
  shows "record_ok Ln Q (S(k \<mapsto> s')) E jid rec"
  using assms by (auto simp: record_ok_def)

lemma core_touch:
  assumes core: "core_inv c d Ln R Q S E" and "R jid = Some rec" and "S jid = Some s"
    and "same_view rec rec'" and "st_closed s' = st_closed s"
  shows "core_inv c d Ln (R(jid \<mapsto> rec')) Q (S(jid \<mapsto> s')) E"
  unfolding core_inv_def
proof (intro conjI allI impI)
  show "dom (S(jid \<mapsto> s')) = dom (R(jid \<mapsto> rec'))"
    using core by (simp add: core_inv_def)
next
  fix k r assume k: "(R(jid \<mapsto> rec')) k = Some r"
  show "record_ok Ln Q (S(jid \<mapsto> s')) E k r"
  proof (cases "k = jid")
    case True
    with k core_recordD [OF core assms(2)] assms(3-5) show ?thesis
      by (auto intro: record_ok_stream record_ok_same_view)
  next
    case False
    with k core assms(3,5) show ?thesis
      by (auto intro: record_ok_stream core_recordD)
  qed
next
  fix name L assume "Ln name = Some L"
  with core assms(2,4) show "lane_ok c d (R(jid \<mapsto> rec')) name L"
    by (blast intro: lane_ok_same_view core_laneD)
qed

text \<open>The lane of one name replaced, where every record keeps its place.\<close>

lemma record_ok_lane:
  assumes "record_ok Ln Q S E jid rec" and "Ln name = Some L"
    and "jid \<in> set (pending L) \<Longrightarrow> jid \<in> set (pending L')"
    and "jid \<in> set (held_ids (workers L)) \<Longrightarrow> jid \<in> set (held_ids (workers L'))"
  shows "record_ok (Ln(name \<mapsto> L')) Q S E jid rec"
  using assms
  by (cases "rec_lane rec = name")
    (auto simp: record_ok_def placed_def split: job_state.splits)

lemma set_worker_simps [simp]:
  "pending (set_worker i w L) = pending L"
  "lane_queue (set_worker i w L) = lane_queue L"
  "workers (set_worker i w L) = (workers L)[i := w]"
  by (simp_all add: set_worker_def)

lemma held_ids_update:
  assumes "i < length ws"
  obtains pre post where
    "held_ids ws = held_ids pre @ held (ws ! i) @ held_ids post"
    and "\<And>w. held_ids (ws[i := w]) = held_ids pre @ held w @ held_ids post"
proof
  show "held_ids ws = held_ids (take i ws) @ held (ws ! i) @ held_ids (drop (Suc i) ws)"
    by (subst id_take_nth_drop [OF assms]) (simp add: held_ids_def)
  show "held_ids (ws[i := w]) = held_ids (take i ws) @ held w @ held_ids (drop (Suc i) ws)" for w
    by (simp add: upd_conv_take_nth_drop [OF assms] held_ids_def)
qed

lemma held_ids_same:
  "i < length ws \<Longrightarrow> held w = held (ws ! i) \<Longrightarrow> held_ids (ws[i := w]) = held_ids ws"
  by (rule held_ids_update [of i ws]) auto

lemma core_same_held:
  assumes core: "core_inv c d Ln R Q S E" and L: "Ln name = Some L"
    and i: "i < length (workers L)" and h: "held w = held (workers L ! i)"
  shows "core_inv c d (Ln(name \<mapsto> set_worker i w L)) R Q S E"
  unfolding core_inv_def
proof (intro conjI allI impI)
  show "dom S = dom R" using core by (simp add: core_inv_def)
next
  fix jid rec assume "R jid = Some rec"
  with core have "record_ok Ln Q S E jid rec" by (rule core_recordD)
  then show "record_ok (Ln(name \<mapsto> set_worker i w L)) Q S E jid rec"
    by (rule record_ok_lane [where Ln = Ln and name = name and L = L])
      (simp_all add: L held_ids_same [OF i h])
next
  fix n L' assume n: "(Ln(name \<mapsto> set_worker i w L)) n = Some L'"
  show "lane_ok c d R n L'"
  proof (cases "n = name")
    case True
    with n core_laneD [OF core L] show ?thesis
      by (auto simp: lane_ok_def held_ids_same [OF i h])
  next
    case False
    with n core show ?thesis by (auto intro: core_laneD)
  qed
qed

text \<open>Evicting a terminal record.\<close>

lemma lane_ok_other_record:
  assumes "lane_ok c d R name L" and "\<forall>rec. R jid = Some rec \<longrightarrow> rec_state rec = TERMINAL"
    and "\<forall>rec. R' jid = Some rec \<longrightarrow> rec_state rec = TERMINAL \<or> jid \<notin> dom R"
    and "\<forall>k. k \<noteq> jid \<longrightarrow> R' k = R k"
  shows "lane_ok c d R' name L"
proof -
  have "R' k = R k" if "R k = Some rec" and "rec_state rec \<noteq> TERMINAL" for k rec
    using that assms(2,4) by (metis option.inject)
  then show ?thesis
    using assms(1) unfolding lane_ok_def by (metis job_state.distinct(3,5))
qed

lemma core_forget:
  assumes core: "core_inv c d Ln R Q S E" and jid: "jid \<in> E" and sub: "E' \<subseteq> E"
  shows "core_inv c d Ln (R(jid := None)) Q (S(jid := None)) E'"
  unfolding core_inv_def
proof (intro conjI allI impI)
  show "dom (S(jid := None)) = dom (R(jid := None))"
    using core by (simp add: core_inv_def)
next
  fix k rec assume "(R(jid := None)) k = Some rec"
  then have "k \<noteq> jid" and "R k = Some rec" by (auto split: if_splits)
  with core_recordD [OF core] sub show "record_ok Ln Q (S(jid := None)) E' k rec"
    by (auto simp: record_ok_def)
next
  fix name L assume "Ln name = Some L"
  with core have "lane_ok c d R name L" by (rule core_laneD)
  moreover have "\<forall>rec. R jid = Some rec \<longrightarrow> rec_state rec = TERMINAL"
    using core_recordD [OF core] jid by (auto simp: record_ok_def)
  ultimately show "lane_ok c d (R(jid := None)) name L"
    by (rule lane_ok_other_record) auto
qed

lemma core_evictions_mono:
  "core_inv c d Ln R Q S E \<Longrightarrow> E' \<subseteq> E \<Longrightarrow> core_inv c d Ln R Q S E'"
  unfolding core_inv_def record_ok_def by blast

text \<open>A worker finishing its job.\<close>

lemma core_finish:
  assumes core: "core_inv c d Ln R Q S E" and L: "Ln name = Some L"
    and i: "i < length (workers L)" and h: "held (workers L ! i) = [jid]"
    and s: "S jid = Some s"
    and rec': "rec_job_id rec' = jid" "rec_state rec' = TERMINAL" "queue_position rec' = None"
  shows "core_inv c d (Ln(name \<mapsto> set_worker i Waiting L)) (R(jid \<mapsto> rec')) Q
           (S(jid \<mapsto> stream_close s)) (insert jid E)"
proof -
  have ok: "lane_ok c d R name L" by (rule core_laneD [OF core L])
  obtain pre post where ws: "held_ids (workers L) = held_ids pre @ [jid] @ held_ids post"
    and ws': "held_ids ((workers L)[i := Waiting]) = held_ids pre @ held_ids post"
    using held_ids_update [OF i] h by (metis append_Nil held.simps(1))
  have held': "set (held_ids ((workers L)[i := Waiting])) = set (held_ids (workers L)) - {jid}"
    and dist': "distinct (held_ids ((workers L)[i := Waiting]))"
    using ok by (auto simp: lane_ok_def ws ws')
  obtain rec0 where R0: "R jid = Some rec0" "rec_state rec0 = RUNNING" "rec_lane rec0 = name"
    using lane_ok_held [OF ok, of jid] ws by auto
  show ?thesis
    unfolding core_inv_def
  proof (intro conjI allI impI)
    show "dom (S(jid \<mapsto> stream_close s)) = dom (R(jid \<mapsto> rec'))"
      using core by (simp add: core_inv_def)
  next
    fix k r assume k: "(R(jid \<mapsto> rec')) k = Some r"
    show "record_ok (Ln(name \<mapsto> set_worker i Waiting L)) Q (S(jid \<mapsto> stream_close s))
        (insert jid E) k r"
    proof (cases "k = jid")
      case True
      with k rec' show ?thesis
        by (auto simp: record_ok_def placed_def stream_close_def)
    next
      case False
      with k have "R k = Some r" by simp
      then have "record_ok Ln Q S E k r" by (rule core_recordD [OF core])
      then have "record_ok (Ln(name \<mapsto> set_worker i Waiting L)) Q S E k r"
        by (rule record_ok_lane [where Ln = Ln and name = name and L = L])
          (simp_all add: L held' False)
      with False show ?thesis by (simp add: record_ok_def)
    qed
  next
    fix n L' assume n: "(Ln(name \<mapsto> set_worker i Waiting L)) n = Some L'"
    show "lane_ok c d (R(jid \<mapsto> rec')) n L'"
    proof (cases "n = name")
      case True
      with n have L': "L' = set_worker i Waiting L" by simp
      have "pending L ! k \<noteq> jid" if "k < length (pending L)" for k
        using ok that R0 by (auto simp: lane_ok_def)
      with ok dist' show ?thesis
        by (auto simp: L' True lane_ok_def held')
    next
      case False
      with n have Ln: "Ln n = Some L'" by simp
      have ok': "lane_ok c d R n L'" by (rule core_laneD [OF core Ln])
      have "pending L' ! k \<noteq> jid" if "k < length (pending L')" for k
        using ok' that R0 by (auto simp: lane_ok_def)
      moreover have "jid \<notin> set (held_ids (workers L'))"
        using lane_ok_held [OF ok', of jid] R0 False by auto
      ultimately show ?thesis
        using ok' by (auto simp: lane_ok_def)
    qed
  qed
qed

text \<open>Reindexing gives the \<open>n\<close>-th pending job position \<open>n + 1\<close> and touches nothing else.\<close>

lemma reindex_other: "j \<notin> set ps \<Longrightarrow> map_of (reindex_from k ps r) j = map_of r j"
  by (induction ps arbitrary: k r) (auto simp: dict_simps split: option.splits)

lemma reindex_nth:
  assumes "distinct ps" and "n < length ps" and "map_of r (ps ! n) = Some rec"
    and "rec_state rec = QUEUED"
  shows "map_of (reindex_from k ps r) (ps ! n) = Some (rec\<lparr>queue_position := Some (k + n)\<rparr>)"
  using assms
proof (induction ps arbitrary: k r n)
  case Nil
  then show ?case by simp
next
  case (Cons p ps)
  show ?case
  proof (cases n)
    case 0
    with Cons.prems show ?thesis by (simp add: reindex_other dict_simps)
  next
    case (Suc m)
    with Cons.prems have "ps ! m \<noteq> p" by auto
    with Suc Cons.prems Cons.IH [of m _ "Suc k"] show ?thesis
      by (auto simp: dict_simps split: option.splits)
  qed
qed

lemma wf_reindex: "wf_dict r \<Longrightarrow> wf_dict (reindex_from k ps r)"
  by (induction ps arbitrary: k r) (auto simp: dict_simps split: option.splits)

lemma dom_reindex: "dom (map_of (reindex_from k ps r)) = dom (map_of r)"
  by (induction ps arbitrary: k r) (auto simp: dict_simps split: option.splits)

lemma core_take:
  assumes core: "core_inv c d Ln R Q S E" and L: "Ln name = Some L"
    and i: "i < length (workers L)" and w: "workers L ! i = Waiting"
    and pend: "pending L = jid # rest" and que: "lane_queue L = jid # rest"
    and dom': "dom R' = dom R"
    and rest': "\<And>n rec. n < length rest \<Longrightarrow> R (rest ! n) = Some rec \<Longrightarrow> rec_state rec = QUEUED \<Longrightarrow>
      R' (rest ! n) = Some (rec\<lparr>queue_position := Some (Suc n)\<rparr>)"
    and other: "\<And>k. k \<notin> set rest \<Longrightarrow> k \<noteq> jid \<Longrightarrow> R' k = R k"
    and jid: "R jid = Some rec0" "R' jid = Some (rec0\<lparr>rec_state := RUNNING, queue_position := None\<rparr>)"
  shows "core_inv c d
    (Ln(name \<mapsto> set_worker i (Executing jid None) (L\<lparr>lane_queue := rest, pending := rest\<rparr>)))
    R' (Q(jid := None)) S E"
    (is "core_inv c d (Ln(name \<mapsto> ?L')) R' ?Q S E")
proof -
  have ok: "lane_ok c d R name L" by (rule core_laneD [OF core L])
  have dist: "distinct (jid # rest)" using ok pend by (simp add: lane_ok_def)
  have queued: "\<exists>rec. R k = Some rec \<and> rec_state rec = QUEUED \<and> rec_lane rec = name"
    if "k \<in> set (jid # rest)" for k
    using lane_ok_pending [OF ok, of k] that pend by simp
  have rec0: "rec_state rec0 = QUEUED" "rec_lane rec0 = name" "rec_job_id rec0 = jid"
    using queued [of jid] jid(1) core_recordD [OF core jid(1)] by (auto simp: record_ok_def)
  obtain pre post where ws: "held_ids (workers L) = held_ids pre @ held_ids post"
    and ws': "held_ids (workers ?L') = held_ids pre @ jid # held_ids post"
    using held_ids_update [OF i] w by (metis append_Cons append_Nil held.simps(1,2)
        set_worker_simps(3) lane.select_convs(3) lane.update_convs(1,2) lane.surjective)
  have held': "set (held_ids (workers ?L')) = insert jid (set (held_ids (workers L)))"
    by (auto simp only: ws ws' set_append list.set)
  have notheld: "k \<notin> set (jid # rest)" if "k \<in> set (held_ids (workers L))" for k
    using lane_ok_held [OF ok that] queued [of k] by auto
  have dist': "distinct (held_ids (workers ?L'))"
    using ok notheld [of jid] by (auto simp: lane_ok_def ws ws' simp del: set_worker_simps)
  show ?thesis
    unfolding core_inv_def
  proof (intro conjI allI impI)
    show "dom S = dom R'" using core dom' by (simp add: core_inv_def)
  next
    fix k r assume k: "R' k = Some r"
    show "record_ok (Ln(name \<mapsto> ?L')) ?Q S E k r"
    proof (cases "k \<in> set (jid # rest)")
      case False
      with k other have "R k = Some r" by auto
      then have "record_ok Ln Q S E k r" by (rule core_recordD [OF core])
      then have "record_ok (Ln(name \<mapsto> ?L')) Q S E k r"
        by (rule record_ok_lane [where Ln = Ln and name = name and L = L])
          (use False pend held' L in \<open>auto simp del: set_worker_simps(3)\<close>)
      with False show ?thesis
        by (auto simp: record_ok_def placed_def split: job_state.splits)
    next
      case True
      show ?thesis
      proof (cases "k = jid")
        case True
        with k jid rec0 core_recordD [OF core jid(1)] held' show ?thesis
          by (auto simp: record_ok_def placed_def simp del: set_worker_simps(3))
      next
        case False
        with True obtain n where n: "n < length rest" "k = rest ! n"
          by (auto simp: in_set_conv_nth)
        obtain rec where rec: "R k = Some rec" "rec_state rec = QUEUED" "rec_lane rec = name"
          using queued [OF \<open>k \<in> set (jid # rest)\<close>] by auto
        have "r = rec\<lparr>queue_position := Some (Suc n)\<rparr>"
          using k rest' [OF n(1)] rec n(2) by simp
        with core_recordD [OF core rec(1)] rec False n show ?thesis
          by (auto simp: record_ok_def placed_def)
      qed
    qed
  next
    fix n L' assume n: "(Ln(name \<mapsto> ?L')) n = Some L'"
    show "lane_ok c d R' n L'"
    proof (cases "n = name")
      case True
      with n have L': "L' = ?L'" by simp
      have "\<exists>rec. R' (rest ! k) = Some rec \<and> rec_state rec = QUEUED \<and>
          rec_lane rec = name \<and> queue_position rec = Some (Suc k)" if "k < length rest" for k
        using queued [of "rest ! k"] rest' [OF that] that by auto
      moreover have "\<exists>rec. R' k = Some rec \<and> rec_state rec = RUNNING \<and> rec_lane rec = name"
        if "k \<in> set (held_ids (workers ?L'))" for k
      proof (cases "k = jid")
        case True
        with jid rec0 show ?thesis by simp
      next
        case False
        with that held' have "k \<in> set (held_ids (workers L))" by auto
        with notheld other lane_ok_held [OF ok] show ?thesis by auto
      qed
      ultimately show ?thesis
        using ok dist dist' pend que unfolding L' True
        by (auto simp: lane_ok_def)
    next
      case False
      with n have Ln: "Ln n = Some L'" by simp
      have ok': "lane_ok c d R n L'" by (rule core_laneD [OF core Ln])
      have same: "R' k = R k" if "R k = Some rec" "rec_lane rec = n" for k rec
        using that False queued [of k] other [of k] by auto
      show ?thesis
        using ok' same unfolding lane_ok_def by metis
    qed
  qed
qed

lemma held_ids_waiting [simp]: "held_ids (replicate n Waiting) = []"
  by (induction n) (simp_all add: held_ids_def)

lemma core_ensure:
  assumes core: "core_inv c d Ln R Q S E" and new: "Ln name = None"
  shows "core_inv c d
    (Ln(name \<mapsto> \<lparr>lane_queue = [], pending = [], workers = replicate c Waiting\<rparr>)) R Q S E"
  unfolding core_inv_def
proof (intro conjI allI impI)
  show "dom S = dom R" using core by (simp add: core_inv_def)
next
  fix jid rec assume "R jid = Some rec"
  with core have "record_ok Ln Q S E jid rec" by (rule core_recordD)
  moreover have "rec_lane rec \<noteq> name" if "rec_state rec \<noteq> TERMINAL"
    using calculation that new by (auto simp: record_ok_def placed_def split: job_state.splits)
  ultimately show "record_ok
      (Ln(name \<mapsto> \<lparr>lane_queue = [], pending = [], workers = replicate c Waiting\<rparr>)) Q S E jid rec"
    by (cases "rec_state rec") (auto simp: record_ok_def placed_def)
next
  fix n L assume "(Ln(name \<mapsto> \<lparr>lane_queue = [], pending = [], workers = replicate c Waiting\<rparr>)) n = Some L"
  with core_laneD [OF core] show "lane_ok c d R n L"
    by (auto simp: lane_ok_def split: if_splits)
qed

lemma core_submit:
  assumes core: "core_inv c d Ln R Q S E" and L: "Ln name = Some L"
    and fresh: "jid \<notin> dom R" "jid \<notin> E"
    and room: "0 < d \<Longrightarrow> int (length (lane_queue L)) < d"
    and rec: "rec_job_id rec = jid" "rec_lane rec = name" "rec_state rec = QUEUED"
      "queue_position rec = Some (length (pending L) + 1)"
  shows "core_inv c d
    (Ln(name \<mapsto> L\<lparr>lane_queue := lane_queue L @ [jid], pending := pending L @ [jid]\<rparr>))
    (R(jid \<mapsto> rec)) (Q(jid \<mapsto> req)) (S(jid \<mapsto> new_stream cap)) E"
    (is "core_inv c d (Ln(name \<mapsto> ?L')) ?R ?Q ?S E")
proof -
  have ok: "lane_ok c d R name L" by (rule core_laneD [OF core L])
  have notin: "jid \<notin> set (pending M) \<and> jid \<notin> set (held_ids (workers M))" if "lane_ok c d R n M" for n M
    using lane_ok_pending [OF that, of jid] lane_ok_held [OF that, of jid] fresh by auto
  show ?thesis
    unfolding core_inv_def
  proof (intro conjI allI impI)
    show "dom ?S = dom ?R" using core by (simp add: core_inv_def)
  next
    fix k r assume k: "?R k = Some r"
    show "record_ok (Ln(name \<mapsto> ?L')) ?Q ?S E k r"
    proof (cases "k = jid")
      case True
      with k rec fresh show ?thesis
        by (auto simp: record_ok_def placed_def new_stream_def)
    next
      case False
      with k have "R k = Some r" by simp
      then have "record_ok Ln Q S E k r" by (rule core_recordD [OF core])
      then have "record_ok (Ln(name \<mapsto> ?L')) Q S E k r"
        by (rule record_ok_lane [where Ln = Ln and name = name and L = L]) (simp_all add: L)
      with False show ?thesis
        by (auto simp: record_ok_def placed_def split: job_state.splits)
    qed
  next
    fix n M assume n: "(Ln(name \<mapsto> ?L')) n = Some M"
    show "lane_ok c d ?R n M"
    proof (cases "n = name")
      case True
      with n have M: "M = ?L'" by simp
      have "\<exists>r. ?R ((pending L @ [jid]) ! k) = Some r \<and> rec_state r = QUEUED \<and>
          rec_lane r = name \<and> queue_position r = Some (Suc k)"
        if "k < Suc (length (pending L))" for k
      proof (cases "k = length (pending L)")
        case True
        with rec show ?thesis by simp
      next
        case False
        with that have k: "k < length (pending L)" by simp
        then have "pending L ! k \<noteq> jid" using notin [OF ok] nth_mem by metis
        with k ok show ?thesis by (auto simp: lane_ok_def nth_append)
      qed
      moreover have "?R k = R k" if "k \<in> set (held_ids (workers L))" for k
        using that notin [OF ok] by auto
      ultimately show ?thesis
        using ok notin [OF ok] room unfolding M True
        by (auto simp: lane_ok_def)
    next
      case False
      with n have "Ln n = Some M" by simp
      then have ok': "lane_ok c d R n M" by (rule core_laneD [OF core])
      have "?R k = R k" if "k \<in> set (pending M) \<union> set (held_ids (workers M))" for k
        using that notin [OF ok'] by auto
      then show ?thesis
        using ok' unfolding lane_ok_def by (simp add: nth_mem)
    qed
  qed
qed

lemma core_stop:
  assumes core: "core_inv c d Ln R Q S E"
    and R': "\<And>k. R' k = map_option (\<lambda>rec. if rec_state rec = TERMINAL then rec else abandon rec) (R k)"
    and S': "\<And>k rec. R k = Some rec \<Longrightarrow>
      S' k = map_option (if rec_state rec = TERMINAL then id else stream_close) (S k)"
    and dom': "dom S' = dom S"
    and Ln': "\<And>n. Ln' n = map_option (\<lambda>l. l\<lparr>workers := [], pending := []\<rparr>) (Ln n)"
  shows "core_inv c d Ln' R' Q S' {}"
  unfolding core_inv_def
proof (intro conjI allI impI)
  have "dom R' = dom R" by (auto simp: R' dom_def)
  with core dom' show "dom S' = dom R'" by (simp add: core_inv_def)
next
  fix k r assume "R' k = Some r"
  with R' obtain rec where rec: "R k = Some rec"
    and r: "r = (if rec_state rec = TERMINAL then rec else abandon rec)" by auto
  from core_recordD [OF core rec] r S' [OF rec] show "record_ok Ln' Q S' {} k r"
    by (auto simp: record_ok_def placed_def abandon_def stream_close_def)
next
  fix n L assume "Ln' n = Some L"
  with Ln' obtain M where M: "Ln n = Some M" and L: "L = M\<lparr>workers := [], pending := []\<rparr>" by auto
  from core_laneD [OF core M] show "lane_ok c d R' n L"
    by (auto simp: lane_ok_def L held_ids_def)
qed

lemma abandon_all_ok:
  assumes "distinct jids" and "set jids \<subseteq> dom (map_of r)"
  shows "\<exists>r' ss'. abandon_all jids (r, ss) = Inr (r', ss') \<and>
    (wf_dict r \<longrightarrow> wf_dict r') \<and> (wf_dict ss \<longrightarrow> wf_dict ss') \<and>
    map_of r' = (\<lambda>k. if k \<in> set jids then map_option abandon (map_of r k) else map_of r k) \<and>
    map_of ss' = (\<lambda>k. if k \<in> set jids then map_option stream_close (map_of ss k) else map_of ss k)"
  using assms
proof (induction jids arbitrary: r ss)
  case Nil
  then show ?case by simp
next
  case (Cons jid jids)
  then obtain rec where rec: "map_of r jid = Some rec" by auto
  define r1 where "r1 = AList.update jid (abandon rec) r"
  define ss1 where "ss1 = (case map_of ss jid of None \<Rightarrow> ss
    | Some s \<Rightarrow> AList.update jid (stream_close s) ss)"
  have step: "abandon_all (jid # jids) (r, ss) = abandon_all jids (r1, ss1)"
    by (simp add: reg_amend_def rec r1_def ss1_def)
  have "set jids \<subseteq> dom (map_of r1)" using Cons.prems by (auto simp: r1_def dict_simps)
  with Cons.IH [of r1 ss1] Cons.prems(1) obtain r' ss' where
    run: "abandon_all jids (r1, ss1) = Inr (r', ss')"
    "wf_dict r1 \<longrightarrow> wf_dict r'" "wf_dict ss1 \<longrightarrow> wf_dict ss'"
    "map_of r' = (\<lambda>k. if k \<in> set jids then map_option abandon (map_of r1 k) else map_of r1 k)"
    "map_of ss' = (\<lambda>k. if k \<in> set jids then map_option stream_close (map_of ss1 k) else map_of ss1 k)"
    by auto
  have "wf_dict r \<longrightarrow> wf_dict r1" and "wf_dict ss \<longrightarrow> wf_dict ss1"
    by (auto simp: r1_def ss1_def dict_simps split: option.splits)
  moreover have "map_of ss1 = (map_of ss)(jid := map_option stream_close (map_of ss jid))"
    by (auto simp: ss1_def dict_simps fun_eq_iff split: option.splits)
  moreover have "map_of r1 = (map_of r)(jid \<mapsto> abandon rec)"
    by (simp add: r1_def dict_simps)
  moreover have "jid \<notin> set jids" using Cons.prems(1) by simp
  ultimately have "map_of r' =
      (\<lambda>k. if k \<in> set (jid # jids) then map_option abandon (map_of r k) else map_of r k)"
    and "map_of ss' =
      (\<lambda>k. if k \<in> set (jid # jids) then map_option stream_close (map_of ss k) else map_of ss k)"
    and "wf_dict r \<longrightarrow> wf_dict r'" and "wf_dict ss \<longrightarrow> wf_dict ss'"
    using run(2-) rec by (simp_all add: fun_eq_iff)
  with step run(1) show ?case by (intro exI [of _ r'] exI [of _ ss'] conjI) simp_all
qed

subsection \<open>Every operation preserves the invariant\<close>

lemma queue_invD:
  "queue_inv q \<Longrightarrow> core_inv (max_concurrent_runs_per_lane q) (max_depth_per_lane q)
     (map_of (lanes q)) (map_of (registry_of q)) (map_of (requests q)) (map_of (streams q))
     (eviction_id ` set (evictions q))"
  by (simp add: queue_inv_def)

lemma queue_inv_init: "queue_inv (new_queue conc depth limit cap)"
  by (simp add: queue_inv_def new_queue_def core_inv_def)

lemma queue_inv_ensure: "queue_inv q \<Longrightarrow> queue_inv (ensure_lane name q)"
  by (auto simp: ensure_lane_def queue_inv_def dict_simps core_ensure split: option.splits)

lemma ensure_lane_frame [simp]:
  "accepting (ensure_lane name q) = accepting q"
  "registry_of (ensure_lane name q) = registry_of q"
  "requests (ensure_lane name q) = requests q"
  "streams (ensure_lane name q) = streams q"
  "evictions (ensure_lane name q) = evictions q"
  "max_depth_per_lane (ensure_lane name q) = max_depth_per_lane q"
  "max_concurrent_runs_per_lane (ensure_lane name q) = max_concurrent_runs_per_lane q"
  "event_buffer_capacity (ensure_lane name q) = event_buffer_capacity q"
  "run_timeout_seconds (ensure_lane name q) = run_timeout_seconds q"
  by (simp_all add: ensure_lane_def split: option.splits)

lemma ensure_lane_present: "\<exists>L. map_of (lanes (ensure_lane name q)) name = Some L"
  by (simp add: ensure_lane_def dict_simps split: option.splits)

lemma queue_inv_start: "queue_inv q \<Longrightarrow> queue_inv (start q)"
  unfolding start_def by (rule queue_inv_ensure) (simp add: queue_inv_def)

lemma queue_inv_submit:
  assumes inv: "queue_inv q" and "jid \<notin> set (dict_keys (registry_of q))"
    and "jid \<notin> eviction_id ` set (evictions q)" and sub: "submit name jid now request q = (res, q')"
  shows "queue_inv q'"
proof -
  define q1 where "q1 = ensure_lane name q"
  have inv1: "queue_inv q1" using inv by (simp add: q1_def queue_inv_ensure)
  obtain L where L: "map_of (lanes q1) name = Some L"
    using ensure_lane_present by (auto simp: q1_def)
  show ?thesis
  proof (cases "accepting q \<and> \<not> queue_full q1 L")
    case False
    with sub inv inv1 L show ?thesis
      by (auto simp: submit_def q1_def [symmetric] Let_def split: if_splits)
  next
    case True
    have "core_inv (max_concurrent_runs_per_lane q1) (max_depth_per_lane q1)
      ((map_of (lanes q1))(name \<mapsto> L\<lparr>lane_queue := lane_queue L @ [jid], pending := pending L @ [jid]\<rparr>))
      ((map_of (registry_of q1))(jid \<mapsto>
         \<lparr>rec_job_id = jid, rec_lane = name, rec_state = QUEUED,
          queue_position = Some (length (pending L) + 1), submitted_at = now,
          rec_scope = sub_scope request, rec_outcome = None, truncated = False\<rparr>))
      ((map_of (requests q1))(jid \<mapsto> request))
      ((map_of (streams q1))(jid \<mapsto> new_stream (event_buffer_capacity q1)))
      (eviction_id ` set (evictions q1))"
      using True assms(2,3)
      by (intro core_submit [OF queue_invD [OF inv1] L])
        (auto simp: q1_def queue_full_def dest: dict_get_keys)
    with True sub L inv1 show ?thesis
      by (auto simp: submit_def q1_def [symmetric] Let_def queue_inv_def dict_simps reg_add_def)
  qed
qed

lemma take_ok:
  assumes inv: "queue_inv q" and ready: "take_ready name i q"
  obtains request q' L jid rest rec where
    "take_job name i q = Inr (request, q')" and "queue_inv q'"
    and "map_of (lanes q) name = Some L" and "pending L = jid # rest" and "distinct (jid # rest)"
    and "map_of (registry_of q) jid = Some rec" and "rec_state rec = QUEUED"
    and "queue_position rec = Some 1"
    and "\<And>k. k < length rest \<Longrightarrow> \<exists>r. map_of (registry_of q) (rest ! k) = Some r \<and>
      rec_state r = QUEUED \<and> queue_position r = Some (Suc (Suc k))"
    and "registry_of q' = AList.update jid (rec\<lparr>rec_state := RUNNING, queue_position := None\<rparr>)
      (reindex_from (Suc 0) rest (registry_of q))"
    and "lanes q' = AList.update name (set_worker i (Executing jid None)
      (L\<lparr>lane_queue := rest, pending := rest\<rparr>)) (lanes q)"
    and "map_of (requests q) jid = Some request"
proof -
  note core = queue_invD [OF inv]
  obtain L where L: "map_of (lanes q) name = Some L" and i: "i < length (workers L)"
    and w: "workers L ! i = Waiting" and ne: "lane_queue L \<noteq> []"
    using ready by (auto simp: take_ready_def split: option.splits)
  have ok: "lane_ok (max_concurrent_runs_per_lane q) (max_depth_per_lane q)
      (map_of (registry_of q)) name L" by (rule core_laneD [OF core L])
  with i ne obtain jid rest where que: "lane_queue L = jid # rest" and pend: "pending L = jid # rest"
    by (cases "lane_queue L") (auto simp: lane_ok_def)
  have dist: "distinct (jid # rest)" using ok pend by (simp add: lane_ok_def)
  obtain rec where rec: "map_of (registry_of q) jid = Some rec" "rec_state rec = QUEUED"
    using lane_ok_pending [OF ok, of jid] pend by auto
  obtain request where req: "map_of (requests q) jid = Some request"
    using core_recordD [OF core rec(1)] rec(2) by (auto simp: record_ok_def placed_def)
  let ?r1 = "reindex_from (Suc 0) rest (registry_of q)"
  let ?rec' = "rec\<lparr>rec_state := RUNNING, queue_position := None\<rparr>"
  let ?L' = "set_worker i (Executing jid None) (L\<lparr>lane_queue := rest, pending := rest\<rparr>)"
  let ?q' = "q\<lparr>lanes := AList.update name ?L' (lanes q),
    registry_of := AList.update jid ?rec' ?r1, requests := AList.delete jid (requests q)\<rparr>"
  have r1: "map_of ?r1 jid = Some rec" using dist rec by (simp add: reindex_other)
  have take: "take_job name i q = Inr (request, ?q')"
    by (simp add: take_job_def L que pend Let_def reg_amend_def r1 req)
  have "core_inv (max_concurrent_runs_per_lane q) (max_depth_per_lane q)
      ((map_of (lanes q))(name \<mapsto> ?L')) ((map_of ?r1)(jid \<mapsto> ?rec'))
      ((map_of (requests q))(jid := None)) (map_of (streams q)) (eviction_id ` set (evictions q))"
  proof (rule core_take [OF core L i w pend que])
    show "dom ((map_of ?r1)(jid \<mapsto> ?rec')) = dom (map_of (registry_of q))"
      using rec(1) by (auto simp: dom_reindex)
    show "((map_of ?r1)(jid \<mapsto> ?rec')) (rest ! n) = Some (r\<lparr>queue_position := Some (Suc n)\<rparr>)"
      if "n < length rest" "map_of (registry_of q) (rest ! n) = Some r" "rec_state r = QUEUED" for n r
      using that dist reindex_nth [of rest n "registry_of q" r "Suc 0"] by (auto dest: nth_mem)
  qed (use dist rec in \<open>auto simp: reindex_other\<close>)
  then have "queue_inv ?q'"
    using inv by (auto simp: queue_inv_def dict_simps wf_reindex)
  moreover have "queue_position rec = Some 1"
    using ok pend rec(1) by (force simp: lane_ok_def)
  moreover have "\<exists>r. map_of (registry_of q) (rest ! k) = Some r \<and>
      rec_state r = QUEUED \<and> queue_position r = Some (Suc (Suc k))" if "k < length rest" for k
    using ok that by (auto simp: lane_ok_def pend dest!: spec [of _ "Suc k"])
  ultimately show ?thesis
    using that [OF take _ L pend dist rec _ _ _ _ req] by simp
qed

lemma executingD:
  assumes "executing name i q = Some (jid, out)"
  obtains L where "map_of (lanes q) name = Some L" and "i < length (workers L)"
    and "workers L ! i = Executing jid out"
  using assms by (auto simp: executing_def split: option.splits if_splits worker.splits)

lemma executing_record:
  assumes inv: "queue_inv q" and ex: "executing name i q = Some (jid, out)"
  shows "\<exists>rec s. map_of (registry_of q) jid = Some rec \<and> rec_state rec = RUNNING \<and>
    rec_lane rec = name \<and> map_of (streams q) jid = Some s"
proof -
  note core = queue_invD [OF inv]
  obtain L where L: "map_of (lanes q) name = Some L" and i: "i < length (workers L)"
    and w: "workers L ! i = Executing jid out" by (rule executingD [OF ex])
  have "jid \<in> set (held_ids (workers L))"
    using i w nth_mem [OF i] by (auto simp: held_ids_def intro!: bexI [of _ "workers L ! i"])
  from lane_ok_held [OF core_laneD [OF core L] this] core_streamD [OF core] show ?thesis
    by blast
qed

lemma queue_inv_touch:
  assumes inv: "queue_inv q" and "map_of (registry_of q) jid = Some rec"
    and "map_of (streams q) jid = Some s" and "same_view rec rec'" and "st_closed s' = st_closed s"
  shows "queue_inv (q\<lparr>registry_of := AList.update jid rec' (registry_of q),
    streams := AList.update jid s' (streams q)\<rparr>)"
  using inv core_touch [OF queue_invD [OF inv] assms(2-5)]
  by (auto simp: queue_inv_def dict_simps)

lemma update_same: "map_of d k = Some v \<Longrightarrow> AList.update k v d = d"
  by (induction d) auto

lemma queue_inv_touch_stream:
  assumes inv: "queue_inv q" and s: "map_of (streams q) jid = Some s"
    and closed: "st_closed s' = st_closed s"
  shows "queue_inv (q\<lparr>streams := AList.update jid s' (streams q)\<rparr>)"
proof -
  have "dom (map_of (streams q)) = dom (map_of (registry_of q))"
    using queue_invD [OF inv] by (simp add: core_inv_def)
  with s obtain rec where rec: "map_of (registry_of q) jid = Some rec" by blast
  have "queue_inv (q\<lparr>registry_of := AList.update jid rec (registry_of q),
      streams := AList.update jid s' (streams q)\<rparr>)"
    by (rule queue_inv_touch [OF inv rec s _ closed]) (simp add: same_view_def)
  then show ?thesis by (simp add: update_same [OF rec])
qed

text \<open>Publishing, when the job has a record and a stream, cannot fail and keeps the worker.\<close>

lemma publish_ok:
  assumes inv: "queue_inv q" and rec: "map_of (registry_of q) jid = Some rec"
    and s: "map_of (streams q) jid = Some s"
  shows "\<exists>q'. publish_event jid ev q = Inr q' \<and> queue_inv q' \<and> lanes q' = lanes q \<and>
    (\<exists>rec'. map_of (registry_of q') = (map_of (registry_of q))(jid \<mapsto> rec') \<and> same_view rec rec') \<and>
    map_of (streams q') = (map_of (streams q))(jid \<mapsto> snd (stream_publish s ev)) \<and>
    evictions q' = evictions q"
proof -
  let ?s' = "snd (stream_publish s ev)"
  have closed: "st_closed ?s' = st_closed s" by (simp add: stream_publish_def)
  let ?qs = "q\<lparr>streams := AList.update jid ?s' (streams q)\<rparr>"
  let ?rec' = "rec\<lparr>truncated := True\<rparr>"
  let ?qr = "q\<lparr>registry_of := AList.update jid ?rec' (registry_of q),
    streams := AList.update jid ?s' (streams q)\<rparr>"
  have qs: "queue_inv ?qs" by (rule queue_inv_touch_stream [OF inv s closed])
  have qr: "queue_inv ?qr"
    by (rule queue_inv_touch [OF inv rec s _ closed]) (simp add: same_view_def)
  consider (plain) "publish_event jid ev q = Inr ?qs" | (trunc) "publish_event jid ev q = Inr ?qr"
  proof -
    obtain d s1 where sp: "stream_publish s ev = (d, s1)" by force
    then have "publish_event jid ev q = (if d \<and> \<not> truncated rec then Inr ?qr else Inr ?qs)"
      using rec s by (cases "truncated rec") (simp_all add: publish_event_def Let_def reg_get_def reg_amend_def)
    then show thesis using plain trunc by metis
  qed
  then show ?thesis
  proof cases
    case plain
    have "map_of (registry_of ?qs) = (map_of (registry_of q))(jid \<mapsto> rec)"
      using rec by auto
    moreover have "same_view rec rec" by (simp add: same_view_def)
    ultimately show ?thesis using plain qs by (auto simp: dict_simps)
  next
    case trunc
    moreover have "same_view rec ?rec'" by (simp add: same_view_def)
    ultimately show ?thesis
      using qr by (intro exI [of _ ?qr]) (auto simp: dict_simps)
  qed
qed

lemma queue_inv_put_worker:
  assumes inv: "queue_inv q" and L: "map_of (lanes q) name = Some L"
    and i: "i < length (workers L)" and h: "held w = held (workers L ! i)"
  shows "queue_inv (put_worker name i w q)"
  using inv core_same_held [OF queue_invD [OF inv] L i h]
  by (simp add: queue_inv_def put_worker_def L dict_simps)

lemma queue_inv_event:
  assumes inv: "queue_inv q"
  shows "\<exists>q'. engine_event name i ev q = Inr q' \<and> queue_inv q'"
proof (cases "executing name i q")
  case None
  with inv show ?thesis by (simp add: engine_event_def)
next
  case (Some jo)
  obtain jid out where jo: "jo = (jid, out)" by force
  with Some obtain L where L: "map_of (lanes q) name = Some L" "i < length (workers L)"
    "workers L ! i = Executing jid out" by (auto elim: executingD)
  obtain rec s where "map_of (registry_of q) jid = Some rec" "map_of (streams q) jid = Some s"
    using executing_record [OF inv] Some jo by blast
  from publish_ok [OF inv this] obtain q1 where
    q1: "publish_event jid ev q = Inr q1" "queue_inv q1" "lanes q1 = lanes q" by blast
  have "queue_inv (put_worker name i (Executing jid (terminal_outcome ev out)) q1)"
    using L q1(3) by (intro queue_inv_put_worker [OF q1(2), of name L]) simp_all
  with Some jo q1 show ?thesis by (simp add: engine_event_def)
qed

lemma queue_inv_cancelled: "queue_inv q \<Longrightarrow> queue_inv (engine_cancelled name i q)"
  unfolding engine_cancelled_def
  by (auto split: option.splits elim!: executingD intro!: queue_inv_put_worker)

lemma finish_ok:
  assumes inv: "queue_inv q" and L: "map_of (lanes q) name = Some L"
    and i: "i < length (workers L)" and w: "workers L ! i = Executing jid out0"
    and rec: "map_of (registry_of q) jid = Some rec" and s: "map_of (streams q) jid = Some s"
  shows "\<exists>q'. finish_job jid out q = Inr q' \<and> queue_inv (put_worker name i Waiting q')"
proof -
  let ?rec' = "rec\<lparr>rec_state := TERMINAL, queue_position := None, rec_outcome := out\<rparr>"
  let ?q' = "q\<lparr>registry_of := AList.update jid ?rec' (registry_of q),
    streams := AList.update jid (stream_close s) (streams q),
    evictions := evictions q @ [DropBuffer jid, DropRecord jid]\<rparr>"
  have fin: "finish_job jid out q = Inr ?q'"
    by (simp add: finish_job_def reg_amend_def rec s)
  have "rec_job_id rec = jid"
    using core_recordD [OF queue_invD [OF inv] rec] by (simp add: record_ok_def)
  then have "core_inv (max_concurrent_runs_per_lane q) (max_depth_per_lane q)
      ((map_of (lanes q))(name \<mapsto> set_worker i Waiting L)) ((map_of (registry_of q))(jid \<mapsto> ?rec'))
      (map_of (requests q)) ((map_of (streams q))(jid \<mapsto> stream_close s))
      (insert jid (eviction_id ` set (evictions q)))"
    by (intro core_finish [OF queue_invD [OF inv] L i _ s]) (simp_all add: w)
  then have "queue_inv (put_worker name i Waiting ?q')"
    using inv by (simp add: queue_inv_def put_worker_def L dict_simps)
  with fin show ?thesis by blast
qed

lemma queue_inv_end:
  assumes inv: "queue_inv q"
  shows "\<exists>q'. engine_end name i q = Inr q' \<and> queue_inv q'"
proof (cases "executing name i q")
  case None
  with inv show ?thesis by (simp add: engine_end_def)
next
  case (Some jo)
  obtain jid out where jo: "jo = (jid, out)" by force
  with Some obtain L where L: "map_of (lanes q) name = Some L" "i < length (workers L)"
    "workers L ! i = Executing jid out" by (auto elim: executingD)
  obtain rec s where "map_of (registry_of q) jid = Some rec" "map_of (streams q) jid = Some s"
    using executing_record [OF inv] Some jo by blast
  from finish_ok [OF inv L this, of out] Some jo show ?thesis
    by (auto simp: engine_end_def)
qed

lemma queue_inv_raise:
  assumes inv: "queue_inv q"
  shows "\<exists>q'. engine_raise name i kind expired q = Inr q' \<and> queue_inv q'"
proof (cases "executing name i q")
  case None
  with inv show ?thesis by (simp add: engine_raise_def)
next
  case (Some jo)
  obtain jid out where jo: "jo = (jid, out)" by force
  with Some obtain L where L: "map_of (lanes q) name = Some L" "i < length (workers L)"
    "workers L ! i = Executing jid out" by (auto elim: executingD)
  let ?ev = "ErrorEvent (if expired then ''TimeoutError'' else kind)"
  obtain rec s where rec: "map_of (registry_of q) jid = Some rec"
    and s: "map_of (streams q) jid = Some s"
    using executing_record [OF inv] Some jo by blast
  from publish_ok [OF inv this, of ?ev] obtain q1 rec1 where
    q1: "publish_event jid ?ev q = Inr q1" "queue_inv q1" "lanes q1 = lanes q"
    "map_of (registry_of q1) jid = Some rec1"
    "map_of (streams q1) jid = Some (snd (stream_publish s ?ev))" by auto
  from L q1(3) have L1: "map_of (lanes q1) name = Some L" by simp
  from finish_ok [OF q1(2) L1 L(2,3) q1(4,5), of "Some (if expired then job_timed_out else engine_error)"]
    Some jo q1(1) show ?thesis
    by (auto simp: engine_raise_def simp del: if_image_distrib)
qed

lemma queue_inv_evictions_mono:
  "queue_inv q \<Longrightarrow> set es \<subseteq> set (evictions q) \<Longrightarrow> queue_inv (q\<lparr>evictions := es\<rparr>)"
  unfolding queue_inv_def by (auto intro: core_evictions_mono)

lemma queue_inv_drop_buffer:
  assumes inv0: "queue_inv q0"
  shows "\<exists>q'. drop_buffer jid q0 = Inr q' \<and> queue_inv q'"
proof -
  define q where "q = q0\<lparr>evictions := remove1 (DropBuffer jid) (evictions q0)\<rparr>"
  have inv: "queue_inv q"
    unfolding q_def by (rule queue_inv_evictions_mono [OF inv0]) (rule set_remove1_subset)
  have fr: "registry_of q = registry_of q0" "streams q = streams q0" by (simp_all add: q_def)
  show ?thesis
  proof (cases "map_of (streams q) jid")
    case None
    with inv show ?thesis by (simp add: drop_buffer_def q_def [symmetric])
  next
    case (Some s)
    let ?s' = "s\<lparr>st_buffer := []\<rparr>"
    have dom: "dom (map_of (streams q)) = dom (map_of (registry_of q))"
      using queue_invD [OF inv] by (simp add: core_inv_def)
    with Some obtain rec where rec: "map_of (registry_of q) jid = Some rec" by blast
    have qs: "queue_inv (q\<lparr>streams := AList.update jid ?s' (streams q)\<rparr>)"
      by (rule queue_inv_touch_stream [OF inv Some]) simp
    have qr: "queue_inv (q\<lparr>registry_of := AList.update jid (rec\<lparr>truncated := True\<rparr>) (registry_of q),
        streams := AList.update jid ?s' (streams q)\<rparr>)"
      by (rule queue_inv_touch [OF inv rec Some]) (simp_all add: same_view_def)
    from qr have "queue_inv (q\<lparr>streams := AList.update jid ?s' (streams q),
        registry_of := AList.update jid (rec\<lparr>truncated := True\<rparr>) (registry_of q)\<rparr>)"
      by (simp add: queue_inv_def)
    with qs Some rec show ?thesis
      by (cases "st_buffer s = []"; cases "truncated rec")
        (simp_all add: drop_buffer_def q_def [symmetric] stream_discard_buffer_def
          reg_get_def reg_amend_def)
  qed
qed

lemma queue_inv_drop_record:
  assumes inv: "queue_inv q" and "DropRecord jid \<in> set (evictions q)"
  shows "queue_inv (drop_record jid q)"
proof -
  have "jid \<in> eviction_id ` set (evictions q)" using assms(2) by force
  moreover have "eviction_id ` set (remove1 (DropRecord jid) (evictions q)) \<subseteq>
      eviction_id ` set (evictions q)"
    using set_remove1_subset by fast
  ultimately have "core_inv (max_concurrent_runs_per_lane q) (max_depth_per_lane q)
      (map_of (lanes q)) ((map_of (registry_of q))(jid := None)) (map_of (requests q))
      ((map_of (streams q))(jid := None))
      (eviction_id ` set (remove1 (DropRecord jid) (evictions q)))"
    by (rule core_forget [OF queue_invD [OF inv]])
  with inv show ?thesis
    by (simp add: queue_inv_def drop_record_def reg_forget_def dict_simps)
qed

lemma queue_inv_read: "queue_inv q \<Longrightarrow> queue_inv (read_stream jid new rd q)"
  by (auto simp: read_stream_def split: option.splits intro!: queue_inv_touch_stream)

lemma open_ids:
  assumes inv: "queue_inv q"
  shows "distinct (map rec_job_id (reg_open (registry_of q)))"
    and "set (map rec_job_id (reg_open (registry_of q))) =
      {k. \<exists>rec. map_of (registry_of q) k = Some rec \<and> rec_state rec \<noteq> TERMINAL}"
proof -
  have wf: "wf_dict (registry_of q)" using inv by (simp add: queue_inv_def)
  have key: "rec_job_id v = k" if "(k, v) \<in> set (registry_of q)" for k v
    using that core_recordD [OF queue_invD [OF inv], of k v] wf by (simp add: record_ok_def)
  have "map rec_job_id (dict_values (registry_of q)) = dict_keys (registry_of q)"
    using key by (auto simp: comp_def)
  with wf show "distinct (map rec_job_id (reg_open (registry_of q)))"
    unfolding reg_open_def by (intro distinct_map_filter) (simp only:)
  show "set (map rec_job_id (reg_open (registry_of q))) =
      {k. \<exists>rec. map_of (registry_of q) k = Some rec \<and> rec_state rec \<noteq> TERMINAL}"
    using wf key by (force simp: reg_open_def image_iff)
qed

lemma stop_ok:
  assumes inv: "queue_inv q"
  shows "\<exists>q'. stop q = Inr q' \<and> queue_inv q' \<and> accepting q' = False \<and> evictions q' = [] \<and>
    map_of (registry_of q') = (\<lambda>k. map_option
      (\<lambda>rec. if rec_state rec = TERMINAL then rec else abandon rec) (map_of (registry_of q) k)) \<and>
    map_of (lanes q') =
      (\<lambda>n. map_option (\<lambda>l. l\<lparr>workers := [], pending := []\<rparr>) (map_of (lanes q) n))"
proof -
  let ?jids = "map rec_job_id (reg_open (registry_of q))"
  let ?lanes = "map (\<lambda>(name, l). (name, l\<lparr>workers := [], pending := []\<rparr>)) (lanes q)"
  note ids = open_ids [OF inv]
  have sub: "set ?jids \<subseteq> dom (map_of (registry_of q))" unfolding ids(2) by auto
  have wfs: "wf_dict (registry_of q)" "wf_dict (streams q)"
    using inv by (simp_all add: queue_inv_def)
  obtain r' ss' where run: "abandon_all ?jids (registry_of q, streams q) = Inr (r', ss')"
    and wf: "wf_dict r'" "wf_dict ss'"
    and r': "map_of r' = (\<lambda>k. if k \<in> set ?jids then map_option abandon (map_of (registry_of q) k)
      else map_of (registry_of q) k)"
    and ss': "map_of ss' = (\<lambda>k. if k \<in> set ?jids then map_option stream_close (map_of (streams q) k)
      else map_of (streams q) k)"
    using abandon_all_ok [OF ids(1) sub, of "streams q"] wfs by blast
  let ?q' = "q\<lparr>accepting := False, evictions := [], lanes := ?lanes, registry_of := r', streams := ss'\<rparr>"
  have stop: "stop q = Inr ?q'" by (simp add: stop_def run)
  have R': "map_of r' k = map_option (\<lambda>rec. if rec_state rec = TERMINAL then rec else abandon rec)
      (map_of (registry_of q) k)" for k
    unfolding r' ids(2) by (cases "map_of (registry_of q) k") auto
  have S': "map_of ss' k = map_option (if rec_state rec = TERMINAL then id else stream_close)
      (map_of (streams q) k)" if "map_of (registry_of q) k = Some rec" for k rec
    unfolding ss' ids(2) using that by (auto simp: option.map_id)
  have doms: "dom (map_of ss') = dom (map_of (streams q))"
    by (auto simp: ss' split: if_splits)
  have Ln': "map_of ?lanes n = map_option (\<lambda>l. l\<lparr>workers := [], pending := []\<rparr>) (map_of (lanes q) n)" for n
    by (rule map_of_map [THEN fun_cong, simplified comp_def])
  have keys: "dict_keys ?lanes = dict_keys (lanes q)" by (induction "lanes q") auto
  have "core_inv (max_concurrent_runs_per_lane q) (max_depth_per_lane q)
      (map_of ?lanes) (map_of r') (map_of (requests q)) (map_of ss') {}"
    by (rule core_stop [OF queue_invD [OF inv] R' S' doms Ln'])
  then have "queue_inv ?q'"
    using inv wf by (simp add: queue_inv_def keys del: map_map)
  with stop R' Ln' show ?thesis by (intro exI [of _ ?q'] conjI ext) simp_all
qed

lemma queue_inv_step: "queue_step q q' \<Longrightarrow> queue_inv q \<Longrightarrow> queue_inv q'"
proof (induction rule: queue_step.induct)
  case (Submit jid q name now request res q')
  show ?case by (rule queue_inv_submit [OF Submit.prems Submit.hyps])
next
  case (Take name i q request q')
  obtain request0 q0 where "take_job name i q = Inr (request0, q0)" and "queue_inv q0"
    by (rule take_ok [OF Take.prems Take.hyps(1)]) (rule that, assumption+)
  with Take.hyps(2) show ?case by simp
next
  case (Event name i ev q q')
  with queue_inv_event [of q name i ev] show ?case by auto
next
  case (End name i q q')
  with queue_inv_end [of q name i] show ?case by auto
next
  case (Raise expired q name i kind q')
  with queue_inv_raise [of q name i kind expired] show ?case by auto
next
  case (EvictBuffer jid q q')
  with queue_inv_drop_buffer [of q jid] show ?case by auto
next
  case (Shutdown q q')
  with stop_ok [of q] show ?case by auto
qed (auto intro: queue_inv_start queue_inv_submit queue_inv_cancelled queue_inv_drop_record
    queue_inv_read)

lemma reachable_inv: "queue_reachable conc depth limit cap q \<Longrightarrow> queue_inv q"
  by (induction rule: queue_reachable.induct) (auto intro: queue_inv_init queue_inv_step)

end
