(* ===== verification/JobQueueLife.thy ===== *)
theory JobQueueLife
  imports JobQueueInv
begin

section \<open>The life of a job record, and what the queue promises\<close>

text \<open>
  A record only moves forward (queued, running, terminal) and keeps its identity; then the
  properties of the queue as theorems over its reachable states.
\<close>

subsection \<open>A record only moves forward\<close>

definition record_le :: "job_record \<Rightarrow> job_record \<Rightarrow> bool" where
  "record_le rec rec' \<longleftrightarrow>
     rec_job_id rec' = rec_job_id rec \<and> rec_lane rec' = rec_lane rec \<and>
     submitted_at rec' = submitted_at rec \<and> rec_scope rec' = rec_scope rec \<and>
     rec_state rec \<le> rec_state rec' \<and> (truncated rec \<longrightarrow> truncated rec') \<and>
     (rec_state rec = TERMINAL \<longrightarrow> rec_outcome rec' = rec_outcome rec)"

definition registry_le ::
  "(string \<rightharpoonup> job_record) \<Rightarrow> (string \<rightharpoonup> job_record) \<Rightarrow> bool" where
  "registry_le R R' \<longleftrightarrow>
     (\<forall>jid rec rec'. R jid = Some rec \<longrightarrow> R' jid = Some rec' \<longrightarrow> record_le rec rec')"

lemma record_le_refl [simp]: "record_le rec rec"
  by (simp add: record_le_def)

lemma registry_le_refl [simp]: "registry_le R R"
  by (simp add: registry_le_def)

lemma same_view_le: "same_view rec rec' \<Longrightarrow> record_le rec rec'"
  by (auto simp: same_view_def record_le_def)

lemma registry_le_upd:
  "(\<And>rec. R jid = Some rec \<Longrightarrow> record_le rec rec') \<Longrightarrow> registry_le R (R(jid \<mapsto> rec'))"
  by (simp add: registry_le_def)

lemma registry_le_upd_at:
  "R jid = Some rec \<Longrightarrow> record_le rec rec' \<Longrightarrow> registry_le R (R(jid \<mapsto> rec'))"
  by (simp add: registry_le_def)

lemma put_worker_registry [simp]: "registry_of (put_worker name i w q) = registry_of q"
  by (simp add: put_worker_def)

lemma registry_le_take:
  assumes inv: "queue_inv q" and ready: "take_ready name i q"
    and take: "take_job name i q = Inr (request, q')"
  shows "registry_le (map_of (registry_of q)) (map_of (registry_of q'))"
proof -
  obtain request0 q0 L jid rest rec where t0: "take_job name i q = Inr (request0, q0)"
    and pend: "map_of (lanes q) name = Some L" "pending L = jid # rest"
    and dist: "distinct (jid # rest)" and rec: "map_of (registry_of q) jid = Some rec" "rec_state rec = QUEUED"
    and pos: "\<And>k. k < length rest \<Longrightarrow> \<exists>r. map_of (registry_of q) (rest ! k) = Some r \<and>
      rec_state r = QUEUED \<and> queue_position r = Some (Suc (Suc k))"
    and r0: "registry_of q0 = AList.update jid (rec\<lparr>rec_state := RUNNING, queue_position := None\<rparr>)
      (reindex_from (Suc 0) rest (registry_of q))"
    by (rule take_ok [OF inv ready]) (rule that, assumption+)
  from t0 take have [simp]: "q' = q0" by simp
  let ?r1 = "reindex_from (Suc 0) rest (registry_of q)"
  have R': "map_of (registry_of q') =
      (map_of ?r1)(jid \<mapsto> rec\<lparr>rec_state := RUNNING, queue_position := None\<rparr>)"
    by (simp add: r0 dict_simps)
  have le: "record_le r r'" if "map_of (registry_of q) k = Some r" "map_of ?r1 k = Some r'" for k r r'
  proof (cases "k \<in> set rest")
    case False
    with that show ?thesis by (simp add: reindex_other)
  next
    case True
    then obtain n where n: "n < length rest" "k = rest ! n" by (auto simp: in_set_conv_nth)
    have "rec_state r = QUEUED" using pos [OF n(1)] n(2) that(1) by auto
    with n that dist reindex_nth [of rest n "registry_of q" r "Suc 0"] show ?thesis
      by (auto simp: record_le_def)
  qed
  have head: "record_le rec (rec\<lparr>rec_state := RUNNING, queue_position := None\<rparr>)"
    using rec(2) by (simp add: record_le_def)
  show ?thesis
    unfolding registry_le_def
  proof (intro allI impI)
    fix k r r' assume k: "map_of (registry_of q) k = Some r" "map_of (registry_of q') k = Some r'"
    show "record_le r r'"
    proof (cases "k = jid")
      case True
      with k rec(1) have "r = rec" and "r' = rec\<lparr>rec_state := RUNNING, queue_position := None\<rparr>"
        by (simp_all only: R' fun_upd_same option.inject)
      with head show ?thesis by simp
    next
      case False
      with k show ?thesis by (intro le) (simp_all only: R' fun_upd_other not_False_eq_True)
    qed
  qed
qed

lemma registry_le_finish:
  assumes "finish_job jid out q = Inr q'"
    and "map_of (registry_of q) jid = Some rec" "rec_state rec = RUNNING"
  shows "registry_le (map_of (registry_of q)) (map_of (registry_of q'))"
  using assms
  by (auto simp: finish_job_def reg_amend_def dict_simps record_le_def split: option.splits
      intro!: registry_le_upd)

lemma registry_le_event:
  assumes inv: "queue_inv q" and ev: "engine_event name i ev q = Inr q'"
  shows "registry_le (map_of (registry_of q)) (map_of (registry_of q'))"
proof (cases "executing name i q")
  case None
  with ev show ?thesis by (simp add: engine_event_def)
next
  case (Some jo)
  obtain jid out where jo: "jo = (jid, out)" by force
  obtain rec s where rec: "map_of (registry_of q) jid = Some rec" "map_of (streams q) jid = Some s"
    using executing_record [OF inv] Some jo by blast
  from publish_ok [OF inv this, of ev] obtain q1 rec1 where
    q1: "publish_event jid ev q = Inr q1" "same_view rec rec1"
    "map_of (registry_of q1) = (map_of (registry_of q))(jid \<mapsto> rec1)" by blast
  then have "q' = put_worker name i (Executing jid (terminal_outcome ev out)) q1"
    using ev Some jo by (simp add: engine_event_def)
  with q1 rec(1) show ?thesis
    by (simp add: registry_le_upd_at same_view_le)
qed

lemma registry_le_end:
  assumes inv: "queue_inv q" and en: "engine_end name i q = Inr q'"
  shows "registry_le (map_of (registry_of q)) (map_of (registry_of q'))"
proof (cases "executing name i q")
  case None
  with en show ?thesis by (simp add: engine_end_def)
next
  case (Some jo)
  obtain jid out where jo: "jo = (jid, out)" by force
  with Some en obtain q1 where q1: "finish_job jid out q = Inr q1" "q' = put_worker name i Waiting q1"
    by (auto simp: engine_end_def result_simps)
  with executing_record [OF inv, of name i jid out] Some jo show ?thesis
    by (auto intro: registry_le_finish)
qed

lemma registry_le_raise:
  assumes inv: "queue_inv q" and ra: "engine_raise name i kind expired q = Inr q'"
  shows "registry_le (map_of (registry_of q)) (map_of (registry_of q'))"
proof (cases "executing name i q")
  case None
  with ra show ?thesis by (simp add: engine_raise_def)
next
  case (Some jo)
  obtain jid out where jo: "jo = (jid, out)" by force
  let ?ev = "ErrorEvent (if expired then ''TimeoutError'' else kind)"
  let ?out = "Some (if expired then job_timed_out else engine_error)"
  from Some ra jo obtain q1 q2 where q1: "publish_event jid ?ev q = Inr q1"
    and q2: "finish_job jid ?out q1 = Inr q2" "q' = put_worker name i Waiting q2"
    by (auto simp: engine_raise_def result_simps simp del: if_image_distrib)
  obtain rec s where rec: "map_of (registry_of q) jid = Some rec" "rec_state rec = RUNNING"
    "map_of (streams q) jid = Some s"
    using executing_record [OF inv] Some jo by blast
  from publish_ok [OF inv rec(1,3), of ?ev] q1 obtain rec1 where
    r1: "map_of (registry_of q1) = (map_of (registry_of q))(jid \<mapsto> rec1)" "same_view rec rec1"
    by auto
  from q2(1) obtain rec2 where r2: "map_of (registry_of q2) = (map_of (registry_of q1))(jid \<mapsto> rec2)"
    "rec2 = rec1\<lparr>rec_state := TERMINAL, queue_position := None, rec_outcome := ?out\<rparr>"
    using r1 by (auto simp: finish_job_def reg_amend_def dict_simps split: option.splits
        simp del: if_image_distrib)
  have "record_le rec rec2"
    using same_view_le [OF r1(2)] rec(2) by (auto simp: r2(2) record_le_def)
  with r1 r2 q2(2) rec(1) show ?thesis
    by (auto simp: registry_le_def)
qed

lemma registry_le_drop_buffer:
  assumes "drop_buffer jid q = Inr q'"
  shows "registry_le (map_of (registry_of q)) (map_of (registry_of q'))"
  using assms
  by (auto simp: drop_buffer_def Let_def stream_discard_buffer_def reg_amend_def reg_get_def
      dict_simps same_view_def split: option.splits if_splits intro!: registry_le_upd same_view_le)

lemma registry_le_submit:
  assumes "jid \<notin> set (dict_keys (registry_of q))" and "submit name jid now request q = (res, q')"
  shows "registry_le (map_of (registry_of q)) (map_of (registry_of q'))"
proof -
  from assms(1) have "map_of (registry_of q) jid = None" by (simp only: dict_get_None not_False_eq_True)
  with assms(2) show ?thesis
    by (auto simp: submit_def Let_def reg_add_def dict_simps split: if_splits
        intro!: registry_le_upd)
qed

lemma registry_le_step:
  assumes "queue_step q q'" and inv: "queue_inv q"
  shows "registry_le (map_of (registry_of q)) (map_of (registry_of q'))"
  using assms(1)
proof (cases rule: queue_step.cases)
  case (Shutdown)
  with stop_ok [OF inv] show ?thesis
    by (auto simp: registry_le_def record_le_def abandon_def)
next
  case (EvictRecord jid)
  then show ?thesis
    by (auto simp: drop_record_def reg_forget_def dict_simps registry_le_def split: if_splits)
next
  case (Read jid new rd)
  then show ?thesis by (simp add: read_stream_def split: option.splits)
next
  case (Cancel name i)
  then show ?thesis by (auto simp: engine_cancelled_def split: option.splits)
next
  case Start
  then show ?thesis by (simp add: start_def)
next
  case (Take name i request)
  with inv show ?thesis by (blast intro: registry_le_take)
next
  case (Event name i ev)
  with inv show ?thesis by (blast intro: registry_le_event)
next
  case (End name i)
  with inv show ?thesis by (blast intro: registry_le_end)
next
  case (Raise expired name i kind)
  with inv show ?thesis by (blast intro: registry_le_raise)
next
  case (EvictBuffer jid)
  then show ?thesis by (blast intro: registry_le_drop_buffer)
next
  case (Submit jid name now request res)
  then show ?thesis by (blast intro: registry_le_submit)
qed

subsection \<open>The configuration is fixed\<close>

definition same_config :: "'req job_queue \<Rightarrow> 'req job_queue \<Rightarrow> bool" where
  "same_config q q' \<longleftrightarrow>
     max_concurrent_runs_per_lane q' = max_concurrent_runs_per_lane q \<and>
     max_depth_per_lane q' = max_depth_per_lane q \<and>
     event_buffer_capacity q' = event_buffer_capacity q \<and>
     run_timeout_seconds q' = run_timeout_seconds q"

lemma same_config_refl [simp]: "same_config q q"
  by (simp add: same_config_def)

lemma put_worker_config [simp]: "same_config q (put_worker name i w q') \<longleftrightarrow> same_config q q'"
  by (simp add: same_config_def put_worker_def)

lemma same_config_trans: "same_config a b \<Longrightarrow> same_config b c \<Longrightarrow> same_config a c"
  by (simp add: same_config_def)

lemma publish_config: "publish_event jid ev q = Inr q' \<Longrightarrow> same_config q q'"
  by (auto simp: publish_event_def reg_amend_def reg_get_def Let_def same_config_def
      split: option.splits prod.splits if_splits)

lemma finish_config: "finish_job jid out q = Inr q' \<Longrightarrow> same_config q q'"
  by (auto simp: finish_job_def reg_amend_def same_config_def split: option.splits)

lemma submit_config: "submit name jid now request q = (res, q') \<Longrightarrow> same_config q q'"
  by (auto simp: submit_def Let_def same_config_def split: if_splits)

lemma take_config: "take_job name i q = Inr (request, q') \<Longrightarrow> same_config q q'"
  by (auto simp: take_job_def Let_def reg_amend_def same_config_def split: option.splits)

lemma event_config:
  assumes "engine_event name i ev q = Inr q'"
  shows "same_config q q'"
proof (cases "executing name i q")
  case None
  with assms show ?thesis by (simp add: engine_event_def)
next
  case (Some jo)
  with assms obtain q1 where "publish_event (fst jo) ev q = Inr q1"
    and "q' = put_worker name i (Executing (fst jo) (terminal_outcome ev (snd jo))) q1"
    by (auto simp: engine_event_def result_simps split: prod.splits)
  then show ?thesis by (simp add: publish_config)
qed

lemma end_config:
  assumes "engine_end name i q = Inr q'"
  shows "same_config q q'"
proof (cases "executing name i q")
  case None
  with assms show ?thesis by (simp add: engine_end_def)
next
  case (Some jo)
  with assms obtain q1 where "finish_job (fst jo) (snd jo) q = Inr q1"
    and "q' = put_worker name i Waiting q1"
    by (auto simp: engine_end_def result_simps split: prod.splits)
  then show ?thesis by (simp add: finish_config)
qed

lemma raise_config:
  assumes "engine_raise name i kind expired q = Inr q'"
  shows "same_config q q'"
proof (cases "executing name i q")
  case None
  with assms show ?thesis by (simp add: engine_raise_def)
next
  case (Some jo)
  with assms obtain q1 q2 where
    "publish_event (fst jo) (ErrorEvent (if expired then ''TimeoutError'' else kind)) q = Inr q1"
    and "finish_job (fst jo) (Some (if expired then job_timed_out else engine_error)) q1 = Inr q2"
    and "q' = put_worker name i Waiting q2"
    by (auto simp: engine_raise_def result_simps split: prod.splits simp del: if_image_distrib)
  then have "same_config q q1" and "same_config q1 q2" and "same_config q q' = same_config q q2"
    by (simp_all only: publish_config finish_config put_worker_config)
  then show ?thesis by (simp add: same_config_trans)
qed

lemma drop_buffer_config: "drop_buffer jid q = Inr q' \<Longrightarrow> same_config q q'"
  by (auto simp: drop_buffer_def Let_def reg_amend_def reg_get_def same_config_def
      split: option.splits prod.splits if_splits)

lemma stop_config: "stop q = Inr q' \<Longrightarrow> same_config q q'"
  by (auto simp: stop_def result_simps same_config_def split: prod.splits)

lemma queue_step_config: "queue_step q q' \<Longrightarrow> same_config q q'"
proof (induction rule: queue_step.induct)
  case (Cancel q name i)
  then show ?case by (auto simp: engine_cancelled_def same_config_def put_worker_def split: option.splits)
next
  case (Read q jid new rd)
  then show ?case by (auto simp: read_stream_def same_config_def split: option.splits)
next
  case (EvictRecord jid q)
  then show ?case by (simp add: drop_record_def same_config_def)
next
  case (Start q)
  then show ?case by (simp add: start_def same_config_def)
qed (rule submit_config take_config event_config end_config raise_config drop_buffer_config
    stop_config, assumption)+

lemma reachable_config:
  "queue_reachable conc depth limit cap q \<Longrightarrow>
     max_concurrent_runs_per_lane q = conc \<and> max_depth_per_lane q = depth"
  by (induction rule: queue_reachable.induct)
    (auto simp: new_queue_def same_config_def dest: queue_step_config)

lemma reachable_core:
  assumes "queue_reachable conc depth limit cap q"
  shows "core_inv conc depth (map_of (lanes q)) (map_of (registry_of q)) (map_of (requests q))
    (map_of (streams q)) (eviction_id ` set (evictions q))"
  using queue_invD [OF reachable_inv [OF assms]] reachable_config [OF assms] by simp

lemma reachable_lane:
  "queue_reachable conc depth limit cap q \<Longrightarrow> map_of (lanes q) name = Some L \<Longrightarrow>
     lane_ok conc depth (map_of (registry_of q)) name L"
  by (rule core_laneD [OF reachable_core])

lemma reachable_record:
  "queue_reachable conc depth limit cap q \<Longrightarrow> map_of (registry_of q) jid = Some rec \<Longrightarrow>
     record_ok (map_of (lanes q)) (map_of (requests q)) (map_of (streams q))
       (eviction_id ` set (evictions q)) jid rec"
  by (rule core_recordD [OF reachable_core])

lemma held_ids_length: "length (held_ids ws) \<le> length ws"
proof (induction ws)
  case Nil
  then show ?case by (simp add: held_ids_def)
next
  case (Cons w ws)
  have "length (held w) \<le> 1" by (cases w) simp_all
  with Cons show ?case by (simp add: held_ids_def)
qed

subsection \<open>A run of the queue, for the witnesses\<close>

text \<open>
  One lane with one worker, two submissions, a first run that completes, a record evicted, a
  second run that times out. Each state is computed by the operations themselves.
\<close>

definition demo_request :: "unit submission" where
  "demo_request = \<lparr>sub_scope = None, sub_payload = ()\<rparr>"

definition demo_start :: "unit job_queue" where
  "demo_start = start (new_queue 1 5 (Some 60) 2)"

definition demo_one :: "unit job_queue" where
  "demo_one = snd (submit DEFAULT_LANE ''a'' 0 demo_request demo_start)"

definition demo_two :: "unit job_queue" where
  "demo_two = snd (submit DEFAULT_LANE ''b'' 1 demo_request demo_one)"

definition ok_state :: "queue_error + 'q \<Rightarrow> 'q \<Rightarrow> 'q" where
  "ok_state r q = (case r of Inl e \<Rightarrow> q | Inr q' \<Rightarrow> q')"

definition demo_running :: "unit job_queue" where
  "demo_running = ok_state (map_sum id snd (take_job DEFAULT_LANE 0 demo_two)) demo_two"

definition demo_done :: "unit job_queue" where
  "demo_done = ok_state (engine_end DEFAULT_LANE 0 demo_running) demo_running"

lemmas demo_defs = demo_start_def demo_one_def demo_two_def demo_running_def demo_done_def
  demo_request_def ok_state_def

lemmas queue_ops = start_def new_queue_def ensure_lane_def submit_def queue_full_def Let_def
  reg_add_def reg_get_def reg_amend_def reg_open_def take_job_def set_worker_def engine_end_def
  executing_def finish_job_def put_worker_def stream_close_def put_all_def new_stream_def
  DEFAULT_LANE_def

lemma demo_start_reachable: "queue_reachable 1 5 (Some 60) 2 demo_start"
  unfolding demo_start_def by (rule Step [OF Init Start])

lemma demo_one_reachable: "queue_reachable 1 5 (Some 60) 2 demo_one"
proof (rule Step [OF demo_start_reachable Submit])
  show "submit DEFAULT_LANE ''a'' 0 demo_request demo_start =
      (fst (submit DEFAULT_LANE ''a'' 0 demo_request demo_start), demo_one)"
    by (simp add: demo_one_def)
qed (simp_all add: demo_start_def start_def new_queue_def)

lemma demo_two_reachable: "queue_reachable 1 5 (Some 60) 2 demo_two"
proof (rule Step [OF demo_one_reachable Submit])
  show "submit DEFAULT_LANE ''b'' 1 demo_request demo_one =
      (fst (submit DEFAULT_LANE ''b'' 1 demo_request demo_one), demo_two)"
    by (simp add: demo_two_def)
qed (simp_all add: demo_defs queue_ops)

lemma demo_take: "take_job DEFAULT_LANE 0 demo_two = Inr (demo_request, demo_running)"
  and demo_ready: "take_ready DEFAULT_LANE 0 demo_two"
  by (simp_all add: demo_defs queue_ops take_ready_def)

lemma demo_running_reachable: "queue_reachable 1 5 (Some 60) 2 demo_running"
  by (rule Step [OF demo_two_reachable Take [OF demo_ready demo_take]])

lemma demo_end: "engine_end DEFAULT_LANE 0 demo_running = Inr demo_done"
  by (simp add: demo_defs queue_ops)

lemma demo_done_reachable: "queue_reachable 1 5 (Some 60) 2 demo_done"
  by (rule Step [OF demo_running_reachable End [OF demo_end]])

end
