(* ===== verification/JobQueueSpec.thy ===== *)
theory JobQueueSpec
  imports JobQueueLife
begin

section \<open>What the job queue promises\<close>

text \<open>
  The properties of \<^verbatim>\<open>AsyncioJobQueue\<close> over every state its event loop can reach, and of the
  stream a client attaches to.
\<close>

text \<open>Claim C19. A step of the event loop only moves a job record forward: its lane, scope and
  submission time never change, its state never goes back, the truncation flag is never taken
  back, and a terminal record keeps the outcome it was given.\<close>

theorem job_record_lifecycle:
  assumes "queue_reachable conc depth limit cap q" and "queue_step q q'"
    and "reg_get (registry_of q) jid = Some rec" and "reg_get (registry_of q') jid = Some rec'"
  shows "rec_state rec \<le> rec_state rec' \<and> rec_lane rec' = rec_lane rec \<and>
    rec_scope rec' = rec_scope rec \<and> submitted_at rec' = submitted_at rec \<and>
    (truncated rec \<longrightarrow> truncated rec') \<and>
    (rec_state rec = TERMINAL \<longrightarrow>
       rec_state rec' = TERMINAL \<and> rec_outcome rec' = rec_outcome rec)"
proof -
  have "registry_le (map_of (registry_of q)) (map_of (registry_of q'))"
    by (rule registry_le_step [OF assms(2) reachable_inv [OF assms(1)]])
  then have "record_le rec rec'"
    using assms(3,4) by (simp add: registry_le_def reg_get_def)
  then show ?thesis by (auto simp: record_le_def)
qed

theorem job_record_lifecycle_witness:
  "\<exists>rec rec'. reg_get (registry_of demo_running) ''a'' = Some rec \<and> rec_state rec = RUNNING \<and>
     reg_get (registry_of demo_done) ''a'' = Some rec' \<and> rec_state rec \<le> rec_state rec'"
proof -
  obtain rec where r: "reg_get (registry_of demo_running) ''a'' = Some rec" "rec_state rec = RUNNING"
    by (simp add: demo_defs queue_ops)
  obtain rec' where r': "reg_get (registry_of demo_done) ''a'' = Some rec'"
    by (simp add: demo_defs queue_ops)
  from job_record_lifecycle [OF demo_running_reachable End [OF demo_end] r(1) r'] r r'
  show ?thesis by blast
qed

text \<open>Claim C14. No lane ever runs more jobs at once than its configured concurrency: the worker
  count is the only limit, and it is enough.\<close>

theorem running_jobs_bounded:
  assumes "queue_reachable conc depth limit cap q"
  shows "card {jid. \<exists>rec. reg_get (registry_of q) jid = Some rec \<and> rec_state rec = RUNNING \<and>
    rec_lane rec = name} \<le> conc"
    (is "card ?J \<le> conc")
proof (cases "map_of (lanes q) name")
  case None
  then have J: "?J = {}"
    using reachable_record [OF assms] by (fastforce simp: record_ok_def placed_def reg_get_def)
  show ?thesis unfolding J by simp
next
  case (Some L)
  have "?J \<subseteq> set (held_ids (workers L))"
    using reachable_record [OF assms] Some by (fastforce simp: record_ok_def placed_def reg_get_def)
  then have "card ?J \<le> length (held_ids (workers L))"
    by (meson List.finite_set card_length card_mono le_trans)
  also have "\<dots> \<le> length (workers L)" by (rule held_ids_length)
  also have "\<dots> \<le> conc" using reachable_lane [OF assms Some] by (simp add: lane_ok_def)
  finally show ?thesis .
qed

theorem running_jobs_bounded_witness:
  "card {jid. \<exists>rec. reg_get (registry_of demo_running) jid = Some rec \<and> rec_state rec = RUNNING \<and>
     rec_lane rec = DEFAULT_LANE} \<le> 1"
  by (rule running_jobs_bounded [OF demo_running_reachable])

text \<open>Claim C17. The queue positions a client reads are the arrival order: the jobs still queued on
  a lane are exactly those waiting in its arrival list, each once, and the \<open>k\<close>-th of them (from
  one) reports position \<open>k\<close>.\<close>

theorem queue_positions_exact:
  assumes "queue_reachable conc depth limit cap q" and "map_of (lanes q) name = Some L"
  shows "distinct (pending L) \<and>
    set (pending L) = {jid. \<exists>rec. reg_get (registry_of q) jid = Some rec \<and>
      rec_state rec = QUEUED \<and> rec_lane rec = name} \<and>
    map (\<lambda>jid. Option.bind (reg_get (registry_of q) jid) queue_position) (pending L) =
      map Some [1..<Suc (length (pending L))]"
proof -
  have ok: "lane_ok conc depth (map_of (registry_of q)) name L"
    by (rule reachable_lane [OF assms])
  then have dist: "distinct (pending L)" by (simp add: lane_ok_def)
  have elems: "set (pending L) = {jid. \<exists>rec. reg_get (registry_of q) jid = Some rec \<and>
      rec_state rec = QUEUED \<and> rec_lane rec = name}"
    using lane_ok_pending [OF ok] reachable_record [OF assms(1)] assms(2)
    by (fastforce simp: reg_get_def record_ok_def placed_def)
  have "map (\<lambda>jid. Option.bind (reg_get (registry_of q) jid) queue_position) (pending L) =
      map Some [1..<Suc (length (pending L))]"
  proof (rule nth_equalityI)
    fix k
    assume "k < length (map (\<lambda>jid. Option.bind (reg_get (registry_of q) jid) queue_position)
      (pending L))"
    then have k: "k < length (pending L)" by simp
    with ok obtain rec where "map_of (registry_of q) (pending L ! k) = Some rec"
      "queue_position rec = Some (Suc k)" by (auto simp: lane_ok_def)
    with k show "map (\<lambda>jid. Option.bind (reg_get (registry_of q) jid) queue_position) (pending L) ! k =
        map Some [1..<Suc (length (pending L))] ! k"
      by (simp add: reg_get_def del: upt_Suc)
  qed (simp del: upt_Suc)
  with dist elems show ?thesis by blast
qed

theorem queue_positions_exact_witness:
  "map (\<lambda>jid. Option.bind (reg_get (registry_of demo_two) jid) queue_position) [''a'', ''b''] =
     map Some [1..<Suc (length [''a'', ''b''])]"
proof -
  obtain L where L: "map_of (lanes demo_two) DEFAULT_LANE = Some L" and p: "pending L = [''a'', ''b'']"
    by (simp add: demo_defs queue_ops)
  from queue_positions_exact [OF demo_two_reachable L] show ?thesis by (simp only: p)
qed

text \<open>Claim C22. The event loop's internal lookups cannot fail: in every reachable state a waiting
  worker takes its job, an engine's event, its normal end and its exception are recorded, and
  buffer eviction and shutdown run through, none of them with a missing record, request or
  stream.\<close>

theorem queue_never_loses_a_key:
  assumes "queue_reachable conc depth limit cap q"
  shows "(take_ready name i q \<longrightarrow> is_ok (take_job name i q)) \<and>
    is_ok (engine_event name i ev q) \<and> is_ok (engine_end name i q) \<and>
    is_ok (engine_raise name i kind expired q) \<and> is_ok (drop_buffer jid q) \<and> is_ok (stop q)"
proof (intro conjI impI)
  have inv: "queue_inv q" by (rule reachable_inv [OF assms])
  show "is_ok (take_job name i q)" if "take_ready name i q"
    by (rule take_ok [OF inv that]) (simp only: is_ok.simps)
  show "is_ok (engine_event name i ev q)" using queue_inv_event [OF inv, of name i ev] by (auto simp: is_ok_iff)
  show "is_ok (engine_end name i q)" using queue_inv_end [OF inv, of name i] by (auto simp: is_ok_iff)
  show "is_ok (engine_raise name i kind expired q)"
    using queue_inv_raise [OF inv, of name i kind expired] by (auto simp: is_ok_iff)
  show "is_ok (drop_buffer jid q)" using queue_inv_drop_buffer [OF inv, of jid] by (auto simp: is_ok_iff)
  show "is_ok (stop q)" using stop_ok [OF inv] by (auto simp: is_ok_iff)
qed

theorem queue_never_loses_a_key_witness: "is_ok (take_job DEFAULT_LANE 0 demo_two)"
  using queue_never_loses_a_key [OF demo_two_reachable, of DEFAULT_LANE 0] demo_ready by blast

text \<open>A submission is refused exactly when the queue is not accepting or the lane is at its
  depth; a refusal registers nothing; an accepted job is queued behind every job already waiting
  on its lane and can be looked up and attached to at once.\<close>

lemma submit_refuses_exactly_at_capacity:
  assumes "submit name jid now request q = (res, q')"
    and "L = the (map_of (lanes (ensure_lane name q)) name)"
  shows "(if \<not> accepting q \<or> queue_full q L
    then res = Inl QueueFullError \<and> registry_of q' = registry_of q \<and> streams q' = streams q \<and>
         requests q' = requests q
    else \<exists>rec. res = Inr rec \<and> rec_job_id rec = jid \<and> rec_state rec = QUEUED \<and>
         queue_position rec = Some (length (pending L) + 1) \<and>
         reg_get (registry_of q') jid = Some rec \<and> attach jid q' = Inr Fresh \<and>
         map_of (requests q') jid = Some request \<and>
         (\<exists>L'. map_of (lanes q') name = Some L' \<and> pending L' = pending L @ [jid] \<and>
           lane_queue L' = lane_queue L @ [jid]))"
  using assms
  by (auto simp: submit_def Let_def queue_full_def reg_get_def reg_add_def attach_def dict_simps
      split: if_splits)

theorem submit_refuses_exactly_at_capacity_witness:
  "fst (submit DEFAULT_LANE ''c'' 2 demo_request (new_queue 1 5 None 2)) = Inl QueueFullError"
  using submit_refuses_exactly_at_capacity [of DEFAULT_LANE "''c''" 2 demo_request
      "new_queue 1 5 None 2" _ _ "the (map_of (lanes (ensure_lane DEFAULT_LANE
        (new_queue 1 5 None 2 :: unit job_queue))) DEFAULT_LANE)",
      OF surjective_pairing refl]
  by (simp add: new_queue_def)

text \<open>A worker takes the job at position one, the oldest on its lane; that job turns
  running with no position, every job still waiting moves up by exactly one, and no other record
  changes.\<close>

lemma take_is_first_in_first_out:
  assumes "queue_reachable conc depth limit cap q" and "take_ready name i q"
  shows "\<exists>request q' L jid rest rec. take_job name i q = Inr (request, q') \<and>
    map_of (lanes q) name = Some L \<and> pending L = jid # rest \<and>
    reg_get (registry_of q) jid = Some rec \<and> queue_position rec = Some 1 \<and>
    reg_get (registry_of q') jid = Some (rec\<lparr>rec_state := RUNNING, queue_position := None\<rparr>) \<and>
    map_of (requests q) jid = Some request \<and>
    (\<forall>k < length rest. \<exists>r. reg_get (registry_of q) (rest ! k) = Some r \<and>
       queue_position r = Some (k + 2) \<and>
       reg_get (registry_of q') (rest ! k) = Some (r\<lparr>queue_position := Some (k + 1)\<rparr>)) \<and>
    (\<forall>j. j \<notin> set (pending L) \<longrightarrow> reg_get (registry_of q') j = reg_get (registry_of q) j)"
proof (rule take_ok [OF reachable_inv [OF assms(1)] assms(2)])
  fix request q' L jid rest rec
  assume take: "take_job name i q = Inr (request, q')" "map_of (lanes q) name = Some L"
    "pending L = jid # rest" "map_of (registry_of q) jid = Some rec" "queue_position rec = Some 1"
    "map_of (requests q) jid = Some request"
    and dist: "distinct (jid # rest)"
    and pos: "\<And>k. k < length rest \<Longrightarrow> \<exists>r. map_of (registry_of q) (rest ! k) = Some r \<and>
      rec_state r = QUEUED \<and> queue_position r = Some (Suc (Suc k))"
    and reg: "registry_of q' = AList.update jid (rec\<lparr>rec_state := RUNNING, queue_position := None\<rparr>)
      (reindex_from (Suc 0) rest (registry_of q))"
  have moved: "\<exists>r. reg_get (registry_of q) (rest ! k) = Some r \<and> queue_position r = Some (k + 2) \<and>
      reg_get (registry_of q') (rest ! k) = Some (r\<lparr>queue_position := Some (k + 1)\<rparr>)"
    if "k < length rest" for k
    using pos [OF that] that dist nth_mem [OF that] reindex_nth [of rest k "registry_of q" _ "Suc 0"]
    by (force simp: reg_get_def reg dict_simps)
  have same: "reg_get (registry_of q') j = reg_get (registry_of q) j" if "j \<notin> set (jid # rest)" for j
    using that by (simp add: reg_get_def reg dict_simps reindex_other)
  have head: "reg_get (registry_of q') jid = Some (rec\<lparr>rec_state := RUNNING, queue_position := None\<rparr>)"
    by (simp add: reg_get_def reg dict_simps)
  show ?thesis
    using take moved same head
    by (intro exI [of _ request] exI [of _ q'] exI [of _ L] exI [of _ jid] exI [of _ rest]
        exI [of _ rec] conjI) (simp_all add: reg_get_def)
qed

text \<open>After a shutdown no job is open: every job that was queued or running is terminal
  with outcome \<open>shutdown_abandoned\<close>, every job that had finished keeps its record, every
  stream is closed, and no submission is accepted.\<close>

lemma stop_closes_every_job:
  assumes "queue_reachable conc depth limit cap q"
  shows "\<exists>q'. stop q = Inr q' \<and> \<not> accepting q' \<and> reg_open (registry_of q') = [] \<and>
    (\<forall>jid rec. reg_get (registry_of q) jid = Some rec \<longrightarrow>
       reg_get (registry_of q') jid =
         Some (if rec_state rec = TERMINAL then rec
               else rec\<lparr>rec_state := TERMINAL, queue_position := None,
                        rec_outcome := Some shutdown_abandoned\<rparr>) \<and>
       (\<exists>s. map_of (streams q') jid = Some s \<and> st_closed s))"
proof -
  obtain q' where stop: "stop q = Inr q'" "queue_inv q'" "accepting q' = False"
    and reg: "map_of (registry_of q') = (\<lambda>k. map_option
      (\<lambda>rec. if rec_state rec = TERMINAL then rec else abandon rec) (map_of (registry_of q) k))"
    using stop_ok [OF reachable_inv [OF assms]] by blast
  have terminal: "rec_state rec = TERMINAL" if "map_of (registry_of q') jid = Some rec" for jid rec
  proof -
    from that obtain r0 where "rec = (if rec_state r0 = TERMINAL then r0 else abandon r0)"
      by (auto simp: reg)
    then show ?thesis by (simp add: abandon_def)
  qed
  have "wf_dict (registry_of q')" using stop(2) by (simp add: queue_inv_def)
  with terminal have opened: "reg_open (registry_of q') = []"
    by (auto simp: reg_open_def filter_empty_conv)
  have rows: "reg_get (registry_of q') jid =
      Some (if rec_state rec = TERMINAL then rec
            else rec\<lparr>rec_state := TERMINAL, queue_position := None,
                     rec_outcome := Some shutdown_abandoned\<rparr>) \<and>
      (\<exists>s. map_of (streams q') jid = Some s \<and> st_closed s)"
    if "reg_get (registry_of q) jid = Some rec" for jid rec
  proof -
    have row: "map_of (registry_of q') jid =
        Some (if rec_state rec = TERMINAL then rec else abandon rec)"
      using that by (simp add: reg reg_get_def)
    with core_streamD [OF queue_invD [OF stop(2)] row] terminal [OF row] show ?thesis
      by (auto simp: reg_get_def abandon_def)
  qed
  from stop opened rows show ?thesis by blast
qed

theorem stop_closes_every_job_witness: "is_ok (stop demo_running)"
  using stop_closes_every_job [OF demo_running_reachable] by (auto simp: is_ok_iff)

text \<open>Claim C26. A client that attaches to an open job's stream is given the newest frames the replay
  buffer keeps and then every frame published until the close, in order, none lost, none
  repeated, whatever other readers do meanwhile; after the close it is given the rest and its
  iteration ends.\<close>

theorem attached_reader_receives_everything:
  assumes "list_all foreign_op xs" and "Close \<in> set xs"
    and "owed = last_n cap evs @ live_events xs" and "length owed < n"
  shows "\<exists>s'. stream_run (map Publish evs @ Pull # xs @ replicate n Pull) (new_stream cap, Fresh, []) =
    (s', Done, owed)"
proof -
  obtain s where pub: "stream_run (map Publish evs) (new_stream cap, Fresh, []) = (s, Fresh, [])"
    and s: "st_buffer s = last_n cap evs" "\<not> st_closed s" "st_subscribers s = []"
    using publish_run by blast
  obtain s1 r1 out1 where c1: "stream_run xs (stream_step Pull (s, Fresh, [])) = (s1, r1, out1)"
    by (cases "stream_run xs (stream_step Pull (s, Fresh, []))")
  have "reader_inv owed [] (s1, r1, out1)"
    using reader_inv_run [OF reader_inv_start [of s xs] assms(1)] s assms(3) c1 by simp
  moreover have "st_closed s1"
    using stream_run_closed [OF assms(2), of "stream_step Pull (s, Fresh, [])"] c1 by simp
  moreover obtain s' r' out' where
    c': "stream_run (replicate n Pull) (s1, r1, out1) = (s', r', out')"
    by (cases "stream_run (replicate n Pull) (s1, r1, out1)")
  ultimately have "r' = Done \<and> out' = owed"
    using assms(4) by (intro closed_drain [of owed s1 r1 out1 n s']) simp_all
  with c' c1 pub show ?thesis
    by (simp only: stream_run_append stream_run.simps) simp
qed

theorem attached_reader_receives_everything_witness:
  "\<exists>s'. stream_run (map Publish [1, 2, 3] @ Pull # [Publish 4, OtherPull 7 Fresh, Close] @
     replicate 4 Pull) (new_stream 2, Fresh, []) = (s', Done, [2, 3, 4 :: nat])"
  by (rule attached_reader_receives_everything [of "[Publish 4, OtherPull 7 Fresh, Close]"
      "[2, 3, 4]" 2 "[1, 2, 3]" 4]) (simp_all add: last_n_def)

text \<open>At every moment before that, what the reader has been given is a prefix of what it is
  owed: no frame is reordered, skipped or invented.\<close>

lemma attached_reader_is_in_order:
  assumes "list_all foreign_op xs" and "\<not> st_closed s"
    and "map_of (st_subscribers s) 0 = None"
    and "stream_run (Pull # xs) (s, Fresh, []) = (s', r', out)"
  shows "\<exists>rest. st_buffer s @ live_events xs = out @ rest"
proof -
  have "reader_inv (st_buffer s @ live_events xs) [] (stream_run xs (stream_step Pull (s, Fresh, [])))"
    by (rule reader_inv_run [OF reader_inv_start [OF assms(2,3)] assms(1)])
  with assms(4) show ?thesis by (auto dest: reader_inv_prefix)
qed

end
