(* ===== verification/Outbound.thy ===== *)
theory Outbound
  imports Prelude "HOL-Library.Product_Lexorder"
begin

section \<open>Outbound admission\<close>

text \<open>
  \<^verbatim>\<open>types/domain/gating.py\<close> and
  \<^verbatim>\<open>adapters/outbound_admission.py\<close>: every write to a surface that is not private is
  decided over credential matches, declared tracker aggregates, native references and, for authored
  text, a judgment. What the scanners answer, what the credential patterns match and the digest are
  parameters: an agent session, an adapter behind a port, a regular-expression table and
  \<^verbatim>\<open>sha256\<close>.
\<close>

subsection \<open>Vocabulary\<close>

datatype repo_visibility = Private | Public | UnknownVisibility

datatype gate_verdict = Clean | Redacted | Blocked

datatype surface_durability = Durable | PointInTime

fun severity :: "gate_verdict \<Rightarrow> nat" where
  "severity Clean = 0"
| "severity Redacted = 1"
| "severity Blocked = 2"

definition max_verdict :: "gate_verdict \<Rightarrow> gate_verdict \<Rightarrow> gate_verdict" where
  "max_verdict left right = (if severity left \<ge> severity right then left else right)"

instantiation gate_verdict :: linorder
begin

definition less_eq_gate_verdict :: "gate_verdict \<Rightarrow> gate_verdict \<Rightarrow> bool" where
  "less_eq_gate_verdict a b \<longleftrightarrow> severity a \<le> severity b"

definition less_gate_verdict :: "gate_verdict \<Rightarrow> gate_verdict \<Rightarrow> bool" where
  "less_gate_verdict a b \<longleftrightarrow> severity a < severity b"

instance
proof
  fix a b c :: gate_verdict
  show "a < b \<longleftrightarrow> a \<le> b \<and> \<not> b \<le> a"
    by (auto simp: less_eq_gate_verdict_def less_gate_verdict_def)
  show "a \<le> a" by (simp add: less_eq_gate_verdict_def)
  show "a \<le> b \<Longrightarrow> b \<le> c \<Longrightarrow> a \<le> c" by (simp add: less_eq_gate_verdict_def)
  show "a \<le> b \<Longrightarrow> b \<le> a \<Longrightarrow> a = b"
    by (cases a; cases b) (simp_all add: less_eq_gate_verdict_def)
  show "a \<le> b \<or> b \<le> a" by (auto simp: less_eq_gate_verdict_def)
qed

end

datatype redaction_category =
  CrossRepoNames | TrackerUrls | EmailHandles | InfraEndpoints | Credentials | OrgPrivate

definition TRACKER_ROSTER_MIN_REFERENCES :: nat where
  "TRACKER_ROSTER_MIN_REFERENCES = 3"

datatype durability_category = ObjectCountClaim | IdentifierRosterClaim

datatype tracker_aggregate =
  ObjectCount (oc_field: string) (oc_value: nat)
| IdentifierRoster (ro_field: string) (ro_identities: "string list")

datatype scan_category = Redaction redaction_category | Durability durability_category

fun redaction_verdict :: "redaction_category \<Rightarrow> gate_verdict" where
  "redaction_verdict CrossRepoNames = Redacted"
| "redaction_verdict TrackerUrls = Redacted"
| "redaction_verdict EmailHandles = Redacted"
| "redaction_verdict InfraEndpoints = Blocked"
| "redaction_verdict Credentials = Blocked"
| "redaction_verdict OrgPrivate = Redacted"

datatype writer_shape = Prose | Identifier

datatype outbound_surface = Publication | Repository | TrackerSurface

datatype outbound_destination =
  BranchName | CommitMessage | CommitMessageDivergenceReplay | PrTitle | PrBody | PrComment |
  ArtifactTicketJson | ArtifactCriteriaJson | TrackerComment | TrackerStatusUpdate |
  TrackerDescription | TrackerTitle | TrackerClassification

fun surface_of :: "outbound_destination \<Rightarrow> outbound_surface" where
  "surface_of BranchName = Publication"
| "surface_of PrTitle = Publication"
| "surface_of PrBody = Publication"
| "surface_of PrComment = Publication"
| "surface_of CommitMessage = Repository"
| "surface_of CommitMessageDivergenceReplay = Repository"
| "surface_of ArtifactTicketJson = Repository"
| "surface_of ArtifactCriteriaJson = Repository"
| "surface_of TrackerComment = TrackerSurface"
| "surface_of TrackerStatusUpdate = TrackerSurface"
| "surface_of TrackerDescription = TrackerSurface"
| "surface_of TrackerTitle = TrackerSurface"
| "surface_of TrackerClassification = TrackerSurface"

fun destination_durability :: "outbound_destination \<Rightarrow> surface_durability" where
  "destination_durability BranchName = Durable"
| "destination_durability PrTitle = Durable"
| "destination_durability PrBody = Durable"
| "destination_durability PrComment = PointInTime"
| "destination_durability CommitMessage = PointInTime"
| "destination_durability CommitMessageDivergenceReplay = PointInTime"
| "destination_durability ArtifactTicketJson = Durable"
| "destination_durability ArtifactCriteriaJson = Durable"
| "destination_durability TrackerComment = PointInTime"
| "destination_durability TrackerStatusUpdate = PointInTime"
| "destination_durability TrackerDescription = Durable"
| "destination_durability TrackerTitle = Durable"
| "destination_durability TrackerClassification = Durable"

fun durability_of :: "outbound_destination option \<Rightarrow> surface_durability" where
  "durability_of None = Durable"
| "durability_of (Some destination) = destination_durability destination"

datatype content_class = Derived | Authored

datatype scan_failure_kind =
  Timeout | Refusal | MalformedVerdict | RateLimited | TransportError | ExecutionError |
  EmptyResponse | SpansUnresolvable | BudgetExhausted | NotConfigured

record scan_hit =
  sh_category :: scan_category
  sh_start :: "nat option"
  sh_end :: "nat option"
  sh_rationale :: "string option"
  sh_matched_text :: "string option"
  sh_source :: "tracker_aggregate option"

definition valid_scan_hit :: "scan_hit \<Rightarrow> bool" where
  "valid_scan_hit h \<longleftrightarrow>
     \<not> (sh_source h \<noteq> None \<and> (sh_start h \<noteq> None \<or> sh_end h \<noteq> None \<or> sh_matched_text h \<noteq> None))"

definition has_span :: "scan_hit \<Rightarrow> bool" where
  "has_span h \<longleftrightarrow>
     (case (sh_start h, sh_end h) of (Some s, Some e) \<Rightarrow> e > s | _ \<Rightarrow> False)"

definition hit_sort_key :: "scan_hit \<Rightarrow> int \<times> int" where
  "hit_sort_key h =
     (case (sh_start h, sh_end h) of (Some s, Some e) \<Rightarrow> (int s, int e) | _ \<Rightarrow> (-1, -1))"

record scan_result =
  sr_hits :: "scan_hit list"
  sr_failure :: "scan_failure_kind option"

definition valid_scan_result :: "scan_result \<Rightarrow> bool" where
  "valid_scan_result r \<longleftrightarrow> \<not> (sr_failure r \<noteq> None \<and> sr_hits r \<noteq> [])"

record gate_decision =
  gd_verdict :: gate_verdict
  gd_content :: string
  gd_categories :: "scan_category list"
  gd_hits :: "scan_hit list"
  gd_failure :: "scan_failure_kind option"

definition COUNT_RATIONALE :: string where
  "COUNT_RATIONALE =
     ''a count of tracker objects is read as current on a durable surface, so it '' @
     ''goes stale in place''"

definition ROSTER_RATIONALE :: string where
  "ROSTER_RATIONALE =
     ''a roster of '' @ decimal TRACKER_ROSTER_MIN_REFERENCES @ '' or more distinct tracker '' @
     ''identities is read as current on a durable surface, so it goes stale in place''"

fun aggregate_hit :: "tracker_aggregate \<Rightarrow> scan_hit list" where
  "aggregate_hit (ObjectCount f n) =
     [\<lparr>sh_category = Durability ObjectCountClaim, sh_start = None, sh_end = None,
       sh_rationale = Some COUNT_RATIONALE, sh_matched_text = None,
       sh_source = Some (ObjectCount f n)\<rparr>]"
| "aggregate_hit (IdentifierRoster f ids) =
     (if length (remdups ids) \<ge> TRACKER_ROSTER_MIN_REFERENCES
      then [\<lparr>sh_category = Durability IdentifierRosterClaim, sh_start = None, sh_end = None,
             sh_rationale = Some ROSTER_RATIONALE, sh_matched_text = None,
             sh_source = Some (IdentifierRoster f ids)\<rparr>]
      else [])"

definition aggregate_hits :: "tracker_aggregate list \<Rightarrow> outbound_destination \<Rightarrow> scan_hit list" where
  "aggregate_hits aggregates destination =
     (if durability_of (Some destination) \<noteq> Durable then []
      else concat (map aggregate_hit aggregates))"

subsection \<open>The decision\<close>

text \<open>The environment of one gate: the matches of the credential patterns in the order the patterns
  are tried, the two scanners, the digest and the digest of the prompt fragment.\<close>

record admission_env =
  ae_credential_matches :: "string \<Rightarrow> (nat \<times> nat) list"
  ae_references :: "string \<Rightarrow> outbound_destination \<Rightarrow> scan_result"
  ae_judgment :: "string \<Rightarrow> outbound_destination \<Rightarrow> scan_result"
  ae_content_digest :: "string \<Rightarrow> string"
  ae_fragment_digest :: string

definition credential_hits :: "admission_env \<Rightarrow> string \<Rightarrow> scan_hit list" where
  "credential_hits env content =
     map (\<lambda>(s, e). \<lparr>sh_category = Redaction Credentials, sh_start = Some s, sh_end = Some e,
                     sh_rationale = None, sh_matched_text = None, sh_source = None\<rparr>)
       (filter (\<lambda>(s, e). e > s) (ae_credential_matches env content))"

definition resolved_verdict :: "writer_shape \<Rightarrow> scan_hit \<Rightarrow> gate_verdict" where
  "resolved_verdict shape hit =
     (if shape = Identifier \<or> \<not> has_span hit then Blocked
      else case sh_category hit of Redaction c \<Rightarrow> redaction_verdict c | Durability d \<Rightarrow> Blocked)"

definition fold_verdict :: "scan_hit list \<Rightarrow> writer_shape \<Rightarrow> gate_verdict" where
  "fold_verdict hits shape =
     foldl (\<lambda>verdict hit. max_verdict verdict (resolved_verdict shape hit)) Clean hits"

definition failed_decision :: "scan_result \<Rightarrow> gate_decision" where
  "failed_decision r =
     \<lparr>gd_verdict = Blocked, gd_content = [], gd_categories = [], gd_hits = [],
      gd_failure = sr_failure r\<rparr>"

fun category_value :: "scan_category \<Rightarrow> string" where
  "category_value (Redaction CrossRepoNames) = ''cross_repo_names''"
| "category_value (Redaction TrackerUrls) = ''tracker_urls''"
| "category_value (Redaction EmailHandles) = ''email_handles''"
| "category_value (Redaction InfraEndpoints) = ''infra_endpoints''"
| "category_value (Redaction Credentials) = ''credentials''"
| "category_value (Redaction OrgPrivate) = ''org_private''"
| "category_value (Durability ObjectCountClaim) = ''object_count''"
| "category_value (Durability IdentifierRosterClaim) = ''identifier_roster''"

definition placeholder :: "scan_category \<Rightarrow> string" where
  "placeholder category = ''[REDACTED:'' @ category_value category @ '']''"

definition slice :: "string \<Rightarrow> nat \<Rightarrow> nat \<Rightarrow> string" where
  "slice content i j = take (j - i) (drop i content)"

fun redact_from :: "string \<Rightarrow> scan_hit list \<Rightarrow> nat \<Rightarrow> string" where
  "redact_from content [] cursor = drop cursor content"
| "redact_from content (hit # hits) cursor =
     (case (sh_start hit, sh_end hit) of
        (Some s, Some e) \<Rightarrow>
          if \<not> has_span hit then redact_from content hits cursor
          else if s < cursor then redact_from content hits (max cursor e)
          else slice content cursor s @ placeholder (sh_category hit) @ redact_from content hits e
      | _ \<Rightarrow> redact_from content hits cursor)"

definition redact :: "string \<Rightarrow> scan_hit list \<Rightarrow> string" where
  "redact content hits = redact_from content hits 0"

definition concluded :: "string \<Rightarrow> writer_shape \<Rightarrow> scan_hit list \<Rightarrow> gate_decision" where
  "concluded content shape hits =
     (if hits = [] then
        \<lparr>gd_verdict = Clean, gd_content = content, gd_categories = [], gd_hits = [],
         gd_failure = None\<rparr>
      else
        let hits = sort_key hit_sort_key hits;
            verdict = fold_verdict hits shape;
            categories = fromkeys (map sh_category hits) in
        if verdict = Blocked then
          \<lparr>gd_verdict = verdict, gd_content = [], gd_categories = categories, gd_hits = hits,
           gd_failure = None\<rparr>
        else
          \<lparr>gd_verdict = verdict, gd_content = redact content hits, gd_categories = categories,
           gd_hits = hits, gd_failure = None\<rparr>)"

definition wants_judgment :: "scan_hit list \<Rightarrow> writer_shape \<Rightarrow> outbound_destination \<Rightarrow> content_class \<Rightarrow> bool"
  where
  "wants_judgment hits shape destination cls \<longleftrightarrow>
     fold_verdict hits shape \<noteq> Blocked \<and>
     (cls = Authored \<or> destination = BranchName) \<and>
     (durability_of (Some destination) = Durable \<or> surface_of destination \<noteq> Repository)"

definition decide ::
  "admission_env \<Rightarrow> string \<Rightarrow> writer_shape \<Rightarrow> outbound_destination \<Rightarrow> content_class
     \<Rightarrow> tracker_aggregate list \<Rightarrow> gate_decision" where
  "decide env content shape destination cls aggregates =
     (let hits = credential_hits env content @ aggregate_hits aggregates destination in
      if hits \<noteq> [] then concluded content shape hits
      else
        let references = ae_references env content destination in
        if sr_failure references \<noteq> None then failed_decision references
        else if \<not> wants_judgment (sr_hits references) shape destination cls
          then concluded content shape (sr_hits references)
        else
          let judgment = ae_judgment env content destination in
          if sr_failure judgment \<noteq> None then failed_decision judgment
          else concluded content shape (sr_hits references @ sr_hits judgment))"

subsection \<open>The gate and its memo\<close>

type_synonym memo_key =
  "string \<times> outbound_destination \<times> string \<times> content_class \<times> writer_shape \<times> tracker_aggregate list"

type_synonym memo = "(memo_key, gate_decision) pydict"

definition MEMO_BOUND :: nat where
  "MEMO_BOUND = 4096"

definition memo_key ::
  "admission_env \<Rightarrow> string \<Rightarrow> writer_shape \<Rightarrow> outbound_destination \<Rightarrow> content_class
     \<Rightarrow> tracker_aggregate list \<Rightarrow> memo_key" where
  "memo_key env content shape destination cls aggregates =
     (ae_content_digest env content, destination, ae_fragment_digest env, cls, shape, aggregates)"

definition memo_store :: "memo_key \<Rightarrow> gate_decision \<Rightarrow> memo \<Rightarrow> memo" where
  "memo_store key decision memo =
     (if gd_failure decision = None then
        let memo = AList.update key decision memo in
        if length memo > MEMO_BOUND then tl memo else memo
      else memo)"

definition gate ::
  "admission_env \<Rightarrow> string \<Rightarrow> repo_visibility \<Rightarrow> writer_shape \<Rightarrow> outbound_destination
     \<Rightarrow> content_class \<Rightarrow> tracker_aggregate list \<Rightarrow> memo \<Rightarrow> gate_decision \<times> memo" where
  "gate env content visibility shape destination cls aggregates memo =
     (if visibility = Private then
        (\<lparr>gd_verdict = Clean, gd_content = content, gd_categories = [], gd_hits = [],
          gd_failure = None\<rparr>, memo)
      else
        let key = memo_key env content shape destination cls aggregates in
        case map_of memo key of
          Some memoized \<Rightarrow> (memoized, memo)
        | None \<Rightarrow>
            let decision = decide env content shape destination cls aggregates in
            (decision, memo_store key decision memo))"

subsection \<open>Verdicts\<close>

lemma max_verdict_max: "max_verdict a b = max a b"
  by (cases a; cases b) (simp_all add: max_verdict_def max_def less_eq_gate_verdict_def)

lemma verdict_order [simp]: "Clean \<le> v" "v \<le> Blocked" "\<not> Blocked \<le> Redacted" "\<not> Redacted \<le> Clean"
  by (cases v; simp add: less_eq_gate_verdict_def)+

lemma fold_verdict_ge:
  "v \<le> foldl (\<lambda>w hit. max_verdict w (resolved_verdict shape hit)) v hits"
  by (induction hits arbitrary: v) (auto simp: max_verdict_max intro: order_trans [OF max.cobounded1])

lemma fold_verdict_Max:
  "foldl (\<lambda>w hit. max_verdict w (resolved_verdict shape hit)) v hits =
     Max (insert v (resolved_verdict shape ` set hits))"
proof (induction hits arbitrary: v)
  case (Cons h hits)
  have "foldl (\<lambda>w hit. max_verdict w (resolved_verdict shape hit)) v (h # hits) =
      Max (insert (max v (resolved_verdict shape h)) (resolved_verdict shape ` set hits))"
    using Cons.IH [of "max v (resolved_verdict shape h)"] by (simp add: max_verdict_max)
  also have "\<dots> = Max (insert v (insert (resolved_verdict shape h) (resolved_verdict shape ` set hits)))"
    by (cases "set hits = {}") (simp_all add: max.assoc)
  finally show ?case by simp
qed simp

lemma resolved_verdict_not_clean: "resolved_verdict shape h \<noteq> Clean"
proof -
  have "redaction_verdict c \<noteq> Clean" for c by (cases c) simp_all
  then show ?thesis by (auto simp: resolved_verdict_def split: scan_category.splits)
qed

lemma fold_verdict_cong: "set xs = set ys \<Longrightarrow> fold_verdict xs shape = fold_verdict ys shape"
  unfolding fold_verdict_def fold_verdict_Max by simp

lemma fold_verdict_Clean: "fold_verdict hits shape = Clean \<longleftrightarrow> hits = []"
proof
  assume clean: "fold_verdict hits shape = Clean"
  show "hits = []"
  proof (rule ccontr)
    assume "hits \<noteq> []"
    then have "resolved_verdict shape (hd hits) \<in> insert Clean (resolved_verdict shape ` set hits)"
      by simp
    then have "resolved_verdict shape (hd hits) \<le> Clean"
      using clean Max_ge [of "insert Clean (resolved_verdict shape ` set hits)"]
      unfolding fold_verdict_def fold_verdict_Max by auto
    then have "resolved_verdict shape (hd hits) = Clean" by (intro antisym) simp_all
    then show False using resolved_verdict_not_clean by blast
  qed
qed (simp add: fold_verdict_def)

lemma fold_verdict_Blocked:
  "fold_verdict hits shape = Blocked \<longleftrightarrow> (\<exists>h \<in> set hits. resolved_verdict shape h = Blocked)"
proof -
  have "fold_verdict hits shape \<in> insert Clean (resolved_verdict shape ` set hits)"
    unfolding fold_verdict_def fold_verdict_Max by (intro Max_in) auto
  moreover have "Blocked \<le> fold_verdict hits shape" if "h \<in> set hits" "resolved_verdict shape h = Blocked" for h
    unfolding fold_verdict_def fold_verdict_Max using that by (intro Max_ge) force+
  ultimately show ?thesis by (auto intro: antisym) (metis antisym verdict_order(2))
qed

subsection \<open>Redaction\<close>

datatype piece = Kept nat nat | Mark scan_category

fun render :: "string \<Rightarrow> piece \<Rightarrow> string" where
  "render content (Kept i j) = slice content i j"
| "render content (Mark category) = placeholder category"

fun kept_positions :: "nat \<Rightarrow> piece \<Rightarrow> nat list" where
  "kept_positions n (Kept i j) = [i ..< min j n]"
| "kept_positions n (Mark category) = []"

definition covers :: "scan_hit \<Rightarrow> nat \<Rightarrow> bool" where
  "covers h i \<longleftrightarrow> has_span h \<and> the (sh_start h) \<le> i \<and> i < the (sh_end h)"

definition covered :: "scan_hit list \<Rightarrow> nat \<Rightarrow> bool" where
  "covered hits i \<longleftrightarrow> list_ex (\<lambda>h. covers h i) hits"

lemma upt_filter_drop:
  "(\<And>i. i < m \<Longrightarrow> k \<le> i \<Longrightarrow> \<not> P i) \<Longrightarrow> filter P [k ..< n] = filter P [max k m ..< n]"
proof (cases "m \<le> k")
  case False
  assume none: "\<And>i. i < m \<Longrightarrow> k \<le> i \<Longrightarrow> \<not> P i"
  show ?thesis
  proof (cases "m \<le> n")
    case True
    then have "[k ..< n] = [k ..< m] @ [m ..< n]"
      using False by (metis le_add_diff_inverse linear upt_add_eq_append)
    moreover have "filter P [k ..< m] = []" using none by (auto simp: filter_empty_conv)
    ultimately show ?thesis using False by (simp add: max_def)
  next
    case beyond: False
    then have "filter P [k ..< n] = []" using none by (auto simp: filter_empty_conv)
    then show ?thesis using beyond False by simp
  qed
qed (simp add: max_def)

lemma redact_from_pieces:
  assumes "sorted (map hit_sort_key hits)"
  shows "\<exists>ps. redact_from content hits cursor = concat (map (render content) ps) \<and>
    concat (map (kept_positions (length content)) ps) =
      filter (\<lambda>i. \<not> covered hits i) [cursor ..< length content] \<and>
    (\<forall>c. Mark c \<in> set ps \<longrightarrow> c \<in> sh_category ` set hits)"
  using assms
proof (induction hits arbitrary: cursor)
  case Nil
  have "redact_from content [] cursor = concat (map (render content) [Kept cursor (length content)])"
    by (simp add: slice_def)
  then show ?case by (intro exI [of _ "[Kept cursor (length content)]"]) (simp add: covered_def slice_def)
next
  case (Cons h hits)
  let ?n = "length content"
  have sorted: "sorted (map hit_sort_key hits)" using Cons.prems by simp
  show ?case
  proof (cases "has_span h")
    case False
    then have "redact_from content (h # hits) cursor = redact_from content hits cursor"
      by (auto split: option.splits)
    moreover have "covered (h # hits) i = covered hits i" for i
      using False by (simp add: covered_def covers_def)
    ultimately show ?thesis using Cons.IH [OF sorted, of cursor] by auto
  next
    case True
    then obtain s e where h: "sh_start h = Some s" "sh_end h = Some e" "s < e"
      by (auto simp: has_span_def split: option.splits)
    have cov: "covered (h # hits) i \<longleftrightarrow> (s \<le> i \<and> i < e) \<or> covered hits i" for i
      using True h by (simp add: covered_def covers_def)
    show ?thesis
    proof (cases "s < cursor")
      case overlap: True
      then have "redact_from content (h # hits) cursor = redact_from content hits (max cursor e)"
        using True h by simp
      moreover have "filter (\<lambda>i. \<not> covered (h # hits) i) [cursor ..< ?n] =
          filter (\<lambda>i. \<not> covered hits i) [max cursor e ..< ?n]"
      proof -
        have "filter (\<lambda>i. \<not> covered (h # hits) i) [cursor ..< ?n] =
            filter (\<lambda>i. \<not> covered (h # hits) i) [max cursor e ..< ?n]"
          by (rule upt_filter_drop) (use overlap cov in auto)
        also have "\<dots> = filter (\<lambda>i. \<not> covered hits i) [max cursor e ..< ?n]"
          by (intro filter_cong) (use cov in auto)
        finally show ?thesis .
      qed
      ultimately show ?thesis using Cons.IH [OF sorted, of "max cursor e"] by auto
    next
      case False
      have later: "s \<le> the (sh_start g)" if "g \<in> set hits" "has_span g" for g
      proof -
        have "hit_sort_key h \<le> hit_sort_key g" using Cons.prems that(1) by simp
        then show ?thesis
          using h that(2) by (auto simp: hit_sort_key_def has_span_def less_eq_prod_def split: option.splits)
      qed
      then have before: "\<not> covered hits i" if "i < s" for i
        using that by (force simp: covered_def covers_def list_ex_iff)
      obtain ps where ps: "redact_from content hits e = concat (map (render content) ps)"
          "concat (map (kept_positions ?n) ps) = filter (\<lambda>i. \<not> covered hits i) [e ..< ?n]"
          "\<forall>c. Mark c \<in> set ps \<longrightarrow> c \<in> sh_category ` set hits"
        using Cons.IH [OF sorted, of e] by blast
      let ?ps = "Kept cursor s # Mark (sh_category h) # ps"
      have "redact_from content (h # hits) cursor = concat (map (render content) ?ps)"
        using True False h ps(1) by simp
      moreover have "concat (map (kept_positions ?n) ?ps) =
          filter (\<lambda>i. \<not> covered (h # hits) i) [cursor ..< ?n]"
      proof -
        have head: "filter (\<lambda>i. \<not> covered (h # hits) i) [cursor ..< min s ?n] = [cursor ..< min s ?n]"
          by (intro filter_True) (use before cov in auto)
        have tail: "filter (\<lambda>i. \<not> covered (h # hits) i) [min s ?n ..< ?n] =
            filter (\<lambda>i. \<not> covered hits i) [e ..< ?n]"
        proof (cases "s \<le> ?n")
          case True
          have "filter (\<lambda>i. \<not> covered (h # hits) i) [s ..< ?n] =
              filter (\<lambda>i. \<not> covered (h # hits) i) [max s e ..< ?n]"
            by (rule upt_filter_drop) (simp add: cov)
          also have "max s e = e" using h(3) by simp
          also have "filter (\<lambda>i. \<not> covered (h # hits) i) [e ..< ?n] =
              filter (\<lambda>i. \<not> covered hits i) [e ..< ?n]"
            by (intro filter_cong) (use cov h(3) in auto)
          finally show ?thesis using True by simp
        next
          case beyond: False
          then show ?thesis using h(3) by simp
        qed
        show ?thesis
        proof (cases "cursor \<le> ?n")
          case True
          then have "[cursor ..< ?n] = [cursor ..< min s ?n] @ [min s ?n ..< ?n]"
            using False by (metis le_add_diff_inverse linear min.bounded_iff min.cobounded2 not_less
                upt_add_eq_append)
          then show ?thesis using head tail ps(2) by simp
        next
          case beyond: False
          have empty: "[e ..< ?n] = []" using beyond False h(3) by simp
          then have none: "concat (map (kept_positions ?n) ps) = []"
            using ps(2) by (simp only: empty filter.simps)
          show ?thesis using none beyond False by simp
        qed
      qed
      ultimately show ?thesis using ps(3) by (intro exI [of _ ?ps]) auto
    qed
  qed
qed

subsection \<open>What an admitted write contains\<close>

lemma sort_hits_sorted: "sorted (map hit_sort_key (sort_key hit_sort_key hits))"
  by simp

lemma covered_set: "set xs = set ys \<Longrightarrow> covered xs i = covered ys i"
  by (auto simp: covered_def list_ex_iff)

lemma concluded_cases:
  "(hits = [] \<longrightarrow> concluded content shape hits =
      \<lparr>gd_verdict = Clean, gd_content = content, gd_categories = [], gd_hits = [], gd_failure = None\<rparr>) \<and>
   gd_verdict (concluded content shape hits) = fold_verdict hits shape \<and>
   gd_failure (concluded content shape hits) = None \<and>
   set (gd_hits (concluded content shape hits)) = set hits \<and>
   (fold_verdict hits shape = Blocked \<longrightarrow> gd_content (concluded content shape hits) = []) \<and>
   (fold_verdict hits shape = Redacted \<longrightarrow>
      gd_content (concluded content shape hits) = redact content (sort_key hit_sort_key hits))"
proof -
  have "fold_verdict (sort_key hit_sort_key hits) shape = fold_verdict hits shape"
    by (rule fold_verdict_cong) simp
  then show ?thesis
    by (auto simp: concluded_def Let_def fold_verdict_def [of "[]"])
qed

definition scanned ::
  "admission_env \<Rightarrow> string \<Rightarrow> writer_shape \<Rightarrow> outbound_destination \<Rightarrow> content_class
     \<Rightarrow> tracker_aggregate list \<Rightarrow> scan_hit list" where
  "scanned env content shape destination cls aggregates =
     (let hits = credential_hits env content @ aggregate_hits aggregates destination in
      if hits \<noteq> [] then hits
      else sr_hits (ae_references env content destination) @
        (if wants_judgment (sr_hits (ae_references env content destination)) shape destination cls
         then sr_hits (ae_judgment env content destination) else []))"

lemma decide_answered:
  assumes "gd_failure (decide env content shape destination cls aggregates) = None"
  shows "decide env content shape destination cls aggregates =
     concluded content shape (scanned env content shape destination cls aggregates)"
proof (cases "credential_hits env content @ aggregate_hits aggregates destination = []")
  case True
  then show ?thesis
    using assms
    by (cases "sr_failure (ae_references env content destination)";
        cases "wants_judgment (sr_hits (ae_references env content destination)) shape destination cls";
        cases "sr_failure (ae_judgment env content destination)")
      (simp_all add: decide_def scanned_def failed_decision_def Let_def)
next
  case False
  then show ?thesis unfolding decide_def scanned_def Let_def by (simp only: if_True simp_thms)
qed

lemma decide_failed:
  assumes "gd_failure (decide env content shape destination cls aggregates) \<noteq> None"
  shows "gd_verdict (decide env content shape destination cls aggregates) = Blocked \<and>
    gd_content (decide env content shape destination cls aggregates) = []"
proof -
  have "gd_failure (concluded content shape hits) = None" for hits using concluded_cases by blast
  then show ?thesis
    using assms by (simp add: decide_def failed_decision_def Let_def split: if_splits)
qed

text \<open>Claim C24. Nothing a scanner flagged survives a redaction: an admitted redacted payload is a
  sequence of kept pieces of the original and category placeholders in which the characters kept
  are, each once and in order, exactly those no flagged span covers; it is only produced when every
  hit has a span, and an identifier is never redacted.\<close>

theorem redaction_keeps_nothing_flagged:
  assumes "gd_verdict (decide env content shape destination cls aggregates) = Redacted"
  shows "\<exists>ps. gd_content (decide env content shape destination cls aggregates) =
      concat (map (render content) ps) \<and>
    concat (map (kept_positions (length content)) ps) =
      filter (\<lambda>i. \<not> covered (scanned env content shape destination cls aggregates) i)
        [0 ..< length content] \<and>
    (\<forall>c. Mark c \<in> set ps \<longrightarrow>
       c \<in> sh_category ` set (scanned env content shape destination cls aggregates)) \<and>
    shape \<noteq> Identifier \<and>
    (\<forall>h. h \<in> set (scanned env content shape destination cls aggregates) \<longrightarrow> has_span h)"
proof -
  let ?hits = "scanned env content shape destination cls aggregates"
  let ?sorted = "sort_key hit_sort_key ?hits"
  have ok: "gd_failure (decide env content shape destination cls aggregates) = None"
    using assms decide_failed by fastforce
  have fold: "fold_verdict ?hits shape = Redacted"
    using assms concluded_cases [of ?hits content shape] unfolding decide_answered [OF ok] by simp
  have content: "gd_content (decide env content shape destination cls aggregates) = redact content ?sorted"
    using fold concluded_cases [of ?hits content shape] unfolding decide_answered [OF ok] by simp
  have cov: "covered ?sorted i = covered ?hits i" for i by (rule covered_set) simp
  have unblocked: "\<not> (\<exists>h \<in> set ?hits. resolved_verdict shape h = Blocked)"
    using fold fold_verdict_Blocked [of ?hits shape] by simp
  have "?hits \<noteq> []" using fold fold_verdict_Clean [of ?hits shape] by auto
  then obtain h where "h \<in> set ?hits" by (cases ?hits) auto
  then have "shape \<noteq> Identifier" using unblocked by (auto simp: resolved_verdict_def)
  moreover have "has_span h" if "h \<in> set ?hits" for h
  proof (rule ccontr)
    assume "\<not> has_span h"
    then have "resolved_verdict shape h = Blocked" by (simp add: resolved_verdict_def)
    then show False using unblocked that by blast
  qed
  ultimately show ?thesis
    using redact_from_pieces [OF sort_hits_sorted, of content ?hits 0]
    unfolding content redact_def cov by auto
qed

definition sample_env :: admission_env where
  "sample_env =
     \<lparr>ae_credential_matches = (\<lambda>_. []),
      ae_references = (\<lambda>_ _.
        \<lparr>sr_hits = [\<lparr>sh_category = Redaction TrackerUrls, sh_start = Some 1, sh_end = Some 3,
                    sh_rationale = None, sh_matched_text = None, sh_source = None\<rparr>],
         sr_failure = None\<rparr>),
      ae_judgment = (\<lambda>_ _. \<lparr>sr_hits = [], sr_failure = Some Timeout\<rparr>),
      ae_content_digest = (\<lambda>s. s), ae_fragment_digest = []\<rparr>"

lemma sample_redaction:
  "decide sample_env ''abcd'' Prose CommitMessage Derived [] =
     \<lparr>gd_verdict = Redacted, gd_content = ''a[REDACTED:tracker_urls]d'',
      gd_categories = [Redaction TrackerUrls],
      gd_hits = [\<lparr>sh_category = Redaction TrackerUrls, sh_start = Some 1, sh_end = Some 3,
                  sh_rationale = None, sh_matched_text = None, sh_source = None\<rparr>],
      gd_failure = None\<rparr>"
  by (simp add: decide_def sample_env_def credential_hits_def aggregate_hits_def wants_judgment_def
      concluded_def fold_verdict_def resolved_verdict_def has_span_def max_verdict_def
      redact_def slice_def placeholder_def)

theorem redaction_keeps_nothing_flagged_witness:
  "\<exists>ps. gd_content (decide sample_env ''abcd'' Prose CommitMessage Derived []) =
      concat (map (render ''abcd'') ps) \<and>
    concat (map (kept_positions (length ''abcd'')) ps) =
      filter (\<lambda>i. \<not> covered (scanned sample_env ''abcd'' Prose CommitMessage Derived []) i)
        [0 ..< length ''abcd''] \<and>
    (\<forall>c. Mark c \<in> set ps \<longrightarrow>
       c \<in> sh_category ` set (scanned sample_env ''abcd'' Prose CommitMessage Derived [])) \<and>
    Prose \<noteq> Identifier \<and>
    (\<forall>h. h \<in> set (scanned sample_env ''abcd'' Prose CommitMessage Derived []) \<longrightarrow> has_span h)"
  by (rule redaction_keeps_nothing_flagged) (simp add: sample_redaction)



subsection \<open>The memo\<close>

definition memo_ok :: "memo \<Rightarrow> bool" where
  "memo_ok memo \<longleftrightarrow>
     wf_dict memo \<and> length memo \<le> MEMO_BOUND \<and> (\<forall>(k, d) \<in> set memo. gd_failure d = None)"

lemma update_length: "length (AList.update k v d) \<le> Suc (length d)"
  by (induction d) auto

lemma update_members: "p \<in> set (AList.update k v d) \<Longrightarrow> p = (k, v) \<or> p \<in> set d"
  by (induction d) (auto split: if_splits)

lemma memo_store_ok: "memo_ok memo \<Longrightarrow> memo_ok (memo_store key decision memo)"
proof (cases "gd_failure decision = None")
  case True
  assume ok: "memo_ok memo"
  let ?memo = "AList.update key decision memo"
  have "wf_dict ?memo" using ok by (simp add: memo_ok_def distinct_update)
  moreover have "length ?memo \<le> Suc MEMO_BOUND"
    using ok update_length [of key decision memo] by (simp add: memo_ok_def)
  moreover have "\<forall>(k, d) \<in> set ?memo. gd_failure d = None"
    using ok True by (auto simp: memo_ok_def dest!: update_members)
  ultimately show ?thesis
    using True
    by (cases ?memo) (auto simp: memo_store_def memo_ok_def Let_def)
qed (auto simp: memo_store_def)

text \<open>The memo stays bounded and never hides a scanner that did not answer: from any memo
  within its bound holding answered decisions only, a gate call keeps it so; a private repository
  passes the text through untouched and leaves the memo alone; and a call whose decision failed
  leaves the memo alone too, so the next write of that text is scanned again.\<close>

lemma gate_memo_is_sound:
  assumes "memo_ok memo"
    and "gate env content visibility shape destination cls aggregates memo = (decision, memo')"
  shows "memo_ok memo' \<and> length memo' \<le> 4096 \<and>
    (visibility = Private \<longrightarrow> gd_verdict decision = Clean \<and> gd_content decision = content \<and>
       memo' = memo) \<and>
    (gd_failure decision \<noteq> None \<longrightarrow> memo' = memo \<and>
       decision = decide env content shape destination cls aggregates) \<and>
    (visibility \<noteq> Private \<longrightarrow>
       decision = decide env content shape destination cls aggregates \<or>
       (memo_key env content shape destination cls aggregates, decision) \<in> set memo)"
proof (cases "visibility = Private")
  case True
  then show ?thesis using assms by (auto simp: gate_def memo_ok_def MEMO_BOUND_def)
next
  case False
  let ?key = "memo_key env content shape destination cls aggregates"
  show ?thesis
  proof (cases "map_of memo ?key")
    case None
    then have r: "decision = decide env content shape destination cls aggregates"
        "memo' = memo_store ?key decision memo"
      using assms(2) False by (auto simp: gate_def Let_def)
    have "memo_ok memo'" unfolding r(2) by (rule memo_store_ok [OF assms(1)])
    then show ?thesis using r False by (auto simp: memo_ok_def MEMO_BOUND_def memo_store_def)
  next
    case (Some d)
    then have r: "decision = d" "memo' = memo" using assms(2) False by (auto simp: gate_def Let_def)
    have "(?key, d) \<in> set memo" using Some by (rule map_of_SomeD)
    then show ?thesis
      using r False assms(1) by (auto simp: memo_ok_def MEMO_BOUND_def)
  qed
qed

theorem gate_memo_is_sound_witness:
  "memo_ok (snd (gate sample_env ''abcd'' Public Prose CommitMessage Derived [] [])) \<and>
   snd (gate sample_env ''abcd'' Public Prose PrBody Authored [] []) = []"
proof -
  have ok: "memo_ok []" by (simp add: memo_ok_def)
  obtain d m where g: "gate sample_env ''abcd'' Public Prose CommitMessage Derived [] [] = (d, m)"
    by (cases "gate sample_env ''abcd'' Public Prose CommitMessage Derived [] []")
  obtain d' m' where g': "gate sample_env ''abcd'' Public Prose PrBody Authored [] [] = (d', m')"
    by (cases "gate sample_env ''abcd'' Public Prose PrBody Authored [] []")
  have "gd_failure d' = Some Timeout"
    using g' by (auto simp: gate_def Let_def decide_def sample_env_def credential_hits_def
        aggregate_hits_def wants_judgment_def fold_verdict_def resolved_verdict_def has_span_def
        max_verdict_def failed_decision_def)
  then show ?thesis
    using gate_memo_is_sound [OF ok g] gate_memo_is_sound [OF ok g'] g g' by simp
qed

end
