(* ===== verification/SurfaceLease.thy ===== *)
theory SurfaceLease
  imports JobRegistry "HOL-Library.Multiset" "HOL-Library.Product_Lexorder" "HOL-Library.List_Lexorder"
    "HOL-Library.Char_ord"
begin

section \<open>Write surfaces and who owns them\<close>

text \<open>
  \<^verbatim>\<open>types/domain/surface.py\<close>, \<^verbatim>\<open>domain/surface_lease.py\<close> and
  \<^verbatim>\<open>domain/model_surfaces.py\<close>: the addresses a writer can hold, the arithmetic that
  decides contention, renewal and self-arbitration, and the set a job over a marked model takes.

  A frozen set is a list in whatever order the interpreter iterates it; what is computed from one
  is shown not to depend on that order.
\<close>

datatype surface_kind =
  ISSUE_DESCRIPTION | MARKER_COMMENT | CONTAINER_DESCRIPTION | CONTAINER_STATUS_UPDATE |
  ISSUE_LABEL_SET | CRITERION_SUB_ISSUE | CRITERION_CHILD_SET | ISSUE_GRAPH | ISSUE_SPLIT_SET

fun surface_kind_value :: "surface_kind \<Rightarrow> string" where
  "surface_kind_value ISSUE_DESCRIPTION = ''issue_description''"
| "surface_kind_value MARKER_COMMENT = ''marker_comment''"
| "surface_kind_value CONTAINER_DESCRIPTION = ''container_description''"
| "surface_kind_value CONTAINER_STATUS_UPDATE = ''container_status_update''"
| "surface_kind_value ISSUE_LABEL_SET = ''issue_label_set''"
| "surface_kind_value CRITERION_SUB_ISSUE = ''criterion_sub_issue''"
| "surface_kind_value CRITERION_CHILD_SET = ''criterion_child_set''"
| "surface_kind_value ISSUE_GRAPH = ''issue_graph''"
| "surface_kind_value ISSUE_SPLIT_SET = ''issue_split_set''"

fun scope_kind_value :: "scope_kind \<Rightarrow> string" where
  "scope_kind_value INITIATIVE = ''initiative''"
| "scope_kind_value PROJECT = ''project''"
| "scope_kind_value MILESTONE = ''milestone''"
| "scope_kind_value ISSUE = ''issue''"

definition container_kinds :: "surface_kind list" where
  "container_kinds = [CONTAINER_DESCRIPTION, CONTAINER_STATUS_UPDATE]"

definition body_authorship_surfaces :: "surface_kind list" where
  "body_authorship_surfaces = [ISSUE_DESCRIPTION, CRITERION_SUB_ISSUE]"

record writable_surface =
  su_kind :: surface_kind
  su_ref :: scope_ref
  su_marker :: "string option"

text \<open>The checks a surface makes on itself, in the order it makes them.\<close>

definition valid_surface :: "writable_surface \<Rightarrow> bool" where
  "valid_surface s \<longleftrightarrow>
     \<not> py_blank (ref_key (su_ref s)) \<and>
     (if su_kind s \<in> set container_kinds then ref_kind (su_ref s) \<noteq> ISSUE
      else ref_kind (su_ref s) = ISSUE) \<and>
     (if su_kind s = MARKER_COMMENT
      then (case su_marker s of None \<Rightarrow> False | Some m \<Rightarrow> \<not> py_blank m)
      else su_marker s = None)"

definition ordered_holders :: "string list \<Rightarrow> string list" where
  "ordered_holders written_by = fromkeys written_by"

datatype surface_authorship = PRINCIPAL_AUTHORED | MACHINE_AUTHORED

record surface_provenance =
  sp_authorship :: surface_authorship
  sp_holders :: "string list"

definition valid_provenance :: "surface_provenance \<Rightarrow> bool" where
  "valid_provenance p \<longleftrightarrow>
     list_all (\<lambda>h. \<not> py_blank h) (sp_holders p) \<and> distinct (sp_holders p)"

definition require_body_authorship_surface :: "writable_surface \<Rightarrow> surface_kind + unit" where
  "require_body_authorship_surface s =
     (if su_kind s \<in> set body_authorship_surfaces then Inr () else Inl (su_kind s))"

record description_authority =
  da_surface :: writable_surface
  da_holder :: string

definition valid_description_authority :: "description_authority \<Rightarrow> bool" where
  "valid_description_authority a \<longleftrightarrow>
     \<not> py_blank (da_holder a) \<and>
     su_kind (da_surface a) \<in> set [ISSUE_DESCRIPTION, CRITERION_SUB_ISSUE]"

record surface_lease =
  sl_holder :: string
  sl_surfaces :: "writable_surface list"
  sl_expires_at :: instant

definition valid_lease :: "surface_lease \<Rightarrow> bool" where
  "valid_lease l \<longleftrightarrow> \<not> py_blank (sl_holder l) \<and> sl_surfaces l \<noteq> []"

subsection \<open>The arithmetic of ownership\<close>

definition surface_address :: "writable_surface \<Rightarrow> string \<times> string \<times> string \<times> string" where
  "surface_address s =
     (surface_kind_value (su_kind s), scope_kind_value (ref_kind (su_ref s)), ref_key (su_ref s),
      (case su_marker s of None \<Rightarrow> [] | Some m \<Rightarrow> m))"

definition renews :: "instant \<Rightarrow> instant \<Rightarrow> bool" where
  "renews published_at since \<longleftrightarrow> published_at < since"

definition renewed_deadline :: "instant \<Rightarrow> duration \<Rightarrow> instant \<Rightarrow> instant" where
  "renewed_deadline published_at lease since =
     (if \<not> renews published_at since then since else published_at + lease)"

record live_grant =
  lg_holder :: string
  lg_expires_at :: instant

record ordered_grant =
  og_order :: "instant \<times> string"
  og_expires_at :: instant

definition one_ownership :: "ordered_grant \<Rightarrow> ordered_grant list \<Rightarrow> instant \<Rightarrow> ordered_grant" where
  "one_ownership mine siblings now =
     foldl (\<lambda>standing sibling.
         if og_expires_at sibling > now \<and> og_order sibling < og_order standing then sibling
         else standing)
       mine siblings"

definition retracts :: "instant \<Rightarrow> instant \<Rightarrow> bool" where
  "retracts standing accounted \<longleftrightarrow> standing \<le> accounted"

fun first_conflict ::
  "'a list \<Rightarrow> ('a \<Rightarrow> live_grant option) \<Rightarrow> string \<Rightarrow> instant \<Rightarrow> ('a \<times> string) option" where
  "first_conflict [] held holder now = None"
| "first_conflict (address # rest) held holder now =
     (case held address of
        None \<Rightarrow> first_conflict rest held holder now
      | Some grant \<Rightarrow>
          if lg_expires_at grant \<le> now \<or> lg_holder grant = holder
          then first_conflict rest held holder now
          else Some (address, lg_holder grant))"

definition live_conflict ::
  "'a list \<Rightarrow> ('a \<Rightarrow> live_grant option) \<Rightarrow> string \<Rightarrow> instant \<Rightarrow> ('a \<Rightarrow> 'k::linorder)
     \<Rightarrow> ('a \<times> string) option" where
  "live_conflict requested held holder now order =
     first_conflict (sort_key order requested) held holder now"

subsection \<open>The surfaces of a marked model\<close>

definition issue_surface :: "surface_kind \<Rightarrow> string \<Rightarrow> writable_surface" where
  "issue_surface kind key =
     \<lparr>su_kind = kind, su_ref = \<lparr>ref_kind = ISSUE, ref_key = key\<rparr>, su_marker = None\<rparr>"

text \<open>Of an issue only its key is read; the children of a member are looked up by its key.\<close>

definition member_surfaces ::
  "string list \<Rightarrow> (string, string list) pydict \<Rightarrow> writable_surface set" where
  "member_surfaces members criteria =
     set (map (issue_surface ISSUE_DESCRIPTION) members) \<union>
     set (map (issue_surface CRITERION_SUB_ISSUE)
       (concat (map (\<lambda>m. case map_of criteria m of None \<Rightarrow> [] | Some cs \<Rightarrow> cs) members)))"

definition model_lease_set ::
  "writable_surface set \<Rightarrow> writable_surface set \<Rightarrow> writable_surface set" where
  "model_lease_set requested model =
     (if \<exists>s \<in> requested. ref_key (su_ref s) \<in> (\<lambda>m. ref_key (su_ref m)) ` model
      then requested \<union> model else requested)"

definition MODEL_CLASSIFICATION :: string where
  "MODEL_CLASSIFICATION = ''criterion_lifecycle''"

definition model_classification :: "(string, string) pydict \<Rightarrow> string option" where
  "model_classification issue_labels =
     (case map_of issue_labels MODEL_CLASSIFICATION of
        None \<Rightarrow> None
      | Some label \<Rightarrow> if label = [] then None else Some MODEL_CLASSIFICATION)"

subsection \<open>Addresses name surfaces\<close>

lemma surface_kind_value_inj: "surface_kind_value a = surface_kind_value b \<Longrightarrow> a = b"
  by (cases a; cases b) simp_all

lemma scope_kind_value_inj: "scope_kind_value a = scope_kind_value b \<Longrightarrow> a = b"
  by (cases a; cases b) simp_all

lemma surface_address_inj:
  assumes "valid_surface s" and "valid_surface t" and "surface_address s = surface_address t"
  shows "s = t"
proof -
  have k: "su_kind s = su_kind t" "ref_kind (su_ref s) = ref_kind (su_ref t)"
      "ref_key (su_ref s) = ref_key (su_ref t)"
    using assms(3) surface_kind_value_inj scope_kind_value_inj
    by (auto simp: surface_address_def)
  have "su_marker s = su_marker t"
    using assms k(1)
    by (cases "su_marker s"; cases "su_marker t")
      (auto simp: surface_address_def valid_surface_def py_blank_def split: if_splits)
  then show ?thesis
    using k by (cases s; cases t; cases "su_ref s"; cases "su_ref t") simp
qed

subsection \<open>Contention\<close>

text \<open>
  What a client of the contention arithmetic relies on: an order that tells the requested addresses
  apart. The client's facts are derived from that alone.
\<close>

definition contested :: "('a \<Rightarrow> live_grant option) \<Rightarrow> string \<Rightarrow> instant \<Rightarrow> 'a \<Rightarrow> bool" where
  "contested held holder now a \<longleftrightarrow>
     (\<exists>g. held a = Some g \<and> now < lg_expires_at g \<and> lg_holder g \<noteq> holder)"

lemma first_conflict_find:
  "first_conflict xs held holder now =
     (case find (contested held holder now) xs of
        None \<Rightarrow> None
      | Some a \<Rightarrow> Some (a, lg_holder (the (held a))))"
  by (induction xs) (auto simp: contested_def split: option.splits)

locale address_order =
  fixes valid :: "'a \<Rightarrow> bool" and order :: "'a \<Rightarrow> 'k::linorder"
  assumes order_inj: "valid a \<Longrightarrow> valid b \<Longrightarrow> order a = order b \<Longrightarrow> a = b"
begin

lemma sorted_unique:
  assumes "set xs = set ys" and "distinct xs" and "distinct ys" and "list_all valid xs"
  shows "sort_key order xs = sort_key order ys"
proof -
  have inj: "inj_on order (set xs)"
    using assms(4) order_inj by (auto simp: inj_on_def list_all_iff)
  have "sorted (map order (sort_key order xs))" "sorted (map order (sort_key order ys))" by simp_all
  moreover have "mset (map order (sort_key order xs)) = mset (map order (sort_key order ys))"
    using assms(1-3) set_eq_iff_mset_eq_distinct [of xs ys] by simp
  ultimately have "map order (sort_key order xs) = map order (sort_key order ys)"
    by (metis properties_for_sort sort_key_id_if_sorted)
  then show ?thesis
    using inj assms(1) by (intro map_inj_on [of order]) auto
qed

lemma conflict_order_independent:
  assumes "set xs = set ys" and "distinct xs" and "distinct ys" and "list_all valid xs"
  shows "live_conflict xs held holder now order = live_conflict ys held holder now order"
  unfolding live_conflict_def using sorted_unique [OF assms] by simp

lemma conflict_None:
  "live_conflict xs held holder now order = None \<longleftrightarrow> (\<forall>a \<in> set xs. \<not> contested held holder now a)"
proof -
  have "live_conflict xs held holder now order = None \<longleftrightarrow>
      find (contested held holder now) (sort_key order xs) = None"
    unfolding live_conflict_def first_conflict_find by (simp split: option.splits)
  then show ?thesis unfolding find_None_iff_all by simp
qed

lemma conflict_least:
  assumes "live_conflict xs held holder now order = Some (a, h)"
  shows "a \<in> set xs \<and> contested held holder now a \<and> h = lg_holder (the (held a)) \<and>
    (\<forall>b \<in> set xs. contested held holder now b \<longrightarrow> order a \<le> order b)"
proof -
  have f: "find (contested held holder now) (sort_key order xs) = Some a" "h = lg_holder (the (held a))"
    using assms unfolding live_conflict_def first_conflict_find by (auto split: option.splits)
  obtain pre post where s: "sort_key order xs = pre @ a # post" "contested held holder now a"
      "\<forall>b \<in> set pre. \<not> contested held holder now b"
    using find_Some_first [OF f(1)] by blast
  have "sorted (map order (pre @ a # post))" unfolding s(1) [symmetric] by simp
  then have "\<forall>b \<in> set post. order a \<le> order b" by (simp add: sorted_append)
  moreover have "set xs = set (pre @ a # post)" unfolding s(1) [symmetric] by simp
  ultimately show ?thesis using s(2,3) f(2) by auto
qed

end

interpretation surfaces: address_order valid_surface surface_address
  by unfold_locales (rule surface_address_inj)

text \<open>Every holder names the same conflict: over valid surfaces the answer does not depend on
  the order the requested set is iterated in; there is none exactly when each requested surface is
  free, expired or the holder's own; and otherwise it is the contested surface of least address,
  with the holder whose grant is live on it.\<close>

lemma conflict_is_least_contested:
  assumes "list_all valid_surface xs" and "distinct xs" and "distinct ys" and "set ys = set xs"
  shows "live_conflict ys held holder now surface_address = live_conflict xs held holder now surface_address \<and>
    (case live_conflict xs held holder now surface_address of
       None \<Rightarrow> (\<forall>a. a \<in> set xs \<longrightarrow> \<not> contested held holder now a)
     | Some (a, h) \<Rightarrow> a \<in> set xs \<and> contested held holder now a \<and>
         (\<exists>g. held a = Some g \<and> h = lg_holder g) \<and>
         (\<forall>b. b \<in> set xs \<and> contested held holder now b \<longrightarrow> surface_address a \<le> surface_address b))"
proof (rule conjI)
  show "live_conflict ys held holder now surface_address =
      live_conflict xs held holder now surface_address"
    by (rule surfaces.conflict_order_independent [symmetric]) (use assms in auto)
  show "case live_conflict xs held holder now surface_address of
       None \<Rightarrow> (\<forall>a. a \<in> set xs \<longrightarrow> \<not> contested held holder now a)
     | Some (a, h) \<Rightarrow> a \<in> set xs \<and> contested held holder now a \<and>
         (\<exists>g. held a = Some g \<and> h = lg_holder g) \<and>
         (\<forall>b. b \<in> set xs \<and> contested held holder now b \<longrightarrow> surface_address a \<le> surface_address b)"
  proof (cases "live_conflict xs held holder now surface_address")
    case None
    then have "\<forall>a \<in> set xs. \<not> contested held holder now a"
      by (simp only: surfaces.conflict_None)
    then show ?thesis unfolding None by simp
  next
    case (Some p)
    obtain a h where p: "p = (a, h)" by (cases p)
    show ?thesis
      using surfaces.conflict_least [of xs held holder now a h] Some p
      by (auto simp: contested_def)
  qed
qed

definition sample_surface :: "string \<Rightarrow> writable_surface" where
  "sample_surface key = issue_surface ISSUE_DESCRIPTION key"

lemma sample_surface_valid: "valid_surface (sample_surface ''K'')"
  by (simp add: sample_surface_def issue_surface_def valid_surface_def container_kinds_def
      py_blank_def py_isspace_def)

theorem conflict_is_least_contested_witness:
  "let xs = [sample_surface ''K''];
       held = (\<lambda>_. Some \<lparr>lg_holder = ''other'', lg_expires_at = 5\<rparr>) in
   live_conflict xs held ''me'' 4 surface_address = Some (sample_surface ''K'', ''other'') \<and>
   contested held ''me'' 4 (sample_surface ''K'')"
proof -
  let ?held = "\<lambda>_ :: writable_surface. Some \<lparr>lg_holder = ''other'', lg_expires_at = 5\<rparr>"
  have c: "live_conflict [sample_surface ''K''] ?held ''me'' 4 surface_address =
      Some (sample_surface ''K'', ''other'')"
    by (simp add: live_conflict_def)
  have "list_all valid_surface [sample_surface ''K'']" using sample_surface_valid by simp
  from conflict_is_least_contested [OF this, of "[sample_surface ''K'']" ?held "''me''" 4]
  show ?thesis unfolding Let_def using c by simp
qed

subsection \<open>Renewal and takeover\<close>

text \<open>No instant lets one holder renew and another take over: for a grant standing on an
  address, a write the backend stamps at any instant renews it exactly when, at that same instant,
  every other holder meets it as a conflict; and once the backend stamped a renewal at or after the
  deadline, no later renewal moves the deadline again.\<close>

lemma renewal_excludes_takeover:
  assumes "held a = Some g" and "lg_holder g \<noteq> other"
  shows "(renews stamp (lg_expires_at g) \<longleftrightarrow>
      live_conflict [a] held other stamp surface_address = Some (a, lg_holder g)) \<and>
    (\<not> renews stamp (lg_expires_at g) \<longleftrightarrow>
      live_conflict [a] held other stamp surface_address = None) \<and>
    (\<forall>stamps lease. lg_expires_at g \<le> stamp \<and> sorted (stamp # stamps) \<longrightarrow>
      foldl (\<lambda>deadline t. renewed_deadline t lease deadline) (lg_expires_at g) (stamp # stamps) =
        lg_expires_at g)"
proof -
  have late: "foldl (\<lambda>deadline t. renewed_deadline t lease deadline) d ts = d"
    if "\<forall>t \<in> set ts. d \<le> t" for d lease ts
    using that by (induction ts) (auto simp: renewed_deadline_def renews_def)
  have "foldl (\<lambda>deadline t. renewed_deadline t lease deadline) (lg_expires_at g) (stamp # stamps) =
      lg_expires_at g"
    if "lg_expires_at g \<le> stamp" "sorted (stamp # stamps)" for stamps lease
    by (rule late) (use that in auto)
  then show ?thesis
    using assms by (auto simp: live_conflict_def renews_def)
qed

theorem renewal_excludes_takeover_witness:
  "renews 4 5 \<and>
   live_conflict [sample_surface ''K''] (\<lambda>_. Some \<lparr>lg_holder = ''me'', lg_expires_at = 5\<rparr>) ''other'' 4
     surface_address = Some (sample_surface ''K'', ''me'') \<and>
   live_conflict [sample_surface ''K''] (\<lambda>_. Some \<lparr>lg_holder = ''me'', lg_expires_at = 5\<rparr>) ''other'' 5
     surface_address = None"
proof -
  let ?g = "\<lparr>lg_holder = ''me'', lg_expires_at = 5\<rparr>"
  have h: "(\<lambda>_ :: writable_surface. Some ?g) (sample_surface ''K'') = Some ?g" by simp
  have o: "lg_holder ?g \<noteq> ''other''" by simp
  show ?thesis
    using renewal_excludes_takeover [of "\<lambda>_. Some ?g" "sample_surface ''K''" ?g "''other''" 4, OF h o]
      renewal_excludes_takeover [of "\<lambda>_. Some ?g" "sample_surface ''K''" ?g "''other''" 5, OF h o]
    by (simp add: renews_def)
qed

subsection \<open>One holder's own grants\<close>

lemma one_ownership_facts:
  "one_ownership mine siblings now \<in> insert mine {s \<in> set siblings. now < og_expires_at s} \<and>
   og_order (one_ownership mine siblings now) \<le> og_order mine \<and>
   (\<forall>s \<in> set siblings. now < og_expires_at s \<longrightarrow>
      og_order (one_ownership mine siblings now) \<le> og_order s)"
  unfolding one_ownership_def
proof (induction siblings arbitrary: mine)
  case (Cons s siblings)
  show ?case
  proof (cases "og_expires_at s > now \<and> og_order s < og_order mine")
    case True
    then show ?thesis using Cons.IH [of s] by (auto dest: order_trans)
  next
    case False
    then show ?thesis using Cons.IH [of mine] by (auto intro: order_trans)
  qed
qed simp

text \<open>A holder contending with itself keeps one grant: what stands is its own grant or a live
  sibling, ordered first among all of them, so a lapsed sibling never stands; and two live grants of
  one holder that each see the same grants, themselves included, settle on the same one.\<close>

lemma self_arbitration_agrees:
  assumes "\<And>x y. x \<in> set grants \<Longrightarrow> y \<in> set grants \<Longrightarrow> og_order x = og_order y \<Longrightarrow> x = y"
    and "a \<in> set grants" and "b \<in> set grants"
    and "now < og_expires_at a" and "now < og_expires_at b"
  shows "one_ownership a grants now = one_ownership b grants now \<and>
    one_ownership a grants now \<in> set grants \<and>
    now < og_expires_at (one_ownership a grants now) \<and>
    (\<forall>s. s \<in> set grants \<and> now < og_expires_at s \<longrightarrow>
       og_order (one_ownership a grants now) \<le> og_order s)"
proof -
  have mem: "one_ownership x grants now \<in> set grants \<and> now < og_expires_at (one_ownership x grants now)"
    if "x \<in> set grants" "now < og_expires_at x" for x
    using one_ownership_facts [of x grants now] that by auto
  have "og_order (one_ownership a grants now) \<le> og_order (one_ownership b grants now)"
    using one_ownership_facts [of a grants now] mem [OF assms(3,5)] by blast
  moreover have "og_order (one_ownership b grants now) \<le> og_order (one_ownership a grants now)"
    using one_ownership_facts [of b grants now] mem [OF assms(2,4)] by blast
  ultimately have "one_ownership a grants now = one_ownership b grants now"
    using assms(1) mem [OF assms(2,4)] mem [OF assms(3,5)] by (meson antisym)
  then show ?thesis
    using mem [OF assms(2,4)] one_ownership_facts [of a grants now] by blast
qed

definition sample_grant :: "instant \<Rightarrow> ordered_grant" where
  "sample_grant t = \<lparr>og_order = (t, ''x''), og_expires_at = 9\<rparr>"

subsection \<open>A marked model is one thing\<close>

lemma issue_surface_valid:
  "kind \<in> {ISSUE_DESCRIPTION, CRITERION_SUB_ISSUE} \<Longrightarrow> \<not> py_blank key \<Longrightarrow>
     valid_surface (issue_surface kind key)"
  by (auto simp: issue_surface_def valid_surface_def container_kinds_def)

text \<open>Two jobs cannot write different members of one model at once: if both requests touch
  the model, each takes the whole of it, so while one holds its set under a live grant the other
  meets a conflict; and a request that touches no issue of the model takes exactly what it asked
  for.\<close>

lemma model_is_leased_whole:
  assumes "set xs = model_lease_set requested model"
    and "s \<in> requested" and "m \<in> model" and "ref_key (su_ref s) = ref_key (su_ref m)"
    and "s' \<in> requested'" and "m' \<in> model" and "ref_key (su_ref s') = ref_key (su_ref m')"
    and "\<And>a. a \<in> model_lease_set requested' model \<Longrightarrow> held a = Some g"
    and "lg_holder g \<noteq> holder" and "now < lg_expires_at g"
  shows "model \<subseteq> model_lease_set requested model \<and> model \<subseteq> model_lease_set requested' model \<and>
    live_conflict xs held holder now surface_address \<noteq> None \<and>
    (\<forall>other. (\<forall>t. t \<in> other \<longrightarrow> ref_key (su_ref t) \<notin> (\<lambda>m. ref_key (su_ref m)) ` model) \<longrightarrow>
       model_lease_set other model = other)"
proof -
  have whole: "model_lease_set requested model = requested \<union> model"
    using assms(2-4) by (auto simp: model_lease_set_def)
  have whole': "model_lease_set requested' model = requested' \<union> model"
    using assms(5-7) by (auto simp: model_lease_set_def)
  have "m \<in> set xs" unfolding assms(1) whole using assms(3) by simp
  moreover have "contested held holder now m"
    using assms(8) [of m] assms(3,9,10) unfolding whole' contested_def by auto
  ultimately have "live_conflict xs held holder now surface_address \<noteq> None"
    unfolding surfaces.conflict_None by blast
  then show ?thesis using whole whole' by (auto simp: model_lease_set_def)
qed

theorem model_is_leased_whole_witness:
  "let model = member_surfaces [''A'', ''B''] []; g = \<lparr>lg_holder = ''x'', lg_expires_at = 9\<rparr> in
   model \<subseteq> model_lease_set {sample_surface ''A''} model \<and>
   live_conflict [sample_surface ''A'', sample_surface ''B''] (\<lambda>_. Some g) ''y'' 5 surface_address \<noteq> None"
proof -
  let ?model = "member_surfaces [''A'', ''B''] []" and ?g = "\<lparr>lg_holder = ''x'', lg_expires_at = 9\<rparr>"
  let ?xs = "[sample_surface ''A'', sample_surface ''B'']"
  have model: "?model = {sample_surface ''A'', sample_surface ''B''}"
    by (simp add: member_surfaces_def sample_surface_def)
  have xs: "set ?xs = model_lease_set {sample_surface ''A''} ?model"
    unfolding model by (auto simp: model_lease_set_def)
  show ?thesis
    unfolding Let_def
    using model_is_leased_whole [of ?xs "{sample_surface ''A''}" ?model "sample_surface ''A''"
        "sample_surface ''A''" "sample_surface ''B''" "{sample_surface ''B''}" "sample_surface ''B''"
        "\<lambda>_. Some ?g" ?g "''y''" 5, OF xs]
    unfolding model by simp
qed

end
