(* ===== verification/LeaseRun.thy ===== *)
theory LeaseRun
  imports SurfaceLease
begin

section \<open>The lifetime of one job's lease\<close>

text \<open>
  \<^verbatim>\<open>services/run_surface_lease.py\<close>, \<^verbatim>\<open>services/model_surface_lease.py\<close>
  and the settlement of \<^verbatim>\<open>core/owned_tasks.py\<close>. What the tracker answers and whether
  the caller was cancelled meanwhile are inputs of each operation; the calls that reach the tracker
  are recorded in order in the lease's state.
\<close>

datatype exn = SurfaceLeaseRefused | SurfaceLeaseLost | CancelledError | ValueError | OtherError string

datatype 'a task_end = Done 'a | FailedTask exn | TaskCancelled

text \<open>An owned task is awaited to its end however often the caller is cancelled; a cancellation is
  then what the caller sees, even when the task failed.\<close>

fun finish_owned :: "'a task_end \<Rightarrow> bool \<Rightarrow> exn + 'a \<times> bool" where
  "finish_owned (Done v) cancelled = Inr (v, cancelled)"
| "finish_owned (FailedTask e) cancelled = (if cancelled then Inl CancelledError else Inl e)"
| "finish_owned TaskCancelled cancelled = Inl CancelledError"

definition settle :: "'a task_end \<Rightarrow> bool \<Rightarrow> exn + 'a" where
  "settle t cancelled =
     bind_sum (finish_owned t cancelled) (\<lambda>(v, was_cancelled).
       if was_cancelled then Inl CancelledError else Inr v)"

datatype port_call = AcquireCall "exn option" | RenewCall bool | ReleaseCall

record run_lease =
  rl_job_id :: string
  rl_surfaces :: "writable_surface set"
  rl_entered :: bool
  rl_active :: bool
  rl_calls :: "port_call list"

definition new_run_lease :: "string \<Rightarrow> writable_surface set \<Rightarrow> exn + run_lease" where
  "new_run_lease job_id surfaces =
     (if py_blank job_id \<or> surfaces = {} then Inl ValueError
      else Inr \<lparr>rl_job_id = job_id, rl_surfaces = surfaces, rl_entered = False, rl_active = False,
                rl_calls = []\<rparr>)"

definition lease_release :: "unit task_end \<Rightarrow> bool \<Rightarrow> run_lease \<Rightarrow> (exn + unit) \<times> run_lease" where
  "lease_release answer cancelled st =
     (settle answer cancelled, st\<lparr>rl_active := False, rl_calls := rl_calls st @ [ReleaseCall]\<rparr>)"

definition lease_enter ::
  "unit task_end \<Rightarrow> bool \<Rightarrow> unit task_end \<Rightarrow> bool \<Rightarrow> run_lease \<Rightarrow> (exn + unit) \<times> run_lease" where
  "lease_enter answer cancelled release_answer release_cancelled st =
     (if rl_entered st then (Inl ValueError, st)
      else
        let st = st\<lparr>rl_entered := True\<rparr> in
        case settle answer cancelled of
          Inl SurfaceLeaseRefused \<Rightarrow>
            (Inl SurfaceLeaseRefused,
             st\<lparr>rl_calls := rl_calls st @ [AcquireCall (Some SurfaceLeaseRefused)]\<rparr>)
        | Inl e \<Rightarrow>
            (case lease_release release_answer release_cancelled
                    (st\<lparr>rl_calls := rl_calls st @ [AcquireCall (Some e)]\<rparr>) of
               (Inl e', st) \<Rightarrow> (Inl e', st)
             | (Inr _, st) \<Rightarrow> (Inl e, st))
        | Inr _ \<Rightarrow>
            (Inr (), st\<lparr>rl_active := True, rl_calls := rl_calls st @ [AcquireCall None]\<rparr>))"

text \<open>A renewal is answered with the lease as it now stands or with nothing.\<close>

definition lease_renew :: "bool task_end \<Rightarrow> bool \<Rightarrow> run_lease \<Rightarrow> (exn + unit) \<times> run_lease" where
  "lease_renew answer cancelled st =
     (if \<not> rl_active st then (Inl SurfaceLeaseLost, st)
      else
        let st = st\<lparr>rl_active := False\<rparr> in
        case settle answer cancelled of
          Inl e \<Rightarrow> (Inl e, st\<lparr>rl_calls := rl_calls st @ [RenewCall False]\<rparr>)
        | Inr held \<Rightarrow>
            if \<not> held
            then (Inl SurfaceLeaseLost, st\<lparr>rl_calls := rl_calls st @ [RenewCall False]\<rparr>)
            else (Inr (), st\<lparr>rl_active := True, rl_calls := rl_calls st @ [RenewCall True]\<rparr>))"

definition lease_exit :: "unit task_end \<Rightarrow> bool \<Rightarrow> run_lease \<Rightarrow> (exn + unit) \<times> run_lease" where
  "lease_exit answer cancelled st = lease_release answer cancelled st"

subsection \<open>The context-manager protocol\<close>

text \<open>\<^verbatim>\<open>async with\<close> enters once, runs its body and calls the exit exactly when the
  entry returned. Operations may be called in any phase; outside the body they are refused by the
  lease itself.\<close>

datatype phase = Fresh | Inside | Outside

inductive lease_step :: "phase \<times> run_lease \<Rightarrow> phase \<times> run_lease \<Rightarrow> bool" where
  enter_ok: "lease_enter a c ra rc st = (Inr u, st') \<Longrightarrow> lease_step (Fresh, st) (Inside, st')"
| enter_raises: "lease_enter a c ra rc st = (Inl e, st') \<Longrightarrow> lease_step (Fresh, st) (Outside, st')"
| reenter: "p \<noteq> Fresh \<Longrightarrow> lease_enter a c ra rc st = (r, st') \<Longrightarrow> lease_step (p, st) (p, st')"
| renew: "lease_renew b c st = (r, st') \<Longrightarrow> lease_step (p, st) (p, st')"
| leave: "lease_exit a c st = (r, st') \<Longrightarrow> lease_step (Inside, st) (Outside, st')"

inductive lease_reachable :: "run_lease \<Rightarrow> phase \<times> run_lease \<Rightarrow> bool" for st0 where
  start: "lease_reachable st0 (Fresh, st0)"
| step: "lease_reachable st0 s \<Longrightarrow> lease_step s s' \<Longrightarrow> lease_reachable st0 s'"

definition renewals :: "nat \<Rightarrow> bool \<Rightarrow> port_call list" where
  "renewals n all_granted =
     replicate n (RenewCall True) @ (if all_granted then [] else [RenewCall False])"

definition lease_trace :: "phase \<Rightarrow> run_lease \<Rightarrow> bool" where
  "lease_trace p st \<longleftrightarrow>
     (case p of
        Fresh \<Rightarrow> \<not> rl_entered st \<and> \<not> rl_active st \<and> rl_calls st = []
      | Inside \<Rightarrow> rl_entered st \<and>
          (\<exists>n. rl_calls st = AcquireCall None # renewals n (rl_active st))
      | Outside \<Rightarrow> rl_entered st \<and> \<not> rl_active st \<and>
          (rl_calls st = [AcquireCall (Some SurfaceLeaseRefused)] \<or>
           (\<exists>e. e \<noteq> SurfaceLeaseRefused \<and> rl_calls st = [AcquireCall (Some e), ReleaseCall]) \<or>
           (\<exists>n granted. rl_calls st = AcquireCall None # renewals n granted @ [ReleaseCall])))"

lemma renewals_snoc:
  "renewals n True @ [RenewCall g] = renewals (if g then Suc n else n) g"
  by (simp add: renewals_def replicate_append_same)

lemma lease_enter_failed:
  assumes "settle a c = Inl e" and "e \<noteq> SurfaceLeaseRefused" and "\<not> rl_entered st"
  shows "lease_enter a c ra rc st =
    (case settle ra rc of Inl e' \<Rightarrow> Inl e' | Inr _ \<Rightarrow> Inl e,
     st\<lparr>rl_entered := True, rl_active := False,
        rl_calls := rl_calls st @ [AcquireCall (Some e), ReleaseCall]\<rparr>)"
  using assms
  by (cases e; cases "settle ra rc") (simp_all add: lease_enter_def lease_release_def Let_def)

lemma lease_enter_fresh:
  assumes "lease_trace Fresh st" and "lease_enter a c ra rc st = (r, st')"
  shows "lease_trace (case r of Inr _ \<Rightarrow> Inside | Inl _ \<Rightarrow> Outside) st' \<and>
    rl_surfaces st' = rl_surfaces st \<and> rl_job_id st' = rl_job_id st"
proof (cases "settle a c")
  case (Inr u)
  then have "r = Inr ()" "st' = st\<lparr>rl_entered := True, rl_active := True, rl_calls := [AcquireCall None]\<rparr>"
    using assms by (auto simp: lease_enter_def lease_trace_def Let_def)
  then show ?thesis by (auto simp: lease_trace_def renewals_def intro: exI [of _ 0])
next
  case (Inl e)
  show ?thesis
  proof (cases "e = SurfaceLeaseRefused")
    case True
    have "r = Inl SurfaceLeaseRefused"
        "st' = st\<lparr>rl_entered := True, rl_calls := [AcquireCall (Some SurfaceLeaseRefused)]\<rparr>"
      using assms unfolding lease_enter_def lease_trace_def Let_def Inl True by simp_all
    then show ?thesis using assms(1) by (simp add: lease_trace_def)
  next
    case False
    have "\<not> rl_entered st" "rl_calls st = []" using assms(1) by (simp_all add: lease_trace_def)
    then have "st' = st\<lparr>rl_entered := True, rl_active := False,
          rl_calls := [AcquireCall (Some e), ReleaseCall]\<rparr>"
        "r = (case settle ra rc of Inl e' \<Rightarrow> Inl e' | Inr _ \<Rightarrow> Inl e)"
      using assms(2) lease_enter_failed [OF Inl False] by simp_all
    then show ?thesis using False by (auto simp: lease_trace_def split: sum.splits)
  qed
qed

lemma lease_renew_trace:
  assumes "lease_trace p st" and "lease_renew b c st = (r, st')"
  shows "lease_trace p st' \<and> rl_surfaces st' = rl_surfaces st \<and> rl_job_id st' = rl_job_id st"
proof (cases "rl_active st")
  case False
  then show ?thesis using assms by (simp add: lease_renew_def)
next
  case True
  then obtain n where n: "p = Inside" "rl_entered st" "rl_calls st = AcquireCall None # renewals n True"
    using assms(1) by (auto simp: lease_trace_def split: phase.splits)
  have calls: "rl_calls st @ [RenewCall g] = AcquireCall None # renewals (if g then Suc n else n) g" for g
    unfolding n(3) append_Cons renewals_snoc ..
  obtain g where "st' = st\<lparr>rl_active := g, rl_calls := rl_calls st @ [RenewCall g]\<rparr>"
    using assms(2) True by (cases "settle b c") (auto simp: lease_renew_def Let_def split: if_splits)
  then have "st' = st\<lparr>rl_active := g, rl_calls := AcquireCall None # renewals (if g then Suc n else n) g\<rparr>"
    by (simp add: calls)
  then show ?thesis using n(1,2) by (auto simp: lease_trace_def)
qed

lemma lease_exit_trace:
  assumes "lease_trace Inside st" and "lease_exit a c st = (r, st')"
  shows "lease_trace Outside st' \<and> rl_surfaces st' = rl_surfaces st \<and> rl_job_id st' = rl_job_id st"
proof -
  obtain n where "rl_entered st" "rl_calls st = AcquireCall None # renewals n (rl_active st)"
    using assms(1) by (auto simp: lease_trace_def)
  moreover have "st' = st\<lparr>rl_active := False, rl_calls := rl_calls st @ [ReleaseCall]\<rparr>"
    using assms(2) by (simp add: lease_exit_def lease_release_def)
  ultimately show ?thesis unfolding lease_trace_def by simp blast
qed

lemma lease_reenter:
  "rl_entered st \<Longrightarrow> lease_enter a c ra rc st = (r, st') \<Longrightarrow> st' = st \<and> r = Inl ValueError"
  by (simp add: lease_enter_def)

text \<open>Claim C23. One job's lease acquires at most once and always lets go: in every reachable state the
  calls that reached the tracker are nothing before entry; inside, the one granted acquisition
  followed by granted renewals, with at most one failed renewal, after which the lease is no longer
  active and renews no more; and after the block either the one refused acquisition alone, or an
  acquisition that failed otherwise followed by one withdrawal, or the granted one with its renewals
  followed by exactly one release, with nothing after it. The set and the holder never change.\<close>

theorem lease_lifecycle:
  assumes "new_run_lease job surfaces = Inr st0" and "lease_reachable st0 (p, st)"
  shows "lease_trace p st \<and> rl_surfaces st = surfaces \<and> rl_job_id st = job \<and>
    length (filter (\<lambda>call. case call of AcquireCall _ \<Rightarrow> True | _ \<Rightarrow> False) (rl_calls st)) \<le> 1 \<and>
    (rl_active st \<longrightarrow> p = Inside)"
proof -
  have init: "lease_trace Fresh st0 \<and> rl_surfaces st0 = surfaces \<and> rl_job_id st0 = job"
    using assms(1) by (auto simp: new_run_lease_def lease_trace_def split: if_splits)
  have "lease_trace (fst s) (snd s) \<and> rl_surfaces (snd s) = surfaces \<and> rl_job_id (snd s) = job"
    if "lease_reachable st0 s" for s
    using that
  proof (induction rule: lease_reachable.induct)
    case start
    then show ?case using init by simp
  next
    case (step s s')
    obtain p st p' st' where s: "s = (p, st)" "s' = (p', st')" by (cases s; cases s')
    have IH: "lease_trace p st" "rl_surfaces st = surfaces" "rl_job_id st = job"
      using step.IH s by auto
    have entered: "rl_entered st" if "p \<noteq> Fresh"
      using IH(1) that by (cases p) (auto simp: lease_trace_def)
    from step.hyps(2)[unfolded s] show ?case
    proof (cases rule: lease_step.cases)
      case (enter_ok a c ra rc u)
      then show ?thesis using lease_enter_fresh IH s by fastforce
    next
      case (enter_raises a c ra rc e)
      then show ?thesis using lease_enter_fresh IH s by fastforce
    next
      case (reenter a c ra rc r)
      then show ?thesis using lease_reenter entered IH s by fastforce
    next
      case (renew b c r)
      then show ?thesis using lease_renew_trace IH s by fastforce
    next
      case (leave a c r)
      then show ?thesis using lease_exit_trace IH s by fastforce
    qed
  qed
  from this [OF assms(2)] have t: "lease_trace p st" "rl_surfaces st = surfaces" "rl_job_id st = job"
    by simp_all
  have none: "filter (\<lambda>call. case call of AcquireCall _ \<Rightarrow> True | _ \<Rightarrow> False) (renewals n g) = []" for n g
    by (simp add: renewals_def)
  show ?thesis
    using t none by (cases p) (auto simp: lease_trace_def)
qed

theorem lease_lifecycle_witness:
  "let st0 = \<lparr>rl_job_id = ''J'', rl_surfaces = {sample_surface ''K''}, rl_entered = False,
               rl_active = False, rl_calls = []\<rparr>;
       st = st0\<lparr>rl_entered := True, rl_calls := [AcquireCall None, RenewCall True, ReleaseCall]\<rparr> in
   lease_reachable st0 (Outside, st) \<and> lease_trace Outside st"
proof -
  let ?st0 = "\<lparr>rl_job_id = ''J'', rl_surfaces = {sample_surface ''K''}, rl_entered = False,
      rl_active = False, rl_calls = []\<rparr>"
  let ?st1 = "?st0\<lparr>rl_entered := True, rl_active := True, rl_calls := [AcquireCall None]\<rparr>"
  let ?st2 = "?st1\<lparr>rl_calls := [AcquireCall None, RenewCall True]\<rparr>"
  let ?st3 = "?st2\<lparr>rl_active := False, rl_calls := [AcquireCall None, RenewCall True, ReleaseCall]\<rparr>"
  have new: "new_run_lease ''J'' {sample_surface ''K''} = Inr ?st0"
    by (simp add: new_run_lease_def py_blank_def py_isspace_def)
  have "lease_enter (Done ()) False (Done ()) False ?st0 = (Inr (), ?st1)"
    by (simp add: lease_enter_def settle_def Let_def)
  then have "lease_step (Fresh, ?st0) (Inside, ?st1)" by (rule enter_ok)
  then have s1: "lease_reachable ?st0 (Inside, ?st1)" by (rule step [OF start])
  have "lease_renew (Done True) False ?st1 = (Inr (), ?st2)"
    by (simp add: lease_renew_def settle_def Let_def)
  then have "lease_step (Inside, ?st1) (Inside, ?st2)" by (rule renew)
  then have s2: "lease_reachable ?st0 (Inside, ?st2)" by (rule step [OF s1])
  have "lease_exit (Done ()) False ?st2 = (Inr (), ?st3)"
    by (simp add: lease_exit_def lease_release_def settle_def)
  then have "lease_step (Inside, ?st2) (Outside, ?st3)" by (rule leave)
  then have s3: "lease_reachable ?st0 (Outside, ?st3)" by (rule step [OF s2])
  show ?thesis
    unfolding Let_def using s3 lease_lifecycle [OF new s3] by simp
qed

subsection \<open>The lease of a marked model\<close>

text \<open>\<^verbatim>\<open>services/model_surface_lease.py\<close>: the model's extent is read when the lease is
  entered, and the resolved set is handed to the lease above. Members and criteria are named by their
  issue keys; the two reads are arguments.\<close>

record model_lease =
  ml_classification :: "string option"
  ml_job_id :: string
  ml_surfaces :: "writable_surface set"
  ml_lease :: "run_lease option"

definition new_model_lease ::
  "string option \<Rightarrow> string \<Rightarrow> writable_surface set \<Rightarrow> exn + model_lease" where
  "new_model_lease classification job_id surfaces =
     (if py_blank job_id \<or> surfaces = {} then Inl ValueError
      else if (case classification of None \<Rightarrow> False | Some c \<Rightarrow> py_blank c) then Inl ValueError
      else Inr \<lparr>ml_classification = classification, ml_job_id = job_id, ml_surfaces = surfaces,
                ml_lease = None\<rparr>)"

definition model_resolved ::
  "(string \<Rightarrow> exn + string list) \<Rightarrow> (string \<Rightarrow> exn + string list) \<Rightarrow> model_lease \<Rightarrow>
     exn + writable_surface set" where
  "model_resolved read_labeled_issues read_criteria m =
     (case ml_classification m of
        None \<Rightarrow> Inr (ml_surfaces m)
      | Some classification \<Rightarrow>
          bind_sum (read_labeled_issues classification) (\<lambda>members.
          bind_sum (read_each read_criteria members) (\<lambda>criteria.
            Inr (model_lease_set (ml_surfaces m) (member_surfaces members (dict_of fst snd criteria))))))"

definition model_enter ::
  "(string \<Rightarrow> exn + string list) \<Rightarrow> (string \<Rightarrow> exn + string list) \<Rightarrow>
   unit task_end \<Rightarrow> bool \<Rightarrow> unit task_end \<Rightarrow> bool \<Rightarrow> model_lease \<Rightarrow> (exn + unit) \<times> model_lease" where
  "model_enter read_labeled read_criteria answer cancelled release_answer release_cancelled m =
     (case bind_sum (model_resolved read_labeled read_criteria m) (new_run_lease (ml_job_id m)) of
        Inl e \<Rightarrow> (Inl e, m)
      | Inr lease \<Rightarrow>
          (let (r, lease) = lease_enter answer cancelled release_answer release_cancelled lease in
           (r, m\<lparr>ml_lease := Some lease\<rparr>)))"

definition model_exit :: "unit task_end \<Rightarrow> bool \<Rightarrow> model_lease \<Rightarrow> (exn + unit) \<times> run_lease option \<times> model_lease" where
  "model_exit answer cancelled m =
     (case ml_lease m of
        None \<Rightarrow> (Inr (), None, m)
      | Some lease \<Rightarrow>
          (let (r, lease) = lease_exit answer cancelled lease in
           (r, Some lease, m\<lparr>ml_lease := None\<rparr>)))"

lemma model_enter_takes_model:
  assumes "model_enter rl rc a c ra rcc m = (Inr u, m')"
  shows "\<exists>surfaces lease. model_resolved rl rc m = Inr surfaces \<and> ml_lease m' = Some lease \<and>
    rl_surfaces lease = surfaces \<and> ml_surfaces m \<subseteq> surfaces \<and> lease_trace Inside lease"
proof -
  obtain surfaces lease0 lease where r: "model_resolved rl rc m = Inr surfaces"
      "new_run_lease (ml_job_id m) surfaces = Inr lease0"
      "lease_enter a c ra rcc lease0 = (Inr u, lease)" "ml_lease m' = Some lease"
    using assms by (auto simp: model_enter_def result_simps split: sum.splits prod.splits)
  have "lease_trace Fresh lease0 \<and> rl_surfaces lease0 = surfaces"
    using r(2) by (auto simp: new_run_lease_def lease_trace_def split: if_splits)
  then have "lease_trace Inside lease \<and> rl_surfaces lease = surfaces"
    using lease_enter_fresh [OF _ r(3)] by auto
  moreover have "ml_surfaces m \<subseteq> surfaces"
    using r(1) by (auto simp: model_resolved_def model_lease_set_def result_simps
      split: option.splits if_splits)
  ultimately show ?thesis using r by blast
qed

end
