(* ===== verification/Criteria.thy ===== *)
theory Criteria
  imports Prelude "HOL-Library.Multiset"
begin

section \<open>Acceptance criteria: the data, its validators and the minted identity\<close>

text \<open>
  \<^verbatim>\<open>types/domain/criteria.py\<close>, \<^verbatim>\<open>types/domain/accept.py\<close>,
  \<^verbatim>\<open>domain/criteria.py\<close> and the fan-in report of
  \<^verbatim>\<open>types/domain/criteria.py\<close>.

  A schema model is a \<open>record\<close>; the constraints its fields and validators carry are
  the predicate \<open>valid_...\<close> beside it, which is what constructing the model checks. A
  constructor that is refused is the error value of the operation that called it.
\<close>

type_synonym criterion_id = string

definition CRITERION_ID_PREFIX :: string where
  "CRITERION_ID_PREFIX = ''AC-''"

fun criterion_id_pattern :: "string \<Rightarrow> bool" where
  "criterion_id_pattern s =
     (take 3 s = CRITERION_ID_PREFIX \<and>
      (case drop 3 s of
         [] \<Rightarrow> False
       | c # cs \<Rightarrow> is_digit c \<and> c \<noteq> digit 0 \<and> list_all is_digit cs))"

subsection \<open>Verdicts, repairs, flags\<close>

datatype criterion_verdict = Feasible | Infeasible | Unverifiable

datatype repair_kind = NoRepair | CriterionText | EnvironmentSupply

fun repair_for_verdict :: "criterion_verdict \<Rightarrow> repair_kind" where
  "repair_for_verdict Feasible = NoRepair"
| "repair_for_verdict Infeasible = CriterionText"
| "repair_for_verdict Unverifiable = EnvironmentSupply"

fun blank :: "string option \<Rightarrow> bool" where
  "blank None = True"
| "blank (Some s) = py_blank s"

datatype criterion_flag = VacuousAtBase | LiteralPinning

datatype limit_arm = NotALimit | ResourceAbsent | Uneconomic

record derived_feasibility =
  df_verdict :: criterion_verdict
  df_limit_arm :: limit_arm
  df_flags :: "criterion_flag list"

datatype forbidden_criterion_class =
  PullRequestBody | CiStatus | MergeState | ExecutionGraded | LiteralCount |
  TransientPipelineState

record base_demonstration =
  bd_command :: string
  bd_satisfied_at_base :: bool

record cost_measurement =
  cm_observed :: string
  cm_affordable :: bool

record cost_claim =
  cc_assertion :: string
  cc_measurement :: "cost_measurement option"

record generated_criterion =
  gc_id :: criterion_id
  gc_text :: string

record drafted_criterion =
  dc_text :: string

subsection \<open>Findings\<close>

record finding_evidence =
  fe_verdict :: criterion_verdict
  fe_smallest_repair :: repair_kind
  fe_refutation :: "string option"
  fe_missing_resource :: "string option"
  fe_cost_claim :: "cost_claim option"
  fe_base_demonstration :: "base_demonstration option"
  fe_pinned_literals :: "string list"
  fe_forbidden_class :: "forbidden_criterion_class option"
  fe_undeclared_switch_arms :: "string list"

datatype grounds_failure =
  NamesRepair criterion_verdict repair_kind repair_kind
| RequiresRefutation
| RequiresMissingResource

definition verdict_grounds :: "('a) finding_evidence_scheme \<Rightarrow> grounds_failure list" where
  "verdict_grounds f =
     (let required = repair_for_verdict (fe_verdict f) in
      (if fe_smallest_repair f \<noteq> required
       then [NamesRepair (fe_verdict f) required (fe_smallest_repair f)] else []) @
      (if fe_verdict f = Infeasible \<and> blank (fe_refutation f)
       then [RequiresRefutation] else []) @
      (if fe_verdict f = Unverifiable \<and> blank (fe_missing_resource f)
       then [RequiresMissingResource] else []))"

record criterion_finding = finding_evidence +
  cf_criterion_id :: criterion_id

definition valid_finding :: "criterion_finding \<Rightarrow> bool" where
  "valid_finding f \<longleftrightarrow> criterion_id_pattern (cf_criterion_id f) \<and> verdict_grounds f = []"

record contradiction =
  co_criterion_ids :: "criterion_id list"
  co_explanation :: string

definition valid_contradiction :: "contradiction \<Rightarrow> bool" where
  "valid_contradiction c \<longleftrightarrow>
     2 \<le> length (co_criterion_ids c) \<and> list_all criterion_id_pattern (co_criterion_ids c) \<and>
     co_explanation c \<noteq> []"

record criteria_validation_output =
  vo_findings :: "criterion_finding list"
  vo_contradictions :: "contradiction list"

definition valid_validation_output :: "criteria_validation_output \<Rightarrow> bool" where
  "valid_validation_output out \<longleftrightarrow>
     vo_findings out \<noteq> [] \<and> list_all valid_finding (vo_findings out) \<and>
     list_all valid_contradiction (vo_contradictions out)"

subsection \<open>The sweep's record and the persisted criteria\<close>

record criterion_feasibility =
  fs_criterion_id :: criterion_id
  fs_verdict :: criterion_verdict
  fs_refutation :: "string option"
  fs_missing_resource :: "string option"
  fs_cost_measurement :: "cost_measurement option"
  fs_flags :: "criterion_flag list"
  fs_forbidden_class :: "forbidden_criterion_class option"
  fs_undeclared_switch_arms :: "string list"

definition valid_feasibility :: "criterion_feasibility \<Rightarrow> bool" where
  "valid_feasibility v \<longleftrightarrow> criterion_id_pattern (fs_criterion_id v)"

record conjunction_verdict =
  cj_satisfiable :: bool
  cj_contradictions :: "contradiction list"

record criteria_validation =
  va_verdicts :: "criterion_feasibility list"
  va_conjunction :: conjunction_verdict

definition valid_validation :: "criteria_validation \<Rightarrow> bool" where
  "valid_validation v \<longleftrightarrow> va_verdicts v \<noteq> [] \<and> list_all valid_feasibility (va_verdicts v)"

record validated_criterion =
  vc_id :: criterion_id
  vc_text :: string
  vc_feasibility :: criterion_feasibility

record tracker_criterion =
  tc_id :: criterion_id
  tc_text :: string

datatype execution_criterion = Validated validated_criterion | Tracker tracker_criterion

fun ec_id :: "execution_criterion \<Rightarrow> criterion_id" where
  "ec_id (Validated c) = vc_id c"
| "ec_id (Tracker c) = tc_id c"

fun ec_text :: "execution_criterion \<Rightarrow> string" where
  "ec_text (Validated c) = vc_text c"
| "ec_text (Tracker c) = tc_text c"

definition valid_criterion :: "execution_criterion \<Rightarrow> bool" where
  "valid_criterion c \<longleftrightarrow> has_text (ec_id c) \<and> ec_text c \<noteq> []"

record tracker_criterion_set =
  ts_criteria :: "tracker_criterion list"

record criteria_artifact =
  ca_criteria :: "validated_criterion list"
  ca_conjunction :: conjunction_verdict

record criterion_failure =
  fl_criterion_id :: criterion_id
  fl_text :: string
  fl_reasoning :: string

record fan_in_report =
  fr_missing_ids :: "criterion_id list"
  fr_unknown_ids :: "criterion_id list"
  fr_duplicate_ids :: "criterion_id list"
  fr_dispatched_count :: nat
  fr_attempts :: nat

definition valid_fan_in_report :: "fan_in_report \<Rightarrow> bool" where
  "valid_fan_in_report r \<longleftrightarrow>
     list_all has_text (fr_missing_ids r) \<and> list_all has_text (fr_unknown_ids r) \<and>
     list_all has_text (fr_duplicate_ids r) \<and> 1 \<le> fr_dispatched_count r \<and> 1 \<le> fr_attempts r"

record contract_breach =
  cb_breach_class :: string
  cb_detail :: string

record contract_correction =
  cr_breaches :: "contract_breach list"
  cr_attempts :: nat

subsection \<open>The accept gate's vocabulary\<close>

datatype accept_verdict_kind = Accepted | ShipWithFlags | Rejected

record sherlock_flag =
  sf_criterion_id :: "criterion_id option"
  sf_concern :: string

record flagged_item =
  fi_criterion_id :: "criterion_id option"
  fi_summary :: string

subsection \<open>Minting\<close>

datatype criteria_error =
  ValidationError
| PositionError int
| KeyError criterion_id

definition mint_criterion_id :: "int \<Rightarrow> criteria_error + criterion_id" where
  "mint_criterion_id index =
     (if index < 1 then Inl (PositionError index)
      else Inr (CRITERION_ID_PREFIX @ decimal (nat index)))"

fun mint_from :: "nat \<Rightarrow> drafted_criterion list \<Rightarrow> criteria_error + generated_criterion list" where
  "mint_from index [] = Inr []"
| "mint_from index (d # ds) =
     bind_sum (mint_criterion_id (int index)) (\<lambda>i.
       bind_sum (mint_from (Suc index) ds) (\<lambda>rest.
         Inr (\<lparr>gc_id = i, gc_text = dc_text d\<rparr> # rest)))"

definition mint_criteria :: "drafted_criterion list \<Rightarrow> criteria_error + generated_criterion list" where
  "mint_criteria drafted = mint_from 1 drafted"

definition criterion_set :: "(string, string) pydict \<Rightarrow> criteria_error + tracker_criterion_set" where
  "criterion_set checks =
     (let criteria = map (\<lambda>(key, check). \<lparr>tc_id = key, tc_text = check\<rparr>) checks in
      if criteria \<noteq> [] \<and> list_all (\<lambda>c. has_text (tc_id c) \<and> tc_text c \<noteq> []) criteria
      then Inr \<lparr>ts_criteria = criteria\<rparr> else Inl ValidationError)"

fun pair_verdicts ::
  "(criterion_id, criterion_feasibility) pydict \<Rightarrow> generated_criterion list
     \<Rightarrow> criteria_error + validated_criterion list" where
  "pair_verdicts verdicts [] = Inr []"
| "pair_verdicts verdicts (c # cs) =
     (case map_of verdicts (gc_id c) of
        None \<Rightarrow> Inl (KeyError (gc_id c))
      | Some v \<Rightarrow>
          bind_sum (pair_verdicts verdicts cs) (\<lambda>rest.
            Inr (\<lparr>vc_id = gc_id c, vc_text = gc_text c, vc_feasibility = v\<rparr> # rest)))"

definition verdicts_by_id ::
  "criterion_feasibility list \<Rightarrow> (criterion_id, criterion_feasibility) pydict" where
  "verdicts_by_id vs = dict_of fs_criterion_id (\<lambda>v. v) vs"

definition build_artifact ::
  "generated_criterion list \<Rightarrow> criteria_validation \<Rightarrow> criteria_error + criteria_artifact" where
  "build_artifact criteria validation =
     bind_sum (pair_verdicts (verdicts_by_id (va_verdicts validation)) criteria) (\<lambda>cs.
       if cs = [] then Inl ValidationError
       else Inr \<lparr>ca_criteria = cs, ca_conjunction = va_conjunction validation\<rparr>)"

subsection \<open>Laws of the minted identity\<close>

lemma mint_criterion_id_ok:
  "0 < n \<Longrightarrow> mint_criterion_id (int n) = Inr (CRITERION_ID_PREFIX @ decimal n)"
  by (simp add: mint_criterion_id_def)

lemma minted_matches:
  assumes "0 < n"
  shows "criterion_id_pattern (CRITERION_ID_PREFIX @ decimal n)"
proof -
  obtain c cs where d: "decimal n = c # cs" "c \<noteq> digit 0"
    using decimal_leading [OF assms] by (cases "decimal n") auto
  have "list_all is_digit (c # cs)" using decimal_digits [of n] d by simp
  then show ?thesis using d by (simp add: CRITERION_ID_PREFIX_def)
qed

lemma minted_has_text: "has_text (CRITERION_ID_PREFIX @ s)"
  by (rule has_text_append) (simp add: CRITERION_ID_PREFIX_def has_text_def rx_isspace_def Let_def)

lemma pattern_has_text: "criterion_id_pattern s \<Longrightarrow> has_text s"
proof -
  assume "criterion_id_pattern s"
  then have "s = CRITERION_ID_PREFIX @ drop 3 s" by (metis append_take_drop_id criterion_id_pattern.simps)
  then show ?thesis using minted_has_text by metis
qed

lemma mint_from_ok:
  assumes "0 < k"
  shows "\<exists>cs. mint_from k ds = Inr cs \<and> map gc_text cs = map dc_text ds \<and>
           (\<forall>c. c \<in> set cs \<longrightarrow> (\<exists>i \<ge> k. gc_id c = CRITERION_ID_PREFIX @ decimal i)) \<and>
           distinct (map gc_id cs)"
  using assms
proof (induction ds arbitrary: k)
  case Nil
  then show ?case by simp
next
  case (Cons d ds)
  obtain cs where cs: "mint_from (Suc k) ds = Inr cs" "map gc_text cs = map dc_text ds"
      "\<forall>c. c \<in> set cs \<longrightarrow> (\<exists>i \<ge> Suc k. gc_id c = CRITERION_ID_PREFIX @ decimal i)"
      "distinct (map gc_id cs)"
    using Cons.IH [of "Suc k"] by auto
  let ?c = "\<lparr>gc_id = CRITERION_ID_PREFIX @ decimal k, gc_text = dc_text d\<rparr>"
  have "mint_from k (d # ds) = Inr (?c # cs)"
    using Cons.prems cs by (simp add: mint_criterion_id_ok)
  moreover have "gc_id ?c \<notin> gc_id ` set cs"
    using cs(3) by (fastforce simp: decimal_inject)
  moreover have "\<exists>i \<ge> k. gc_id c = CRITERION_ID_PREFIX @ decimal i" if "c \<in> set (?c # cs)" for c
    using that cs(3) by (auto dest: Suc_leD)
  ultimately show ?case using cs by auto
qed

text \<open>Minting is total on every draft, keeps the texts in emission order, and gives
  identities that all match the one id pattern and are pairwise different, so no criterion of an
  authored set can be mistaken for another.\<close>

lemma minted_criteria_distinct:
  "\<exists>cs. mint_criteria ds = Inr cs \<and> map gc_text cs = map dc_text ds \<and>
        (\<forall>c. c \<in> set cs \<longrightarrow> criterion_id_pattern (gc_id c)) \<and> distinct (map gc_id cs)"
proof -
  obtain cs where cs: "mint_from 1 ds = Inr cs" "map gc_text cs = map dc_text ds"
      "\<forall>c. c \<in> set cs \<longrightarrow> (\<exists>i \<ge> 1. gc_id c = CRITERION_ID_PREFIX @ decimal i)"
      "distinct (map gc_id cs)"
    using mint_from_ok [of 1 ds] by auto
  have "criterion_id_pattern (gc_id c)" if c: "c \<in> set cs" for c
  proof -
    obtain i where "i \<ge> 1" "gc_id c = CRITERION_ID_PREFIX @ decimal i" using cs(3) c by auto
    then show ?thesis using minted_matches [of i] by simp
  qed
  then show ?thesis using cs unfolding mint_criteria_def by blast
qed

end
