(* ===== verification/FanIn.thy ===== *)
theory FanIn
  imports Criteria
begin

section \<open>The permutation guard of the two fan-in channels\<close>

text \<open>
  \<^verbatim>\<open>domain/fan_in.py\<close>: the one construction site of the fan-in error. The two
  channels that answer to it, the validator's findings and the evaluator's results, each compute
  the missing, duplicate and unknown ids of what came back; the locale \<open>fan_in_channel\<close>
  states what such a computation promises and derives from it, once, that the guard passes exactly
  the permutations of the dispatched ids.
\<close>

record criteria_fan_in_error =
  fe_missing_ids :: "criterion_id list"
  fe_duplicate_ids :: "criterion_id list"
  fe_unknown_ids :: "criterion_id list"

definition fan_in_breach ::
  "criterion_id list \<Rightarrow> criterion_id list \<Rightarrow> criterion_id list \<Rightarrow> criteria_fan_in_error option" where
  "fan_in_breach missing duplicate unknown =
     (if missing = [] \<and> duplicate = [] \<and> unknown = [] then None
      else Some \<lparr>fe_missing_ids = missing, fe_duplicate_ids = duplicate, fe_unknown_ids = unknown\<rparr>)"

lemma fan_in_breach_None [simp]:
  "fan_in_breach m d u = None \<longleftrightarrow> m = [] \<and> d = [] \<and> u = []"
  by (simp add: fan_in_breach_def)

lemma fan_in_breach_empty [simp]: "fan_in_breach [] [] [] = None"
  by simp

lemma fan_in_breach_Some:
  "fan_in_breach m d u = Some e \<Longrightarrow>
     fe_missing_ids e = m \<and> fe_duplicate_ids e = d \<and> fe_unknown_ids e = u"
  by (auto simp: fan_in_breach_def split: if_splits)

locale fan_in_channel =
  fixes missing_of :: "criterion_id list \<Rightarrow> criterion_id list \<Rightarrow> criterion_id list"
    and duplicates_of :: "criterion_id list \<Rightarrow> criterion_id list \<Rightarrow> criterion_id list"
    and unknown_of :: "criterion_id list \<Rightarrow> criterion_id list \<Rightarrow> criterion_id list"
  assumes missing_set: "set (missing_of dispatched answered) = set dispatched - set answered"
    and unknown_set: "set (unknown_of dispatched answered) = set answered - set dispatched"
    and duplicates_Nil:
      "duplicates_of dispatched answered = [] \<longleftrightarrow>
         distinct (filter (\<lambda>i. i \<in> set dispatched) answered)"
begin

definition guard :: "criterion_id list \<Rightarrow> criterion_id list \<Rightarrow> criteria_fan_in_error option" where
  "guard dispatched answered =
     fan_in_breach (missing_of dispatched answered) (duplicates_of dispatched answered)
       (unknown_of dispatched answered)"

lemma guard_sets:
  "guard dispatched answered = None \<longleftrightarrow>
     set answered = set dispatched \<and> distinct answered"
proof -
  have "missing_of dispatched answered = [] \<longleftrightarrow> set dispatched \<subseteq> set answered"
    unfolding set_empty [symmetric] missing_set by (rule Diff_eq_empty_iff)
  moreover have "unknown_of dispatched answered = [] \<longleftrightarrow> set answered \<subseteq> set dispatched"
    unfolding set_empty [symmetric] unknown_set by (rule Diff_eq_empty_iff)
  moreover have "filter (\<lambda>i. i \<in> set dispatched) answered = answered"
    if "set answered \<subseteq> set dispatched"
    using that by (auto intro: filter_True)
  ultimately show ?thesis
    unfolding guard_def fan_in_breach_None duplicates_Nil by auto
qed

lemma guard_permutation:
  assumes "distinct dispatched"
  shows "guard dispatched answered = None \<longleftrightarrow> mset answered = mset dispatched"
  unfolding guard_sets using assms
  by (metis mset_eq_imp_distinct_iff mset_eq_setD set_eq_iff_mset_eq_distinct)

lemma guard_length:
  assumes "distinct dispatched" and "guard dispatched answered = None"
  shows "length answered = length dispatched"
  using assms guard_permutation mset_eq_length by blast

end

subsection \<open>Seating answers on dispatched ids\<close>

text \<open>
  The loop both channels run over what came back: an answer for an id nobody dispatched is
  unknown, a second answer for one id is a duplicate and the first one keeps the seat.
\<close>

type_synonym 'f seats = "(criterion_id, 'f) pydict \<times> criterion_id list \<times> criterion_id list"

definition seat_step ::
  "('f \<Rightarrow> criterion_id) \<Rightarrow> criterion_id list \<Rightarrow> 'f seats \<Rightarrow> 'f \<Rightarrow> 'f seats" where
  "seat_step key dispatched = (\<lambda>(seen, duplicates, unknown) answer.
     if key answer \<notin> set dispatched then (seen, duplicates, unknown @ [key answer])
     else if map_of seen (key answer) \<noteq> None
       then (seen, duplicates @ [key answer], unknown)
     else (AList.update (key answer) answer seen, duplicates, unknown))"

definition seat_answers ::
  "('f \<Rightarrow> criterion_id) \<Rightarrow> criterion_id list \<Rightarrow> 'f list \<Rightarrow> 'f seats" where
  "seat_answers key dispatched answers = foldl (seat_step key dispatched) ([], [], []) answers"

fun repeats :: "'a set \<Rightarrow> 'a list \<Rightarrow> 'a list" where
  "repeats S [] = []"
| "repeats S (x # xs) = (if x \<in> S then x # repeats S xs else repeats (insert x S) xs)"

lemma repeats_Nil: "repeats S xs = [] \<longleftrightarrow> distinct xs \<and> set xs \<inter> S = {}"
  by (induction xs arbitrary: S) auto

lemma set_repeats: "S = {} \<Longrightarrow> set (repeats S xs) \<subseteq> set xs"
proof -
  have "set (repeats T xs) \<subseteq> set xs" for T by (induction xs arbitrary: T) auto
  then show ?thesis by blast
qed

lemma in_repeats: "x \<in> set (repeats S xs) \<longleftrightarrow>
    (x \<in> S \<and> x \<in> set xs) \<or> (x \<notin> S \<and> 2 \<le> length (filter (\<lambda>y. y = x) xs))"
proof (induction xs arbitrary: S)
  case Nil
  then show ?case by simp
next
  case (Cons a xs)
  have "x \<in> set xs \<longleftrightarrow> filter (\<lambda>y. y = x) xs \<noteq> []" by (auto simp: filter_empty_conv)
  then have "x \<in> set xs \<longleftrightarrow> 1 \<le> length (filter (\<lambda>y. y = x) xs)"
    by (cases "filter (\<lambda>y. y = x) xs") auto
  then show ?case using Cons.IH by auto
qed

lemma repeats_dispatched:
  "i \<in> set (repeats {} (filter (\<lambda>i. i \<in> S) (map key xs))) \<longleftrightarrow>
     i \<in> S \<and> 2 \<le> length (filter (\<lambda>r. key r = i) xs)"
proof -
  have "length (filter (\<lambda>y. y = i) (filter (\<lambda>i. i \<in> S) (map key xs))) =
      (if i \<in> S then length (filter (\<lambda>r. key r = i) xs) else 0)"
    by (induction xs) (auto simp del: filter_filter)
  then show ?thesis unfolding in_repeats by auto
qed

lemma seat_step_cases:
  "key a \<notin> set dispatched \<Longrightarrow>
     seat_step key dispatched (seen, duplicates, unknown) a = (seen, duplicates, unknown @ [key a])"
  "key a \<in> set dispatched \<Longrightarrow> map_of seen (key a) = Some b \<Longrightarrow>
     seat_step key dispatched (seen, duplicates, unknown) a = (seen, duplicates @ [key a], unknown)"
  "key a \<in> set dispatched \<Longrightarrow> map_of seen (key a) = None \<Longrightarrow>
     seat_step key dispatched (seen, duplicates, unknown) a =
       (AList.update (key a) a seen, duplicates, unknown)"
  by (simp_all add: seat_step_def)

lemma seat_fold:
  "\<exists>seen'. foldl (seat_step key dispatched) (seen, duplicates, unknown) answers =
     (seen',
      duplicates @ repeats (set (dict_keys seen))
        (filter (\<lambda>i. i \<in> set dispatched) (map key answers)),
      unknown @ filter (\<lambda>i. i \<notin> set dispatched) (map key answers)) \<and>
     (\<forall>i. map_of seen' i =
        (if map_of seen i = None \<and> i \<in> set dispatched then find (\<lambda>a. key a = i) answers
         else map_of seen i))"
proof (induction answers arbitrary: seen duplicates unknown)
  case Nil
  then show ?case by simp
next
  case (Cons a answers)
  consider (foreign) "key a \<notin> set dispatched"
    | (again) b where "key a \<in> set dispatched" "map_of seen (key a) = Some b"
    | (first) "key a \<in> set dispatched" "map_of seen (key a) = None"
    by (cases "map_of seen (key a)") auto
  then show ?case
  proof cases
    case foreign
    obtain seen' where s: "foldl (seat_step key dispatched) (seen, duplicates, unknown @ [key a])
        answers = (seen', duplicates @ repeats (set (dict_keys seen))
          (filter (\<lambda>i. i \<in> set dispatched) (map key answers)),
          (unknown @ [key a]) @ filter (\<lambda>i. i \<notin> set dispatched) (map key answers))"
      "\<forall>i. map_of seen' i = (if map_of seen i = None \<and> i \<in> set dispatched
         then find (\<lambda>a. key a = i) answers else map_of seen i)"
      using Cons.IH by blast
    have "map_of seen' i = (if map_of seen i = None \<and> i \<in> set dispatched
         then find (\<lambda>a. key a = i) (a # answers) else map_of seen i)" for i
      using foreign s(2) by auto
    then show ?thesis using foreign s(1) by (simp add: seat_step_cases)
  next
    case again
    then have k: "key a \<in> fst ` set seen" by (auto dest: dict_get_keys)
    obtain seen' where s: "foldl (seat_step key dispatched) (seen, duplicates @ [key a], unknown)
        answers = (seen', (duplicates @ [key a]) @ repeats (set (dict_keys seen))
          (filter (\<lambda>i. i \<in> set dispatched) (map key answers)),
          unknown @ filter (\<lambda>i. i \<notin> set dispatched) (map key answers))"
      "\<forall>i. map_of seen' i = (if map_of seen i = None \<and> i \<in> set dispatched
         then find (\<lambda>a. key a = i) answers else map_of seen i)"
      using Cons.IH by blast
    have "map_of seen' i = (if map_of seen i = None \<and> i \<in> set dispatched
         then find (\<lambda>a. key a = i) (a # answers) else map_of seen i)" for i
      using again s(2) by auto
    then show ?thesis using again k s(1) by (simp add: seat_step_cases)
  next
    case first
    let ?seen = "AList.update (key a) a seen"
    have k: "key a \<notin> fst ` set seen" using first(2) by (simp add: map_of_eq_None_iff)
    obtain seen' where s: "foldl (seat_step key dispatched) (?seen, duplicates, unknown)
        answers = (seen', duplicates @ repeats (set (dict_keys ?seen))
          (filter (\<lambda>i. i \<in> set dispatched) (map key answers)),
          unknown @ filter (\<lambda>i. i \<notin> set dispatched) (map key answers))"
      "\<forall>i. map_of seen' i = (if map_of ?seen i = None \<and> i \<in> set dispatched
         then find (\<lambda>a. key a = i) answers else map_of ?seen i)"
      using Cons.IH by blast
    have "map_of seen' i = (if map_of seen i = None \<and> i \<in> set dispatched
         then find (\<lambda>a. key a = i) (a # answers) else map_of seen i)" for i
      using first s(2) by (cases "i = key a") (auto simp: dict_get_set)
    then show ?thesis using first k s(1) by (simp add: seat_step_cases dict_keys_image)
  qed
qed

lemma seat_answers_facts:
  assumes "seat_answers key dispatched answers = (seen, duplicates, unknown)"
  shows "duplicates = repeats {} (filter (\<lambda>i. i \<in> set dispatched) (map key answers))"
    and "unknown = filter (\<lambda>i. i \<notin> set dispatched) (map key answers)"
    and "map_of seen i = (if i \<in> set dispatched then find (\<lambda>a. key a = i) answers else None)"
  using seat_fold [of key dispatched "[]" "[]" "[]" answers] assms
  by (auto simp: seat_answers_def)

definition seat_holes ::
  "criterion_id list \<Rightarrow> criterion_id list
     \<Rightarrow> criterion_id list \<times> criterion_id list \<times> criterion_id list" where
  "seat_holes dispatched answered =
     (case seat_answers (\<lambda>i. i) dispatched answered of
        (seen, duplicates, unknown) \<Rightarrow>
          (filter (\<lambda>i. map_of seen i = None) dispatched, duplicates, unknown))"

lemma seat_holes_eq:
  "seat_holes dispatched answered =
     (filter (\<lambda>i. i \<notin> set answered) dispatched,
      repeats {} (filter (\<lambda>i. i \<in> set dispatched) answered),
      filter (\<lambda>i. i \<notin> set dispatched) answered)"
proof -
  obtain seen duplicates unknown
    where s: "seat_answers (\<lambda>i. i) dispatched answered = (seen, duplicates, unknown)"
    by (cases "seat_answers (\<lambda>i. i) dispatched answered")
  have "filter (\<lambda>i. map_of seen i = None) dispatched = filter (\<lambda>i. i \<notin> set answered) dispatched"
    using seat_answers_facts(3) [OF s] by (intro filter_cong) (auto simp: find_key_None)
  then show ?thesis using seat_answers_facts(1,2) [OF s] s by (simp add: seat_holes_def)
qed

text \<open>The holes of the answers themselves are the holes of their ids.\<close>

lemma seat_answers_holes:
  assumes "seat_answers key dispatched answers = (seen, duplicates, unknown)"
  shows "(filter (\<lambda>i. map_of seen i = None) dispatched, duplicates, unknown) =
           seat_holes dispatched (map key answers)"
proof -
  have "filter (\<lambda>i. map_of seen i = None) dispatched =
          filter (\<lambda>i. i \<notin> set (map key answers)) dispatched"
    using seat_answers_facts(3) [OF assms] by (intro filter_cong) (auto simp: find_key_None)
  then show ?thesis
    using seat_answers_facts(1,2) [OF assms] by (simp add: seat_holes_eq)
qed

interpretation seats: fan_in_channel
  "\<lambda>dispatched answered. fst (seat_holes dispatched answered)"
  "\<lambda>dispatched answered. fst (snd (seat_holes dispatched answered))"
  "\<lambda>dispatched answered. snd (snd (seat_holes dispatched answered))"
  by unfold_locales (auto simp: seat_holes_eq repeats_Nil)

end
