(* ===== verification/Feasibility.thy ===== *)
theory Feasibility
  imports FanIn
begin

section \<open>The feasibility sweep\<close>

text \<open>
  \<^verbatim>\<open>domain/criteria_feasibility.py\<close>: the derivation of a verdict from a finding's
  evidence, the statement checked against it, the reconciliation of a report with the dispatched
  ids, the minimal conflicting subsets and the regeneration targets.
\<close>

datatype sweep_error =
  FanInBreach criteria_fan_in_error
| UngroundedVerdict criterion_id
| SweepInvalid

subsection \<open>Deriving a verdict from evidence\<close>

definition observed_flags :: "criterion_finding \<Rightarrow> criterion_flag list" where
  "observed_flags f =
     (case fe_base_demonstration f of
        None \<Rightarrow> []
      | Some d \<Rightarrow> if bd_satisfied_at_base d then [VacuousAtBase] else []) @
     (if fe_pinned_literals f \<noteq> [] \<or> fe_forbidden_class f = Some LiteralCount
      then [LiteralPinning] else [])"

fun weigh_cost :: "cost_claim option \<Rightarrow> cost_measurement option" where
  "weigh_cost None = None"
| "weigh_cost (Some claim) =
     (case cc_measurement claim of
        None \<Rightarrow> None
      | Some m \<Rightarrow> if cm_affordable m then None else Some m)"

definition ungradeable :: "criterion_finding \<Rightarrow> bool" where
  "ungradeable f \<longleftrightarrow>
     (fe_forbidden_class f \<noteq> None \<and> fe_forbidden_class f \<noteq> Some LiteralCount) \<or>
     fe_undeclared_switch_arms f \<noteq> []"

definition classify_criterion_side ::
  "criterion_finding \<Rightarrow> cost_measurement option \<Rightarrow> criterion_flag list
     \<Rightarrow> sweep_error + derived_feasibility" where
  "classify_criterion_side f surviving_cost flags =
     (if surviving_cost \<noteq> None then Inl (UngroundedVerdict (cf_criterion_id f))
      else if fe_cost_claim f \<noteq> None
        then Inr \<lparr>df_verdict = Feasible, df_limit_arm = NotALimit, df_flags = flags\<rparr>
      else Inr \<lparr>df_verdict = Infeasible, df_limit_arm = NotALimit, df_flags = flags\<rparr>)"

definition classify_environment_side ::
  "cost_measurement option \<Rightarrow> criterion_flag list \<Rightarrow> derived_feasibility" where
  "classify_environment_side surviving_cost flags =
     \<lparr>df_verdict = Unverifiable,
      df_limit_arm = (if surviving_cost \<noteq> None then Uneconomic else ResourceAbsent),
      df_flags = flags\<rparr>"

definition classify_no_repair ::
  "criterion_finding \<Rightarrow> cost_measurement option \<Rightarrow> criterion_flag list
     \<Rightarrow> sweep_error + derived_feasibility" where
  "classify_no_repair f surviving_cost flags =
     (if surviving_cost \<noteq> None then Inl (UngroundedVerdict (cf_criterion_id f))
      else Inr \<lparr>df_verdict = Feasible, df_limit_arm = NotALimit, df_flags = flags\<rparr>)"

definition classify_finding :: "criterion_finding \<Rightarrow> sweep_error + derived_feasibility" where
  "classify_finding f =
     (let surviving_cost = weigh_cost (fe_cost_claim f); flags = observed_flags f in
      if ungradeable f
        then Inr \<lparr>df_verdict = Infeasible, df_limit_arm = NotALimit, df_flags = flags\<rparr>
      else if VacuousAtBase \<in> set flags \<and> fe_smallest_repair f \<noteq> NoRepair
        then Inl (UngroundedVerdict (cf_criterion_id f))
      else (case fe_smallest_repair f of
              CriterionText \<Rightarrow> classify_criterion_side f surviving_cost flags
            | EnvironmentSupply \<Rightarrow> Inr (classify_environment_side surviving_cost flags)
            | NoRepair \<Rightarrow> classify_no_repair f surviving_cost flags))"

definition grounded_finding :: "criterion_finding \<Rightarrow> sweep_error + derived_feasibility" where
  "grounded_finding f =
     bind_sum (classify_finding f) (\<lambda>derived.
       if df_verdict derived \<noteq> fe_verdict f then Inl (UngroundedVerdict (cf_criterion_id f))
       else Inr derived)"

definition feasibility_of :: "criterion_finding \<Rightarrow> derived_feasibility \<Rightarrow> criterion_feasibility" where
  "feasibility_of f derived =
     \<lparr>fs_criterion_id = cf_criterion_id f,
      fs_verdict = df_verdict derived,
      fs_refutation = fe_refutation f,
      fs_missing_resource = fe_missing_resource f,
      fs_cost_measurement =
        (case fe_cost_claim f of None \<Rightarrow> None | Some claim \<Rightarrow> cc_measurement claim),
      fs_flags = df_flags derived,
      fs_forbidden_class = fe_forbidden_class f,
      fs_undeclared_switch_arms = fe_undeclared_switch_arms f\<rparr>"

subsection \<open>Conflicts\<close>

definition strict_subset :: "'a list \<Rightarrow> 'a list \<Rightarrow> bool" where
  "strict_subset xs ys \<longleftrightarrow> set xs \<subseteq> set ys \<and> \<not> set ys \<subseteq> set xs"

definition minimal_conflicting_subsets :: "contradiction list \<Rightarrow> contradiction list" where
  "minimal_conflicting_subsets contradictions =
     filter (\<lambda>c. \<not> list_ex (\<lambda>other. strict_subset (co_criterion_ids other) (co_criterion_ids c))
                     contradictions) contradictions"

subsection \<open>Reconciling a report with the dispatched ids\<close>

definition note_unknown ::
  "criterion_id list \<Rightarrow> criterion_id list \<Rightarrow> criterion_id \<Rightarrow> criterion_id list" where
  "note_unknown dispatched unknown i =
     (if i \<notin> set dispatched \<and> i \<notin> set unknown then unknown @ [i] else unknown)"

definition reconcile_findings ::
  "('f \<Rightarrow> criterion_id) \<Rightarrow> criterion_id list \<Rightarrow> 'f list \<Rightarrow> criterion_id list list
     \<Rightarrow> sweep_error + 'f list" where
  "reconcile_findings key dispatched findings contradictions =
     (case seat_answers key dispatched findings of
        (seen, duplicates, unknown) \<Rightarrow>
          let unknown = foldl (note_unknown dispatched) unknown (concat contradictions);
              missing = filter (\<lambda>i. map_of seen i = None) dispatched in
          (case fan_in_breach missing duplicates unknown of
             Some breach \<Rightarrow> Inl (FanInBreach breach)
           | None \<Rightarrow> Inr (map (\<lambda>i. the (map_of seen i)) dispatched)))"

definition reconcile ::
  "generated_criterion list \<Rightarrow> criteria_validation_output \<Rightarrow> sweep_error + criterion_finding list"
  where
  "reconcile criteria output =
     reconcile_findings cf_criterion_id (map gc_id criteria) (vo_findings output)
       (map co_criterion_ids (vo_contradictions output))"

fun sweep_verdicts :: "criterion_finding list \<Rightarrow> sweep_error + criterion_feasibility list" where
  "sweep_verdicts [] = Inr []"
| "sweep_verdicts (f # fs) =
     bind_sum (grounded_finding f) (\<lambda>derived.
       if \<not> valid_feasibility (feasibility_of f derived) then Inl SweepInvalid
       else bind_sum (sweep_verdicts fs) (\<lambda>rest. Inr (feasibility_of f derived # rest)))"

definition sweep ::
  "generated_criterion list \<Rightarrow> criteria_validation_output \<Rightarrow> sweep_error + criteria_validation" where
  "sweep criteria output =
     bind_sum (reconcile criteria output) (\<lambda>findings.
       let conflicts = minimal_conflicting_subsets (vo_contradictions output) in
       bind_sum (sweep_verdicts findings) (\<lambda>verdicts.
         let validation =
           \<lparr>va_verdicts = verdicts,
            va_conjunction = \<lparr>cj_satisfiable = (conflicts = []), cj_contradictions = conflicts\<rparr>\<rparr> in
         if valid_validation validation then Inr validation else Inl SweepInvalid))"

definition add_target :: "criterion_id list \<Rightarrow> criterion_id \<Rightarrow> criterion_id list" where
  "add_target targets i = (if i \<in> set targets then targets else targets @ [i])"

definition regeneration_targets :: "criteria_validation \<Rightarrow> criterion_id list" where
  "regeneration_targets validation =
     foldl add_target
       (map fs_criterion_id (filter (\<lambda>v. fs_verdict v = Infeasible) (va_verdicts validation)))
       (concat (map co_criterion_ids (cj_contradictions (va_conjunction validation))))"

definition demands_regeneration :: "criteria_validation \<Rightarrow> bool" where
  "demands_regeneration validation \<longleftrightarrow> regeneration_targets validation \<noteq> []"

subsection \<open>Laws of the derivation\<close>

lemma vacuous_flag:
  "VacuousAtBase \<in> set (observed_flags f) \<longleftrightarrow>
     (\<exists>d. fe_base_demonstration f = Some d \<and> bd_satisfied_at_base d)"
  by (cases "fe_base_demonstration f") (auto simp: observed_flags_def)

lemma weigh_cost_Some:
  "weigh_cost claim = Some m \<longleftrightarrow>
     (\<exists>c. claim = Some c \<and> cc_measurement c = Some m \<and> \<not> cm_affordable m)"
  by (cases claim) (auto split: option.splits)

lemma classify_finding_flags:
  "classify_finding f = Inr d \<Longrightarrow> df_flags d = observed_flags f"
  by (auto simp: classify_finding_def classify_criterion_side_def classify_environment_side_def
      classify_no_repair_def Let_def split: if_splits repair_kind.splits)

lemma classify_finding_errors:
  "classify_finding f = Inl e \<Longrightarrow> e = UngroundedVerdict (cf_criterion_id f)"
  by (auto simp: classify_finding_def classify_criterion_side_def classify_environment_side_def
      classify_no_repair_def Let_def split: if_splits repair_kind.splits)

lemma grounded_finding_ok:
  "grounded_finding f = Inr d \<longleftrightarrow> classify_finding f = Inr d \<and> df_verdict d = fe_verdict f"
  by (cases "classify_finding f") (auto simp: grounded_finding_def)

lemma valid_finding_repair:
  "valid_finding f \<Longrightarrow> fe_smallest_repair f = repair_for_verdict (fe_verdict f)"
  by (auto simp: valid_finding_def verdict_grounds_def Let_def split: if_splits)

lemma valid_finding_resource:
  "valid_finding f \<Longrightarrow> fe_verdict f = Unverifiable \<Longrightarrow> \<not> blank (fe_missing_resource f)"
  by (auto simp: valid_finding_def verdict_grounds_def Let_def split: if_splits)

lemma valid_finding_refutation:
  "valid_finding f \<Longrightarrow> fe_verdict f = Infeasible \<Longrightarrow> \<not> blank (fe_refutation f)"
  by (auto simp: valid_finding_def verdict_grounds_def Let_def split: if_splits)

subsection \<open>Laws of the reconciliation\<close>

lemma set_note_unknown:
  "set (foldl (note_unknown dispatched) unknown ids) = set unknown \<union> (set ids - set dispatched)"
  by (induction ids arbitrary: unknown) (auto simp: note_unknown_def)

lemma note_unknown_Nil:
  "foldl (note_unknown dispatched) unknown ids = [] \<longleftrightarrow> unknown = [] \<and> set ids \<subseteq> set dispatched"
proof -
  have "foldl (note_unknown dispatched) unknown ids = [] \<longleftrightarrow>
          set (foldl (note_unknown dispatched) unknown ids) = {}" by simp
  then show ?thesis by (auto simp: set_note_unknown)
qed

text \<open>What the guard lets through, at the level of the answers: one per dispatched id.\<close>

lemma reconcile_ok_iff:
  "(\<exists>out. reconcile_findings key dispatched findings contradictions = Inr out) \<longleftrightarrow>
     seats.guard dispatched (map key findings) = None \<and>
     set (concat contradictions) \<subseteq> set dispatched"
proof -
  obtain seen duplicates unknown
    where s: "seat_answers key dispatched findings = (seen, duplicates, unknown)"
    by (cases "seat_answers key dispatched findings")
  have "seat_holes dispatched (map key findings) =
          (filter (\<lambda>i. map_of seen i = None) dispatched, duplicates, unknown)"
    using seat_answers_holes [OF s] by simp
  then have "seats.guard dispatched (map key findings) = None \<longleftrightarrow>
      filter (\<lambda>i. map_of seen i = None) dispatched = [] \<and> duplicates = [] \<and> unknown = []"
    by (simp add: seats.guard_def)
  moreover have "(\<exists>out. reconcile_findings key dispatched findings contradictions = Inr out) \<longleftrightarrow>
      filter (\<lambda>i. map_of seen i = None) dispatched = [] \<and> duplicates = [] \<and>
      foldl (note_unknown dispatched) unknown (concat contradictions) = []"
    by (auto simp: reconcile_findings_def s Let_def split: option.splits)
  ultimately show ?thesis by (auto simp: note_unknown_Nil simp del: set_concat)
qed

lemma reconcile_result:
  assumes "reconcile_findings key dispatched findings contradictions = Inr out"
  shows "out = map (\<lambda>i. the (find (\<lambda>f. key f = i) findings)) dispatched"
    and "set dispatched \<subseteq> set (map key findings)"
proof -
  obtain seen duplicates unknown
    where s: "seat_answers key dispatched findings = (seen, duplicates, unknown)"
    by (cases "seat_answers key dispatched findings")
  show "out = map (\<lambda>i. the (find (\<lambda>f. key f = i) findings)) dispatched"
    using assms seat_answers_facts(3) [OF s]
    by (auto simp: reconcile_findings_def s Let_def split: option.splits)
  have "seats.guard dispatched (map key findings) = None"
    using assms reconcile_ok_iff by blast
  then show "set dispatched \<subseteq> set (map key findings)"
    unfolding seats.guard_sets by simp
qed

lemma find_key_Some:
  "i \<in> set (map key fs) \<Longrightarrow>
     key (the (find (\<lambda>f. key f = i) fs)) = i \<and> the (find (\<lambda>f. key f = i) fs) \<in> set fs"
  by (induction fs) auto

lemma reconcile_members:
  assumes "reconcile_findings key dispatched findings contradictions = Inr out"
  shows "map key out = dispatched" and "set out \<subseteq> set findings"
  using reconcile_result [OF assms] find_key_Some [of _ key findings]
  by (auto simp: subset_iff intro!: map_idI)

lemma mset_by_key:
  assumes "distinct (map key xs)" and "map key ys = d" and "set ys \<subseteq> set xs"
    and "mset (map key xs) = mset d"
  shows "mset ys = mset xs"
proof -
  have "distinct (map key ys)" using assms mset_eq_imp_distinct_iff by blast
  then have "distinct ys" by (simp add: distinct_map)
  have "distinct xs" using assms(1) by (simp add: distinct_map)
  have "set xs \<subseteq> set ys"
  proof
    fix x assume x: "x \<in> set xs"
    then have "key x \<in> set d" using mset_eq_setD [OF assms(4)] by auto
    then obtain y where y: "y \<in> set ys" "key y = key x" using assms(2) by auto
    then have "y = x" using assms(1,3) x by (auto simp: distinct_map inj_on_def)
    then show "x \<in> set ys" using y by simp
  qed
  then show ?thesis
    using \<open>distinct xs\<close> \<open>distinct ys\<close> assms(3) by (metis set_eq_iff_mset_eq_distinct subset_antisym)
qed

text \<open>Claim C27. The validator's report is accepted exactly when its findings are a permutation of
  the dispatched ids (one finding per id, none foreign, none twice) and no contradiction names an
  id nobody dispatched; what it then yields is the same findings put in dispatch order.\<close>

theorem reconcile_is_permutation:
  assumes "distinct dispatched"
  shows "(case reconcile_findings key dispatched findings contradictions of
            Inr out \<Rightarrow> mset (map key findings) = mset dispatched \<and>
              set (concat contradictions) \<subseteq> set dispatched \<and>
              map key out = dispatched \<and> mset out = mset findings
          | Inl e \<Rightarrow> mset (map key findings) \<noteq> mset dispatched \<or>
              \<not> set (concat contradictions) \<subseteq> set dispatched)"
proof (cases "reconcile_findings key dispatched findings contradictions")
  case (Inl e)
  then show ?thesis
    using reconcile_ok_iff [of key dispatched findings contradictions]
      seats.guard_permutation [OF assms] by auto
next
  case (Inr out)
  then have perm: "mset (map key findings) = mset dispatched"
      "set (concat contradictions) \<subseteq> set dispatched"
    using reconcile_ok_iff [of key dispatched findings contradictions]
      seats.guard_permutation [OF assms] by auto
  have "distinct (map key findings)" using perm(1) assms mset_eq_imp_distinct_iff by blast
  then have "mset out = mset findings"
    using reconcile_members [OF Inr] perm(1) mset_by_key [of key findings out dispatched] by blast
  then show ?thesis using Inr perm reconcile_members [OF Inr] by simp
qed

theorem reconcile_is_permutation_witness:
  "case reconcile_findings fst [''AC-1'', ''AC-2''] [(''AC-2'', True), (''AC-1'', False)] [] of
     Inr out \<Rightarrow> mset (map fst [(''AC-2'', True), (''AC-1'', False)]) = mset [''AC-1'', ''AC-2''] \<and>
       set (concat []) \<subseteq> set [''AC-1'', ''AC-2''] \<and>
       map fst out = [''AC-1'', ''AC-2''] \<and> mset out = mset [(''AC-2'', True), (''AC-1'', False)]
   | Inl e \<Rightarrow> mset (map fst [(''AC-2'', True), (''AC-1'', False)]) \<noteq> mset [''AC-1'', ''AC-2''] \<or>
       \<not> set (concat []) \<subseteq> set [''AC-1'', ''AC-2'']"
  by (rule reconcile_is_permutation) simp

subsection \<open>Laws of the conflicts\<close>

lemma minimal_conflicts_subset: "set (minimal_conflicting_subsets cs) \<subseteq> set cs"
  by (auto simp: minimal_conflicting_subsets_def)

lemma minimal_below:
  "c \<in> set cs \<Longrightarrow>
     \<exists>m \<in> set (minimal_conflicting_subsets cs).
        set (co_criterion_ids m) \<subseteq> set (co_criterion_ids c)"
proof (induction "card (set (co_criterion_ids c))" arbitrary: c rule: less_induct)
  case less
  show ?case
  proof (cases "\<exists>other \<in> set cs. strict_subset (co_criterion_ids other) (co_criterion_ids c)")
    case True
    then obtain d where d: "d \<in> set cs" "strict_subset (co_criterion_ids d) (co_criterion_ids c)"
      by blast
    then have "set (co_criterion_ids d) \<subset> set (co_criterion_ids c)"
      by (auto simp: strict_subset_def)
    then have "card (set (co_criterion_ids d)) < card (set (co_criterion_ids c))"
      by (intro psubset_card_mono) simp_all
    then obtain m where "m \<in> set (minimal_conflicting_subsets cs)"
        "set (co_criterion_ids m) \<subseteq> set (co_criterion_ids d)"
      using less d(1) by blast
    moreover have "set (co_criterion_ids d) \<subseteq> set (co_criterion_ids c)"
      using d(2) by (simp add: strict_subset_def)
    ultimately show ?thesis by blast
  next
    case False
    then have "c \<in> set (minimal_conflicting_subsets cs)"
      using less.prems by (auto simp: minimal_conflicting_subsets_def list_ex_iff)
    then show ?thesis by blast
  qed
qed

lemma minimal_conflicts_Nil: "minimal_conflicting_subsets cs = [] \<longleftrightarrow> cs = []"
  using minimal_below [of "hd cs" cs]
  by (cases cs) (auto simp: minimal_conflicting_subsets_def)

text \<open>The conflicts kept are exactly the minimal ones: each kept one was reported and
  contains no other reported one strictly, every reported conflict contains a kept one, and so the
  conjunction is called satisfiable exactly when no contradiction was reported.\<close>

lemma conflicts_are_minimal:
  "set (minimal_conflicting_subsets cs) \<subseteq> set cs \<and>
   (\<forall>m c. m \<in> set (minimal_conflicting_subsets cs) \<and> c \<in> set cs \<longrightarrow>
      \<not> set (co_criterion_ids c) \<subset> set (co_criterion_ids m)) \<and>
   (\<forall>c. c \<in> set cs \<longrightarrow> (\<exists>m. m \<in> set (minimal_conflicting_subsets cs) \<and>
      set (co_criterion_ids m) \<subseteq> set (co_criterion_ids c))) \<and>
   (minimal_conflicting_subsets cs = [] \<longleftrightarrow> cs = [])"
proof (intro conjI allI impI)
  fix m c
  assume "m \<in> set (minimal_conflicting_subsets cs) \<and> c \<in> set cs"
  then show "\<not> set (co_criterion_ids c) \<subset> set (co_criterion_ids m)"
    by (auto simp: minimal_conflicting_subsets_def list_ex_iff strict_subset_def)
next
  fix c assume "c \<in> set cs"
  then show "\<exists>m. m \<in> set (minimal_conflicting_subsets cs) \<and>
      set (co_criterion_ids m) \<subseteq> set (co_criterion_ids c)"
    using minimal_below by blast
qed (rule minimal_conflicts_subset minimal_conflicts_Nil)+

theorem conflicts_are_minimal_witness:
  "let cs = [\<lparr>co_criterion_ids = [''AC-1'', ''AC-2''], co_explanation = ''x''\<rparr>,
             \<lparr>co_criterion_ids = [''AC-1'', ''AC-2'', ''AC-3''], co_explanation = ''y''\<rparr>] in
   set (minimal_conflicting_subsets cs) \<subseteq> set cs \<and>
   (\<forall>m c. m \<in> set (minimal_conflicting_subsets cs) \<and> c \<in> set cs \<longrightarrow>
      \<not> set (co_criterion_ids c) \<subset> set (co_criterion_ids m)) \<and>
   (\<forall>c. c \<in> set cs \<longrightarrow> (\<exists>m. m \<in> set (minimal_conflicting_subsets cs) \<and>
      set (co_criterion_ids m) \<subseteq> set (co_criterion_ids c))) \<and>
   (minimal_conflicting_subsets cs = [] \<longleftrightarrow> cs = [])"
  unfolding Let_def by (rule conflicts_are_minimal)

subsection \<open>The sweep as a whole\<close>

lemma feasibility_of_id [simp]: "fs_criterion_id (feasibility_of f d) = cf_criterion_id f"
  by (simp add: feasibility_of_def)

lemma sweep_verdicts_ok:
  "sweep_verdicts fs = Inr vs \<Longrightarrow>
     map fs_criterion_id vs = map cf_criterion_id fs \<and>
     (\<forall>v \<in> set vs. \<exists>f \<in> set fs. \<exists>d. grounded_finding f = Inr d \<and> v = feasibility_of f d)"
proof (induction fs arbitrary: vs)
  case (Cons f fs)
  then obtain d rest where d: "grounded_finding f = Inr d" "sweep_verdicts fs = Inr rest"
      "vs = feasibility_of f d # rest"
    by (auto simp: bind_sum_Inr split: if_splits)
  then show ?case using Cons.IH [OF d(2)] by auto
qed simp

lemma sweep_parts:
  assumes "sweep criteria output = Inr v"
  shows "\<exists>findings. reconcile criteria output = Inr findings \<and>
           sweep_verdicts findings = Inr (va_verdicts v) \<and>
           cj_contradictions (va_conjunction v) =
             minimal_conflicting_subsets (vo_contradictions output) \<and>
           (cj_satisfiable (va_conjunction v) \<longleftrightarrow>
             minimal_conflicting_subsets (vo_contradictions output) = [])"
  using assms by (auto simp: sweep_def bind_sum_Inr Let_def split: if_splits)

lemma sweep_findings:
  assumes "sweep criteria output = Inr v" and "w \<in> set (va_verdicts v)"
  obtains f d where "f \<in> set (vo_findings output)" "grounded_finding f = Inr d"
    "w = feasibility_of f d"
proof -
  obtain findings where f: "reconcile criteria output = Inr findings"
      "sweep_verdicts findings = Inr (va_verdicts v)"
    using sweep_parts [OF assms(1)] by blast
  obtain g where "g \<in> set findings" "\<exists>d. grounded_finding g = Inr d \<and> w = feasibility_of g d"
    using sweep_verdicts_ok [OF f(2)] assms(2) by blast
  moreover have "set findings \<subseteq> set (vo_findings output)"
    using reconcile_members(2) f(1) unfolding reconcile_def by blast
  ultimately show ?thesis using that by blast
qed

lemma sweep_ids:
  assumes "sweep criteria output = Inr v"
  shows "map fs_criterion_id (va_verdicts v) = map gc_id criteria"
proof -
  obtain findings where f: "reconcile criteria output = Inr findings"
      "sweep_verdicts findings = Inr (va_verdicts v)"
    using sweep_parts [OF assms] by blast
  then show ?thesis
    using sweep_verdicts_ok [OF f(2)] reconcile_members(1) unfolding reconcile_def by metis
qed

lemma sweep_verdicts_valid:
  "list_all valid_finding fs \<Longrightarrow> sweep_verdicts fs \<noteq> Inl SweepInvalid"
proof (induction fs)
  case (Cons f fs)
  then have "criterion_id_pattern (cf_criterion_id f)" by (simp add: valid_finding_def)
  then have "valid_feasibility (feasibility_of f d)" for d
    by (simp add: valid_feasibility_def feasibility_of_def)
  moreover have "grounded_finding f \<noteq> Inl SweepInvalid"
    using classify_finding_errors [of f SweepInvalid]
    by (auto simp: grounded_finding_def bind_sum_Inl split: if_splits)
  ultimately show ?case using Cons by (auto simp: bind_sum_Inl split: if_splits)
qed simp

text \<open>Claim C28. What the sweep records is grounded: on a schema-valid report it fails only by
  refusing the correspondence or an ungrounded statement, never in its own schema; what it records
  names the dispatched ids in order, each verdict being both the one a finding stated and the one
  its evidence derives, an unverifiable one naming its missing resource and an infeasible one its
  refutation.\<close>

theorem sweep_records_grounded_verdicts:
  assumes "valid_validation_output output"
  shows "(case sweep criteria output of
            Inr v \<Rightarrow>
              map fs_criterion_id (va_verdicts v) = map gc_id criteria \<and>
              (\<forall>w. w \<in> set (va_verdicts v) \<longrightarrow>
                (\<exists>f d. f \<in> set (vo_findings output) \<and> cf_criterion_id f = fs_criterion_id w \<and>
                   classify_finding f = Inr d \<and> df_verdict d = fs_verdict w \<and>
                   fe_verdict f = fs_verdict w) \<and>
                (fs_verdict w = Unverifiable \<longrightarrow> \<not> blank (fs_missing_resource w)) \<and>
                (fs_verdict w = Infeasible \<longrightarrow> \<not> blank (fs_refutation w)))
          | Inl e \<Rightarrow> e \<noteq> SweepInvalid)"
proof (cases "sweep criteria output")
  case (Inr v)
  have valid: "valid_finding f" if "f \<in> set (vo_findings output)" for f
    using assms that by (simp add: valid_validation_output_def list_all_iff)
  have "(\<exists>f d. f \<in> set (vo_findings output) \<and> cf_criterion_id f = fs_criterion_id w \<and>
           classify_finding f = Inr d \<and> df_verdict d = fs_verdict w \<and> fe_verdict f = fs_verdict w) \<and>
        (fs_verdict w = Unverifiable \<longrightarrow> \<not> blank (fs_missing_resource w)) \<and>
        (fs_verdict w = Infeasible \<longrightarrow> \<not> blank (fs_refutation w))"
    if w: "w \<in> set (va_verdicts v)" for w
  proof -
    obtain f d where f: "f \<in> set (vo_findings output)" "grounded_finding f = Inr d"
        "w = feasibility_of f d"
      by (rule sweep_findings [OF Inr w])
    have "classify_finding f = Inr d" "df_verdict d = fe_verdict f"
      using f(2) by (simp_all add: grounded_finding_ok)
    moreover have "cf_criterion_id f = fs_criterion_id w" "fs_verdict w = df_verdict d"
        "fs_missing_resource w = fe_missing_resource f" "fs_refutation w = fe_refutation f"
      using f(3) by (simp_all add: feasibility_of_def)
    ultimately show ?thesis
      using f(1) valid_finding_resource [OF valid [OF f(1)]]
        valid_finding_refutation [OF valid [OF f(1)]] by auto
  qed
  then show ?thesis using Inr sweep_ids [OF Inr] by simp
next
  case (Inl e)
  have "e \<noteq> SweepInvalid"
  proof
    assume e: "e = SweepInvalid"
    have no_recon: "reconcile criteria output \<noteq> Inl SweepInvalid"
      by (auto simp: reconcile_def reconcile_findings_def Let_def split: prod.splits option.splits)
    obtain fs where fs: "reconcile criteria output = Inr fs"
      using Inl e no_recon by (cases "reconcile criteria output") (auto simp: sweep_def)
    have mem: "map cf_criterion_id fs = map gc_id criteria" "set fs \<subseteq> set (vo_findings output)"
      using reconcile_members fs unfolding reconcile_def by blast+
    have ok: "list_all valid_finding fs"
      using assms mem(2) by (auto simp: valid_validation_output_def list_all_iff)
    have "\<exists>out. reconcile_findings cf_criterion_id (map gc_id criteria) (vo_findings output)
        (map co_criterion_ids (vo_contradictions output)) = Inr out"
      using fs unfolding reconcile_def by blast
    then have "set (map cf_criterion_id (vo_findings output)) = set (map gc_id criteria)"
      unfolding reconcile_ok_iff seats.guard_sets by blast
    moreover have "vo_findings output \<noteq> []" using assms by (simp add: valid_validation_output_def)
    ultimately have "fs \<noteq> []" using mem(1) by auto
    obtain vs where vs: "sweep_verdicts fs = Inr vs"
      using Inl e fs sweep_verdicts_valid [OF ok]
      by (cases "sweep_verdicts fs") (auto simp: sweep_def Let_def)
    have "vs \<noteq> []" using sweep_verdicts_ok [OF vs] \<open>fs \<noteq> []\<close> by auto
    moreover have "valid_feasibility w" if "w \<in> set vs" for w
    proof -
      have "fs_criterion_id w \<in> cf_criterion_id ` set fs"
        using sweep_verdicts_ok [OF vs] that by (metis image_eqI set_map)
      then show ?thesis using ok by (auto simp: valid_feasibility_def valid_finding_def list_all_iff)
    qed
    ultimately show False
      using Inl e fs vs by (simp add: sweep_def Let_def valid_validation_def list_all_iff)
  qed
  then show ?thesis using Inl by simp
qed

definition sample_finding :: "criterion_id \<Rightarrow> criterion_finding" where
  "sample_finding i =
     \<lparr>fe_verdict = Unverifiable, fe_smallest_repair = EnvironmentSupply, fe_refutation = None,
      fe_missing_resource = Some ''db'', fe_cost_claim = None, fe_base_demonstration = None,
      fe_pinned_literals = [], fe_forbidden_class = None, fe_undeclared_switch_arms = [],
      cf_criterion_id = i\<rparr>"

definition sample_output :: criteria_validation_output where
  "sample_output = \<lparr>vo_findings = [sample_finding ''AC-1''], vo_contradictions = []\<rparr>"

lemma sample_finding_valid: "valid_finding (sample_finding ''AC-1'')"
  by (simp add: valid_finding_def sample_finding_def verdict_grounds_def CRITERION_ID_PREFIX_def
      is_digit_def digit_0 py_blank_def py_isspace_def)

lemma sample_output_valid: "valid_validation_output sample_output"
  using sample_finding_valid by (simp add: valid_validation_output_def sample_output_def)

theorem sweep_records_grounded_verdicts_witness:
  "case sweep [\<lparr>gc_id = ''AC-1'', gc_text = ''t''\<rparr>] sample_output of
     Inr v \<Rightarrow>
       map fs_criterion_id (va_verdicts v) = map gc_id [\<lparr>gc_id = ''AC-1'', gc_text = ''t''\<rparr>] \<and>
       (\<forall>w. w \<in> set (va_verdicts v) \<longrightarrow>
         (\<exists>f d. f \<in> set (vo_findings sample_output) \<and> cf_criterion_id f = fs_criterion_id w \<and>
            classify_finding f = Inr d \<and> df_verdict d = fs_verdict w \<and>
            fe_verdict f = fs_verdict w) \<and>
         (fs_verdict w = Unverifiable \<longrightarrow> \<not> blank (fs_missing_resource w)) \<and>
         (fs_verdict w = Infeasible \<longrightarrow> \<not> blank (fs_refutation w)))
   | Inl e \<Rightarrow> e \<noteq> SweepInvalid"
  by (rule sweep_records_grounded_verdicts [OF sample_output_valid])

text \<open>Which statements survive: a schema-valid finding is recorded exactly when its
  evidence is of the stated kind. An infeasible one reports something ungradeable, or argues from
  its refutation alone on a criterion the base does not satisfy; an unverifiable one is gradeable
  and not satisfied at base; a feasible one is gradeable with no measured uneconomic cost.\<close>

lemma grounded_statements:
  assumes "valid_finding f"
  shows "(\<exists>d. grounded_finding f = Inr d) \<longleftrightarrow>
     (case fe_verdict f of
        Infeasible \<Rightarrow> ungradeable f \<or>
          (fe_cost_claim f = None \<and> VacuousAtBase \<notin> set (observed_flags f))
      | Unverifiable \<Rightarrow> \<not> ungradeable f \<and> VacuousAtBase \<notin> set (observed_flags f)
      | Feasible \<Rightarrow> \<not> ungradeable f \<and>
          (\<nexists>c m. fe_cost_claim f = Some c \<and> cc_measurement c = Some m \<and> \<not> cm_affordable m))"
proof -
  have repair: "fe_smallest_repair f = repair_for_verdict (fe_verdict f)"
    by (rule valid_finding_repair [OF assms])
  have cost: "weigh_cost (fe_cost_claim f) = None \<longleftrightarrow>
      (\<nexists>c m. fe_cost_claim f = Some c \<and> cc_measurement c = Some m \<and> \<not> cm_affordable m)"
    using weigh_cost_Some [of "fe_cost_claim f"] by (metis not_Some_eq)
  show ?thesis
  proof (cases "fe_verdict f")
    case Feasible
    then show ?thesis unfolding cost [symmetric] using repair
      by (auto simp: grounded_finding_ok classify_finding_def classify_no_repair_def Let_def)
  next
    case Infeasible
    then show ?thesis using repair
      by (auto simp: grounded_finding_ok classify_finding_def classify_criterion_side_def Let_def)
  next
    case Unverifiable
    then show ?thesis using repair
      by (auto simp: grounded_finding_ok classify_finding_def classify_environment_side_def Let_def)
  qed
qed

subsection \<open>What is regenerated\<close>

lemma add_targets_set: "set (foldl add_target ts ids) = set ts \<union> set ids"
  by (induction ids arbitrary: ts) (auto simp: add_target_def)

lemma add_targets_distinct: "distinct ts \<Longrightarrow> distinct (foldl add_target ts ids)"
  by (induction ids arbitrary: ts) (auto simp: add_target_def)

lemma regeneration_targets_set:
  "set (regeneration_targets v) =
     {fs_criterion_id w |w. w \<in> set (va_verdicts v) \<and> fs_verdict w = Infeasible} \<union>
     (\<Union>c \<in> set (cj_contradictions (va_conjunction v)). set (co_criterion_ids c))"
  by (auto simp: regeneration_targets_def add_targets_set)

text \<open>After a sweep the regenerator is asked for dispatched criteria only, each once: the
  infeasible ones and the members of a minimal conflict, so an unverifiable criterion no conflict
  names is never rewritten; a round is consumed exactly when something is infeasible or a
  contradiction was reported.\<close>

lemma regeneration_is_targeted:
  assumes "valid_validation_output output" and "distinct (map gc_id criteria)"
    and "sweep criteria output = Inr v"
  shows "set (regeneration_targets v) \<subseteq> set (map gc_id criteria) \<and>
     distinct (regeneration_targets v) \<and>
     (\<forall>i. i \<in> set (regeneration_targets v) \<longleftrightarrow>
        (\<exists>w. w \<in> set (va_verdicts v) \<and> fs_criterion_id w = i \<and> fs_verdict w = Infeasible) \<or>
        (\<exists>c. c \<in> set (minimal_conflicting_subsets (vo_contradictions output)) \<and>
             i \<in> set (co_criterion_ids c))) \<and>
     (demands_regeneration v \<longleftrightarrow>
        (\<exists>w. w \<in> set (va_verdicts v) \<and> fs_verdict w = Infeasible) \<or>
        vo_contradictions output \<noteq> [])"
proof -
  have conflicts: "cj_contradictions (va_conjunction v) =
      minimal_conflicting_subsets (vo_contradictions output)"
    using sweep_parts [OF assms(3)] by blast
  have ids: "map fs_criterion_id (va_verdicts v) = map gc_id criteria"
    by (rule sweep_ids [OF assms(3)])
  obtain out where "reconcile criteria output = Inr out" using sweep_parts [OF assms(3)] by blast
  then have "\<exists>out. reconcile_findings cf_criterion_id (map gc_id criteria) (vo_findings output)
      (map co_criterion_ids (vo_contradictions output)) = Inr out"
    unfolding reconcile_def by blast
  then have named: "\<Union> (set ` co_criterion_ids ` set (vo_contradictions output)) \<subseteq> set (map gc_id criteria)"
    unfolding reconcile_ok_iff by auto
  have members: "i \<in> set (regeneration_targets v) \<longleftrightarrow>
      (\<exists>w. w \<in> set (va_verdicts v) \<and> fs_criterion_id w = i \<and> fs_verdict w = Infeasible) \<or>
      (\<exists>c. c \<in> set (minimal_conflicting_subsets (vo_contradictions output)) \<and>
           i \<in> set (co_criterion_ids c))" for i
    unfolding regeneration_targets_set conflicts by blast
  have "i \<in> set (map gc_id criteria)" if "i \<in> set (regeneration_targets v)" for i
    using that minimal_conflicts_subset named unfolding members ids [symmetric] by fastforce
  moreover have "distinct (map fs_criterion_id (va_verdicts v))" using ids assms(2) by simp
  then have "distinct (regeneration_targets v)"
    unfolding regeneration_targets_def by (intro add_targets_distinct) (rule distinct_map_filter)
  moreover have some_member: "\<exists>c i. c \<in> set (minimal_conflicting_subsets (vo_contradictions output)) \<and>
      i \<in> set (co_criterion_ids c)" if "vo_contradictions output \<noteq> []"
  proof -
    obtain c where c: "c \<in> set (minimal_conflicting_subsets (vo_contradictions output))"
      using \<open>vo_contradictions output \<noteq> []\<close> minimal_conflicts_Nil
      by (metis last_in_set)
    then have "valid_contradiction c"
      using assms(1) minimal_conflicts_subset
      by (fastforce simp: valid_validation_output_def list_all_iff)
    then have "co_criterion_ids c \<noteq> []" by (auto simp: valid_contradiction_def)
    then have "hd (co_criterion_ids c) \<in> set (co_criterion_ids c)" by (rule hd_in_set)
    then show ?thesis using c by blast
  qed
  moreover have "demands_regeneration v \<longleftrightarrow> (\<exists>i. i \<in> set (regeneration_targets v))"
    by (cases "regeneration_targets v") (auto simp: demands_regeneration_def)
  then have "demands_regeneration v \<longleftrightarrow>
      (\<exists>w. w \<in> set (va_verdicts v) \<and> fs_verdict w = Infeasible) \<or> vo_contradictions output \<noteq> []"
  proof (cases "vo_contradictions output = []")
    case True
    then have "minimal_conflicting_subsets (vo_contradictions output) = []"
      by (simp add: minimal_conflicts_Nil)
    then show ?thesis
      using \<open>demands_regeneration v \<longleftrightarrow> (\<exists>i. i \<in> set (regeneration_targets v))\<close> True
      unfolding members by simp
  next
    case False
    then show ?thesis
      using \<open>demands_regeneration v \<longleftrightarrow> (\<exists>i. i \<in> set (regeneration_targets v))\<close>
        some_member unfolding members by blast
  qed
  ultimately show ?thesis using members by blast
qed

lemma sample_sweep: "\<exists>v. sweep [\<lparr>gc_id = ''AC-1'', gc_text = ''t''\<rparr>] sample_output = Inr v"
proof -
  have "grounded_finding (sample_finding ''AC-1'') =
      Inr \<lparr>df_verdict = Unverifiable, df_limit_arm = ResourceAbsent, df_flags = []\<rparr>"
    by (simp add: grounded_finding_def classify_finding_def classify_environment_side_def
        sample_finding_def observed_flags_def ungradeable_def)
  moreover have "cf_criterion_id (sample_finding ''AC-1'') = ''AC-1''"
    by (simp add: sample_finding_def)
  moreover have "criterion_id_pattern ''AC-1''"
    by (simp add: CRITERION_ID_PREFIX_def is_digit_def digit_0)
  ultimately show ?thesis
    by (simp add: sweep_def reconcile_def reconcile_findings_def sample_output_def
        seat_answers_def seat_step_def minimal_conflicting_subsets_def Let_def
        valid_feasibility_def valid_validation_def del: criterion_id_pattern.simps)
qed

theorem regeneration_is_targeted_witness:
  "\<exists>v. sweep [\<lparr>gc_id = ''AC-1'', gc_text = ''t''\<rparr>] sample_output = Inr v \<and>
     set (regeneration_targets v) \<subseteq> set (map gc_id [\<lparr>gc_id = ''AC-1'', gc_text = ''t''\<rparr>]) \<and>
     distinct (regeneration_targets v) \<and>
     (demands_regeneration v \<longleftrightarrow>
        (\<exists>w. w \<in> set (va_verdicts v) \<and> fs_verdict w = Infeasible) \<or>
        vo_contradictions sample_output \<noteq> [])"
proof -
  obtain v where v: "sweep [\<lparr>gc_id = ''AC-1'', gc_text = ''t''\<rparr>] sample_output = Inr v"
    using sample_sweep by blast
  show ?thesis
    using regeneration_is_targeted [OF sample_output_valid _ v] v by auto
qed

end
