(* ===== verification/Amendment.thy ===== *)
theory Amendment
  imports SurfaceLease Feasibility
begin

section \<open>Amendments a native writer proposes\<close>

text \<open>
  \<^verbatim>\<open>types/domain/amendment.py\<close>, \<^verbatim>\<open>types/domain/write_back.py\<close> and
  \<^verbatim>\<open>domain/amendment.py\<close>: the claim of a departure, its independent judgment, the
  reason a departure is upheld against, the completed records and what each refuses to hold, and the
  accounting over a run's reports.
\<close>

datatype audit_verdict = Holds | Refuted | UnverifiableAudit

record tracker_artifact =
  ta_surface :: writable_surface
  ta_native_ref :: string
  ta_content :: string

record write_back_finding =
  wf_verdict :: audit_verdict
  wf_evidence :: string
  wf_cited_refs :: "string list"

definition valid_write_back_finding :: "write_back_finding \<Rightarrow> bool" where
  "valid_write_back_finding f \<longleftrightarrow>
     has_text (wf_evidence f) \<and> list_all has_text (wf_cited_refs f) \<and>
     \<not> (wf_verdict f = Refuted \<and> wf_cited_refs f = [])"

record write_back_result =
  wb_verdict :: audit_verdict
  wb_artifact :: tracker_artifact
  wb_rounds :: "write_back_finding list"

definition valid_write_back_result :: "write_back_result \<Rightarrow> bool" where
  "valid_write_back_result r \<longleftrightarrow>
     ta_native_ref (wb_artifact r) \<noteq> [] \<and>
     wb_rounds r \<noteq> [] \<and> list_all valid_write_back_finding (wb_rounds r) \<and>
     wb_verdict r \<noteq> Refuted \<and>
     (wb_verdict r = Holds \<longleftrightarrow> wf_verdict (last (wb_rounds r)) = Holds)"

subsection \<open>Claims and judgments\<close>

datatype check_prerequisite = RepositoryHistory | Network | Credentials

fun check_prerequisite_value :: "check_prerequisite \<Rightarrow> string" where
  "check_prerequisite_value RepositoryHistory = ''repository_history''"
| "check_prerequisite_value Network = ''network''"
| "check_prerequisite_value Credentials = ''credentials''"

datatype amendment_subject = CriterionSubject string | RulingSubject string

fun subject_kind :: "amendment_subject \<Rightarrow> string" where
  "subject_kind (CriterionSubject i) = ''criterion''"
| "subject_kind (RulingSubject i) = ''ruling''"

fun subject_id :: "amendment_subject \<Rightarrow> string" where
  "subject_id (CriterionSubject i) = i"
| "subject_id (RulingSubject i) = i"

fun is_criterion_subject :: "amendment_subject \<Rightarrow> bool" where
  "is_criterion_subject (CriterionSubject i) = True"
| "is_criterion_subject (RulingSubject i) = False"

lemma subject_identity: "subject_kind a = subject_kind b \<Longrightarrow> subject_id a = subject_id b \<Longrightarrow> a = b"
  by (cases a; cases b) simp_all

datatype amendment_ground =
  UnsatisfiableAtBase | MutuallyUnsatisfiable | PremiseFalseAtBase | RequiresBreakingHouseRule

record amendment_claim =
  ac_subject :: amendment_subject
  ac_ground :: amendment_ground
  ac_departure :: string
  ac_claimed_capability :: "check_prerequisite option"

definition writer_output_valid :: "amendment_claim list \<Rightarrow> bool" where
  "writer_output_valid claims \<longleftrightarrow>
     distinct (map (\<lambda>c. (subject_kind (ac_subject c), subject_id (ac_subject c))) claims)"

record base_citation =
  ci_path :: string
  ci_quote :: string

record amendment_judgment =
  aj_subject :: amendment_subject
  aj_ground :: amendment_ground
  aj_reproduced :: bool
  aj_finding :: finding_evidence
  aj_citations :: "base_citation list"
  aj_measured_by :: "string option"

subsection \<open>Why a departure is upheld against\<close>

datatype upheld_kind =
  GroundNotReproduced | EnvironmentLacksCapability | CostMeasuredAffordable | CostMeasuredUneconomic

fun upheld_kind_value :: "upheld_kind \<Rightarrow> string" where
  "upheld_kind_value GroundNotReproduced = ''ground_not_reproduced''"
| "upheld_kind_value EnvironmentLacksCapability = ''environment_lacks_capability''"
| "upheld_kind_value CostMeasuredAffordable = ''cost_measured_affordable''"
| "upheld_kind_value CostMeasuredUneconomic = ''cost_measured_uneconomic''"

definition ESCALATED_REASONS :: "upheld_kind list" where
  "ESCALATED_REASONS = [CostMeasuredUneconomic, EnvironmentLacksCapability]"

datatype amendment_error =
  GroundRequiresCitedRefutation
| CapabilityRequired
| NoEscalationAt upheld_kind

definition upheld_reason ::
  "amendment_claim \<Rightarrow> amendment_judgment \<Rightarrow> (check_prerequisite, bool) pydict option
     \<Rightarrow> amendment_error + upheld_kind option" where
  "upheld_reason claim judgment environment =
     (case fe_cost_claim (aj_finding judgment) of
        Some cost \<Rightarrow>
          (case cc_measurement cost of
             None \<Rightarrow> Inr (Some GroundNotReproduced)
           | Some measurement \<Rightarrow>
               if aj_measured_by judgment = None \<or> aj_citations judgment = []
               then Inr (Some GroundNotReproduced)
               else if cm_affordable measurement then Inr (Some CostMeasuredAffordable)
               else Inr (Some CostMeasuredUneconomic))
      | None \<Rightarrow>
          if fe_verdict (aj_finding judgment) = Unverifiable then
            (case ac_claimed_capability claim of
               None \<Rightarrow> Inr (Some GroundNotReproduced)
             | Some capability \<Rightarrow>
                 (case environment of
                    None \<Rightarrow> Inr (Some GroundNotReproduced)
                  | Some declared \<Rightarrow>
                      if map_of declared capability = Some False
                      then Inr (Some EnvironmentLacksCapability)
                      else Inr (Some GroundNotReproduced)))
          else if \<not> aj_reproduced judgment then Inr (Some GroundNotReproduced)
          else if fe_verdict (aj_finding judgment) \<noteq> Infeasible \<or> aj_citations judgment = []
            then Inl GroundRequiresCitedRefutation
          else Inr None)"

text \<open>\<^verbatim>\<open>None\<close> interpolated into a message reads \<open>None\<close>.\<close>

definition escalation_question ::
  "upheld_kind \<Rightarrow> amendment_claim \<Rightarrow> amendment_judgment \<Rightarrow> amendment_error + string" where
  "escalation_question reason claim judgment =
     (case reason of
        CostMeasuredUneconomic \<Rightarrow>
          Inr (''Resolve the measured uneconomic departure for '' @ subject_id (ac_subject claim))
      | EnvironmentLacksCapability \<Rightarrow>
          (case ac_claimed_capability claim of
             None \<Rightarrow> Inl CapabilityRequired
           | Some capability \<Rightarrow>
               let named = check_prerequisite_value capability;
                   revival =
                     ''Resolve the missing capability '' @ named @ '' for '' @
                     subject_id (ac_subject claim) @ '': the demonstration needs '' @
                     (case fe_missing_resource (aj_finding judgment) of
                        None \<Rightarrow> ''None'' | Some resource \<Rightarrow> resource) @
                     '', which the declared runner environment does not provide. Declaring '' @
                     named @ '' in the repository's runner environment '' @
                     ''and removing the decision classification from this issue, '' @
                     ''then firing again, revives it'' in
               if is_criterion_subject (ac_subject claim)
               then Inr (revival @ ''; otherwise a person cancels the criterion with a supersession.'')
               else Inr (revival @ ''.''))
      | _ \<Rightarrow> Inl (NoEscalationAt reason))"

subsection \<open>Completed records\<close>

record upheld_judgment =
  uj_claim :: amendment_claim
  uj_reason :: upheld_kind
  uj_judgment :: amendment_judgment

definition uj_subject :: "('a) upheld_judgment_scheme \<Rightarrow> amendment_subject" where
  "uj_subject u = ac_subject (uj_claim u)"

definition valid_upheld_judgment :: "('a) upheld_judgment_scheme \<Rightarrow> bool" where
  "valid_upheld_judgment u \<longleftrightarrow>
     uj_subject u = aj_subject (uj_judgment u) \<and>
     ac_ground (uj_claim u) = aj_ground (uj_judgment u) \<and>
     (uj_reason u \<in> {CostMeasuredAffordable, CostMeasuredUneconomic} \<longrightarrow>
        (case fe_cost_claim (aj_finding (uj_judgment u)) of
           None \<Rightarrow> False
         | Some cost \<Rightarrow>
             (case cc_measurement cost of
                None \<Rightarrow> False
              | Some measurement \<Rightarrow>
                  aj_measured_by (uj_judgment u) \<noteq> None \<and>
                  (cm_affordable measurement \<longleftrightarrow> uj_reason u = CostMeasuredAffordable)))) \<and>
     (uj_reason u = EnvironmentLacksCapability \<longrightarrow> ac_claimed_capability (uj_claim u) \<noteq> None)"

datatype refusal_publication =
  RecordedRefusal write_back_result
| EscalatedRefusal write_back_result write_back_result

fun publication_results :: "refusal_publication \<Rightarrow> write_back_result list" where
  "publication_results (RecordedRefusal r) = [r]"
| "publication_results (EscalatedRefusal r e) = [r, e]"

fun is_escalated :: "refusal_publication \<Rightarrow> bool" where
  "is_escalated (RecordedRefusal r) = False"
| "is_escalated (EscalatedRefusal r e) = True"

record upheld_amendment = upheld_judgment +
  ua_publication :: refusal_publication

definition surface_of_result :: "write_back_result \<Rightarrow> writable_surface" where
  "surface_of_result r = ta_surface (wb_artifact r)"

definition valid_upheld_amendment :: "upheld_amendment \<Rightarrow> bool" where
  "valid_upheld_amendment u \<longleftrightarrow>
     valid_upheld_judgment u \<and>
     (let results = publication_results (ua_publication u) in
      (is_escalated (ua_publication u) \<longleftrightarrow> uj_reason u \<in> set ESCALATED_REASONS) \<and>
      list_all (\<lambda>r. wb_verdict r = Holds) results \<and>
      list_all (\<lambda>r. su_kind (surface_of_result r) = MARKER_COMMENT) results \<and>
      (is_criterion_subject (uj_subject u) \<longrightarrow>
         list_all (\<lambda>r. ref_key (su_ref (surface_of_result r)) = subject_id (uj_subject u)) results) \<and>
      length (fromkeys (map (\<lambda>r. su_ref (surface_of_result r)) results)) = 1)"

record amended_amendment =
  aa_claim :: amendment_claim
  aa_judgment :: amendment_judgment
  aa_prior :: tracker_artifact
  aa_archive :: write_back_result
  aa_applied :: write_back_result

definition amendment_is_judged :: "amendment_claim \<Rightarrow> amendment_judgment \<Rightarrow> bool" where
  "amendment_is_judged claim judgment \<longleftrightarrow>
     \<not> (ac_subject claim \<noteq> aj_subject judgment \<or> ac_ground claim \<noteq> aj_ground judgment \<or>
        \<not> aj_reproduced judgment \<or> fe_verdict (aj_finding judgment) \<noteq> Infeasible \<or>
        fe_cost_claim (aj_finding judgment) \<noteq> None \<or> aj_citations judgment = [])"

definition valid_amended_amendment :: "amended_amendment \<Rightarrow> bool" where
  "valid_amended_amendment a \<longleftrightarrow>
     amendment_is_judged (aa_claim a) (aa_judgment a) \<and>
     wb_verdict (aa_archive a) = Holds \<and> wb_verdict (aa_applied a) = Holds \<and>
     \<not> (surface_of_result (aa_applied a) \<noteq> ta_surface (aa_prior a) \<or>
        ta_native_ref (wb_artifact (aa_applied a)) \<noteq> ta_native_ref (aa_prior a) \<or>
        su_ref (surface_of_result (aa_archive a)) \<noteq> su_ref (ta_surface (aa_prior a)) \<or>
        su_kind (surface_of_result (aa_archive a)) \<noteq> MARKER_COMMENT) \<and>
     su_kind (ta_surface (aa_prior a)) =
       (if is_criterion_subject (ac_subject (aa_claim a)) then CRITERION_SUB_ISSUE
        else MARKER_COMMENT) \<and>
     (is_criterion_subject (ac_subject (aa_claim a)) \<longrightarrow>
        ta_native_ref (aa_prior a) = subject_id (ac_subject (aa_claim a)))"

datatype amendment_verdict = UpheldVerdict upheld_amendment | AmendedVerdict amended_amendment

fun verdict_subject :: "amendment_verdict \<Rightarrow> amendment_subject" where
  "verdict_subject (UpheldVerdict u) = uj_subject u"
| "verdict_subject (AmendedVerdict a) = ac_subject (aa_claim a)"

record amendment_report =
  rp_verdicts :: "amendment_verdict list"

definition valid_report :: "amendment_report \<Rightarrow> bool" where
  "valid_report r \<longleftrightarrow>
     distinct (map (\<lambda>v. (subject_kind (verdict_subject v), subject_id (verdict_subject v)))
       (rp_verdicts r))"

definition upheld :: "amendment_report \<Rightarrow> upheld_amendment list" where
  "upheld r = concat (map (\<lambda>v. case v of UpheldVerdict u \<Rightarrow> [u] | AmendedVerdict a \<Rightarrow> [])
     (rp_verdicts r))"

definition amended_records :: "amendment_report \<Rightarrow> string set" where
  "amended_records r =
     set (concat (map (\<lambda>v. case v of
         UpheldVerdict u \<Rightarrow> []
       | AmendedVerdict a \<Rightarrow>
           (case ac_subject (aa_claim a) of RulingSubject i \<Rightarrow> [i] | CriterionSubject i \<Rightarrow> []))
       (rp_verdicts r)))"

subsection \<open>Counting repeated refusals\<close>

record repeated_upheld =
  ru_subject :: amendment_subject
  ru_reason :: upheld_kind
  ru_count :: nat

type_synonym upheld_key = "string \<times> string \<times> upheld_kind"

definition upheld_key :: "upheld_amendment \<Rightarrow> upheld_key" where
  "upheld_key u = (subject_kind (uj_subject u), subject_id (uj_subject u), uj_reason u)"

fun upheld_order :: "upheld_key \<Rightarrow> string \<times> string \<times> string" where
  "upheld_order (kind, i, reason) = (kind, i, upheld_kind_value reason)"

definition repeated_upheld :: "amendment_report list \<Rightarrow> repeated_upheld list" where
  "repeated_upheld reports =
     (let observed = concat (map upheld reports);
          counts = counter (map upheld_key observed);
          subjects = dict_of upheld_key uj_subject observed in
      map (\<lambda>(key, count).
          \<lparr>ru_subject = the (map_of subjects key), ru_reason = snd (snd key), ru_count = count\<rparr>)
        (filter (\<lambda>(key, count). 2 \<le> count) (sort_key (upheld_order \<circ> fst) counts)))"

subsection \<open>A reason and the record it becomes\<close>

text \<open>Claim C30. The reason decided for a departure always fits the record it is written into: it is
  refused exactly when a reproduced, uncosted ground lacks a cited refutation; with no reason, the
  judgment is one an applied amendment may carry; and with a reason, the upheld record accepts it, the
  judgment could not have been applied, and a question for a person exists exactly at the escalating
  reasons.\<close>

theorem amendment_reason_is_recordable:
  assumes "ac_subject claim = aj_subject judgment" and "ac_ground claim = aj_ground judgment"
  shows "case upheld_reason claim judgment environment of
      Inl e \<Rightarrow> e = GroundRequiresCitedRefutation \<and> aj_reproduced judgment \<and>
        fe_cost_claim (aj_finding judgment) = None \<and>
        (fe_verdict (aj_finding judgment) = Feasible \<or>
         fe_verdict (aj_finding judgment) = Infeasible \<and> aj_citations judgment = [])
    | Inr None \<Rightarrow> amendment_is_judged claim judgment
    | Inr (Some reason) \<Rightarrow>
        valid_upheld_judgment \<lparr>uj_claim = claim, uj_reason = reason, uj_judgment = judgment\<rparr> \<and>
        \<not> amendment_is_judged claim judgment \<and>
        (reason \<in> set ESCALATED_REASONS \<longleftrightarrow> is_ok (escalation_question reason claim judgment))"
proof (cases "fe_cost_claim (aj_finding judgment)")
  case (Some cost)
  then show ?thesis
    using assms
    by (cases "cc_measurement cost")
      (auto simp: upheld_reason_def valid_upheld_judgment_def uj_subject_def amendment_is_judged_def
        ESCALATED_REASONS_def escalation_question_def)
next
  case None
  then show ?thesis
    using assms
    by (cases "fe_verdict (aj_finding judgment)"; cases "ac_claimed_capability claim"; cases environment)
      (auto simp: upheld_reason_def valid_upheld_judgment_def uj_subject_def amendment_is_judged_def
        ESCALATED_REASONS_def escalation_question_def Let_def)
qed

definition sample_claim :: amendment_claim where
  "sample_claim =
     \<lparr>ac_subject = CriterionSubject ''K-1'', ac_ground = UnsatisfiableAtBase, ac_departure = ''d'',
      ac_claimed_capability = Some Network\<rparr>"

definition sample_judgment :: amendment_judgment where
  "sample_judgment =
     \<lparr>aj_subject = CriterionSubject ''K-1'', aj_ground = UnsatisfiableAtBase, aj_reproduced = False,
      aj_finding = \<lparr>fe_verdict = Unverifiable, fe_smallest_repair = EnvironmentSupply,
        fe_refutation = None, fe_missing_resource = Some ''a network'', fe_cost_claim = None,
        fe_base_demonstration = None, fe_pinned_literals = [], fe_forbidden_class = None,
        fe_undeclared_switch_arms = []\<rparr>,
      aj_citations = [], aj_measured_by = None\<rparr>"

theorem amendment_reason_is_recordable_witness:
  "upheld_reason sample_claim sample_judgment (Some [(Network, False)]) =
     Inr (Some EnvironmentLacksCapability) \<and>
   is_ok (escalation_question EnvironmentLacksCapability sample_claim sample_judgment)"
proof -
  have r: "upheld_reason sample_claim sample_judgment (Some [(Network, False)]) =
      Inr (Some EnvironmentLacksCapability)"
    by (simp add: upheld_reason_def sample_claim_def sample_judgment_def)
  have same: "ac_subject sample_claim = aj_subject sample_judgment"
      "ac_ground sample_claim = aj_ground sample_judgment"
    by (simp_all add: sample_claim_def sample_judgment_def)
  show ?thesis
    using amendment_reason_is_recordable [OF same, of "Some [(Network, False)]"] r
    by (simp add: ESCALATED_REASONS_def)
qed

subsection \<open>The count of a repeated refusal\<close>

lemma upheld_kind_value_inj: "upheld_kind_value a = upheld_kind_value b \<Longrightarrow> a = b"
  by (cases a; cases b) simp_all

lemma upheld_order_inj: "upheld_order a = upheld_order b \<Longrightarrow> a = b"
proof -
  assume eq: "upheld_order a = upheld_order b"
  obtain k i r k' i' r' where ab: "a = (k, i, r)" "b = (k', i', r')" by (cases a; cases b) blast
  have "k = k'" "i = i'" "upheld_kind_value r = upheld_kind_value r'" using eq unfolding ab by simp_all
  then show "a = b" using ab upheld_kind_value_inj by blast
qed

lemma upheld_key_iff:
  "upheld_key u = upheld_key v \<longleftrightarrow> uj_subject u = uj_subject v \<and> uj_reason u = uj_reason v"
  by (auto simp: upheld_key_def dest: subject_identity)

lemma counted_refusals:
  assumes "(key, n) \<in> set (counter (map upheld_key observed))"
  shows "\<exists>u. u \<in> set observed \<and> upheld_key u = key \<and>
    map_of (dict_of upheld_key uj_subject observed) key = Some (uj_subject u) \<and>
    n = length (filter (\<lambda>v. upheld_key v = key) observed)"
proof -
  have "map_of (counter (map upheld_key observed)) key = Some n"
    using assms unfolding dict_item_iff [OF wf_counter] .
  then have n: "key \<in> upheld_key ` set observed"
      "n = length (filter (\<lambda>k. k = key) (map upheld_key observed))"
    by (simp_all add: counter_get split: if_splits)
  then have "map_of (dict_of upheld_key uj_subject observed) key \<noteq> None"
    using dict_of_None [of upheld_key uj_subject observed key] by simp
  then obtain u where "u \<in> set observed" "upheld_key u = key"
      "map_of (dict_of upheld_key uj_subject observed) key = Some (uj_subject u)"
    using dict_of_Some by force
  moreover have "n = length (filter (\<lambda>v. upheld_key v = key) observed)"
    using n(2) by (simp add: filter_map comp_def)
  ultimately show ?thesis by blast
qed

lemma repeated_upheld_members:
  "\<lparr>ru_subject = subj, ru_reason = reason, ru_count = n\<rparr> \<in> set (repeated_upheld reports) \<longleftrightarrow>
     2 \<le> n \<and> n = length (filter (\<lambda>u. uj_subject u = subj \<and> uj_reason u = reason)
       (concat (map upheld reports)))"
  (is "?L \<longleftrightarrow> ?R")
proof -
  let ?obs = "concat (map upheld reports)"
  let ?counts = "counter (map upheld_key ?obs)"
  let ?subjects = "dict_of upheld_key uj_subject ?obs"
  have L: "?L \<longleftrightarrow> (\<exists>key. (key, n) \<in> set ?counts \<and> 2 \<le> n \<and> subj = the (map_of ?subjects key) \<and>
      reason = snd (snd key))"
    unfolding repeated_upheld_def Let_def set_map set_filter set_sort image_iff
    by (auto simp: split_beta Bex_def)
  show ?thesis
  proof
    assume ?L
    then obtain key where key: "(key, n) \<in> set ?counts" "2 \<le> n" "subj = the (map_of ?subjects key)"
        "reason = snd (snd key)"
      using L by blast
    obtain u where u: "upheld_key u = key" "map_of ?subjects key = Some (uj_subject u)"
        "n = length (filter (\<lambda>v. upheld_key v = key) ?obs)"
      using counted_refusals [OF key(1)] by blast
    have "subj = uj_subject u" "reason = uj_reason u"
      using key(3,4) u(1,2) by (auto simp: upheld_key_def)
    then show ?R using key(2) u(3) unfolding u(1) [symmetric] upheld_key_iff by simp
  next
    assume R: ?R
    then have "filter (\<lambda>u. uj_subject u = subj \<and> uj_reason u = reason) ?obs \<noteq> []" by force
    then obtain u where u: "u \<in> set ?obs" "uj_subject u = subj" "uj_reason u = reason"
      unfolding filter_empty_conv by blast
    have "map_of ?counts (upheld_key u) = Some (length (filter (\<lambda>v. upheld_key v = upheld_key u) ?obs))"
      using u(1) by (auto simp: counter_get filter_map comp_def)
    then have c: "(upheld_key u, n) \<in> set ?counts"
      using R u(2,3) unfolding upheld_key_iff dict_item_iff [OF wf_counter] by simp
    obtain v where "upheld_key v = upheld_key u" "map_of ?subjects (upheld_key u) = Some (uj_subject v)"
      using counted_refusals [OF c] by blast
    then have "subj = the (map_of ?subjects (upheld_key u))" using u(2) upheld_key_iff by simp
    moreover have "reason = snd (snd (upheld_key u))" using u(3) by (simp add: upheld_key_def)
    ultimately show ?L using L c R by blast
  qed
qed

text \<open>The refusals reported as repeated are exactly the subjects and reasons observed at least
  twice over the run's reports, each with its exact count, listed once and in the order of subject
  kind, identity and reason.\<close>

lemma repeated_refusals_counted:
  "(\<forall>subj reason n.
      \<lparr>ru_subject = subj, ru_reason = reason, ru_count = n\<rparr> \<in> set (repeated_upheld reports) \<longleftrightarrow>
      2 \<le> n \<and> n = length (filter (\<lambda>u. uj_subject u = subj \<and> uj_reason u = reason)
        (concat (map upheld reports)))) \<and>
   sorted_wrt (<) (map (\<lambda>r. (subject_kind (ru_subject r), subject_id (ru_subject r),
     upheld_kind_value (ru_reason r))) (repeated_upheld reports))"
proof -
  let ?obs = "concat (map upheld reports)"
  let ?counts = "counter (map upheld_key ?obs)"
  let ?kept = "filter (\<lambda>(key, n). 2 \<le> n) (sort_key (upheld_order \<circ> fst) ?counts)"
  have order: "(subject_kind (ru_subject r), subject_id (ru_subject r), upheld_kind_value (ru_reason r)) =
      upheld_order (fst p)"
    if "p \<in> set ?kept" "r = (case p of (key, n) \<Rightarrow> \<lparr>ru_subject =
        the (map_of (dict_of upheld_key uj_subject ?obs) key), ru_reason = snd (snd key), ru_count = n\<rparr>)"
    for p r
  proof -
    obtain key n where kn: "p = (key, n)" by (cases p) blast
    have p: "p = (key, n)" "(key, n) \<in> set ?counts" using that(1) kn by simp_all
    obtain u where "upheld_key u = key"
        "map_of (dict_of upheld_key uj_subject ?obs) key = Some (uj_subject u)"
      using counted_refusals [OF p(2)] by blast
    then show ?thesis using that(2) p(1) by (auto simp: upheld_key_def)
  qed
  have "sorted (map (upheld_order \<circ> fst) (sort_key (upheld_order \<circ> fst) ?counts))"
    by (rule sorted_sort_key)
  then have "sorted (map (upheld_order \<circ> fst) ?kept)" by (rule sorted_filter)
  moreover have "distinct (map (upheld_order \<circ> fst) ?kept)"
  proof -
    have "distinct (map fst ?counts)" by (rule wf_counter)
    then have d: "distinct ?counts" "inj_on fst (set ?counts)" by (simp_all add: distinct_map)
    have "inj_on upheld_order A" for A by (rule inj_onI) (rule upheld_order_inj)
    then have "inj_on (upheld_order \<circ> fst) (set ?counts)" by (rule comp_inj_on [OF d(2)])
    then have "inj_on (upheld_order \<circ> fst) (set ?kept)" by (rule inj_on_subset) auto
    moreover have "distinct ?kept" using d(1) by simp
    ultimately show ?thesis by (simp add: distinct_map)
  qed
  ultimately have "sorted_wrt (<) (map (upheld_order \<circ> fst) ?kept)"
    by (simp add: strict_sorted_iff)
  moreover have "map (\<lambda>r. (subject_kind (ru_subject r), subject_id (ru_subject r),
      upheld_kind_value (ru_reason r))) (repeated_upheld reports) = map (upheld_order \<circ> fst) ?kept"
    unfolding repeated_upheld_def Let_def map_map
    by (rule map_cong [OF refl]) (simp add: order)
  ultimately show ?thesis using repeated_upheld_members by simp
qed

end
