(* ===== verification/Lifecycle.thy ===== *)
theory Lifecycle
  imports Criteria
begin

section \<open>Cross-offs: one satisfaction state beside the commit it was graded at\<close>

text \<open>
  \<^verbatim>\<open>types/domain/criterion_lifecycle.py\<close> and
  \<^verbatim>\<open>types/domain/criterion_evidence.py\<close>: the states, the re-derivation classes, the
  cross-off with its two validators, and the sticky class map read over successive iterations.
\<close>

type_synonym criterion_ref = string
type_synonym sha = string
type_synonym exercised_path = string

datatype rederivation_class = Cheap | Expensive | Observed

datatype cross_off_state = Passed | Failed | Lapsed | Undemonstrated

datatype undemonstrated_reason =
  WorkspaceNotTheGradedSha | CheckSurvivedMutation | SatisfiedAtBase | BaseReadingUnsettled

definition path_bound :: "rederivation_class \<Rightarrow> bool" where
  "path_bound c \<longleftrightarrow> c \<in> {Expensive, Observed}"

definition hex_digit :: "char \<Rightarrow> bool" where
  "hex_digit c \<longleftrightarrow> is_digit c \<or> c \<in> set ''abcdef''"

definition valid_sha :: "sha \<Rightarrow> bool" where
  "valid_sha s \<longleftrightarrow> (length s = 40 \<or> length s = 64) \<and> list_all hex_digit s"

record criterion_evidence =
  ev_graded_sha :: sha
  ev_test :: string

definition valid_evidence :: "criterion_evidence \<Rightarrow> bool" where
  "valid_evidence e \<longleftrightarrow> valid_sha (ev_graded_sha e) \<and> has_text (ev_test e)"

record criterion_cross_off =
  co_criterion :: criterion_ref
  co_state :: cross_off_state
  co_evidence :: criterion_evidence
  co_rederivation_class :: rederivation_class
  co_exercised_paths :: "exercised_path list"
  co_undemonstrated_reason :: "undemonstrated_reason option"

text \<open>The two model validators, in their order, and the field constraints beside them.\<close>

definition reason_is_undemonstrated :: "criterion_cross_off \<Rightarrow> bool" where
  "reason_is_undemonstrated c \<longleftrightarrow>
     \<not> ((co_undemonstrated_reason c = None) = (co_state c = Undemonstrated))"

definition path_bound_names_paths :: "criterion_cross_off \<Rightarrow> bool" where
  "path_bound_names_paths c \<longleftrightarrow>
     \<not> (path_bound (co_rederivation_class c) \<and> co_exercised_paths c = [])"

definition valid_cross_off :: "criterion_cross_off \<Rightarrow> bool" where
  "valid_cross_off c \<longleftrightarrow>
     has_text (co_criterion c) \<and> valid_evidence (co_evidence c) \<and>
     list_all has_text (co_exercised_paths c) \<and>
     reason_is_undemonstrated c \<and> path_bound_names_paths c"

subsection \<open>The class a criterion identity holds\<close>

record sticky_class_error =
  sc_criterion :: criterion_ref
  sc_held :: rederivation_class
  sc_declared :: rederivation_class

fun hold_classes ::
  "(criterion_ref, rederivation_class) pydict \<Rightarrow> criterion_cross_off list
     \<Rightarrow> sticky_class_error + (criterion_ref, rederivation_class) pydict" where
  "hold_classes held [] = Inr held"
| "hold_classes held (c # cs) =
     (let declared = co_rederivation_class c in
      case map_of held (co_criterion c) of
        None \<Rightarrow> hold_classes (AList.update (co_criterion c) declared held) cs
      | Some current \<Rightarrow>
          if current \<noteq> declared
          then Inl \<lparr>sc_criterion = co_criterion c, sc_held = current, sc_declared = declared\<rparr>
          else hold_classes held cs)"

definition held_rederivation_classes ::
  "criterion_cross_off list \<Rightarrow> sticky_class_error + (criterion_ref, rederivation_class) pydict" where
  "held_rederivation_classes cross_offs = hold_classes [] cross_offs"

lemma hold_classes_result:
  "hold_classes held cs = Inr m \<Longrightarrow>
     (\<forall>r k. map_of held r = Some k \<longrightarrow> map_of m r = Some k) \<and>
     (\<forall>c \<in> set cs. map_of m (co_criterion c) = Some (co_rederivation_class c)) \<and>
     dom (map_of m) = dom (map_of held) \<union> co_criterion ` set cs"
proof (induction cs arbitrary: held)
  case Nil
  then show ?case by simp
next
  case (Cons c cs)
  show ?case
  proof (cases "map_of held (co_criterion c)")
    case None
    then have "hold_classes (AList.update (co_criterion c) (co_rederivation_class c) held) cs = Inr m"
      using Cons.prems by (simp add: Let_def)
    note IH = Cons.IH [OF this]
    have "map_of m r = Some k" if "map_of held r = Some k" for r k
      using IH that None by (cases "r = co_criterion c") (auto simp: dict_get_set)
    moreover have "map_of m (co_criterion c) = Some (co_rederivation_class c)"
      using IH by (simp add: dict_get_set)
    ultimately show ?thesis using IH by (auto simp: dict_get_set)
  next
    case (Some k)
    then have k: "k = co_rederivation_class c" "hold_classes held cs = Inr m"
      using Cons.prems by (auto simp: Let_def split: if_splits)
    then show ?thesis using Cons.IH [OF k(2)] Some by auto
  qed
qed

lemma hold_classes_total:
  assumes "\<forall>c \<in> set cs. \<forall>k. map_of held (co_criterion c) = Some k \<longrightarrow> k = co_rederivation_class c"
    and "\<forall>c \<in> set cs. \<forall>d \<in> set cs. co_criterion c = co_criterion d \<longrightarrow>
           co_rederivation_class c = co_rederivation_class d"
  shows "\<exists>m. hold_classes held cs = Inr m"
  using assms
proof (induction cs arbitrary: held)
  case Nil
  show ?case by simp
next
  case (Cons c cs)
  show ?case
  proof (cases "map_of held (co_criterion c)")
    case None
    let ?held = "AList.update (co_criterion c) (co_rederivation_class c) held"
    have "\<forall>d \<in> set cs. \<forall>k. map_of ?held (co_criterion d) = Some k \<longrightarrow> k = co_rederivation_class d"
    proof (intro ballI allI impI)
      fix d k assume d: "d \<in> set cs" "map_of ?held (co_criterion d) = Some k"
      show "k = co_rederivation_class d"
      proof (cases "co_criterion d = co_criterion c")
        case True
        then have "k = co_rederivation_class c" using d(2) by (simp add: dict_get_set)
        moreover have "co_rederivation_class c = co_rederivation_class d"
          using Cons.prems(2) d(1) True by (metis list.set_intros)
        ultimately show ?thesis by simp
      next
        case False
        then have "map_of held (co_criterion d) = Some k" using d(2) by (simp add: dict_get_set)
        then show ?thesis using Cons.prems(1) d(1) by (meson list.set_intros(2))
      qed
    qed
    moreover have "\<forall>x \<in> set cs. \<forall>y \<in> set cs. co_criterion x = co_criterion y \<longrightarrow>
        co_rederivation_class x = co_rederivation_class y"
      using Cons.prems(2) by (meson list.set_intros(2))
    ultimately have "\<exists>m. hold_classes ?held cs = Inr m" by (rule Cons.IH)
    then show ?thesis using None by (simp add: Let_def)
  next
    case (Some k)
    then have "k = co_rederivation_class c" using Cons.prems(1) by simp
    moreover have "\<exists>m. hold_classes held cs = Inr m"
    proof (rule Cons.IH)
      show "\<forall>d \<in> set cs. \<forall>k. map_of held (co_criterion d) = Some k \<longrightarrow> k = co_rederivation_class d"
        using Cons.prems(1) by (meson list.set_intros(2))
      show "\<forall>x \<in> set cs. \<forall>y \<in> set cs. co_criterion x = co_criterion y \<longrightarrow>
          co_rederivation_class x = co_rederivation_class y"
        using Cons.prems(2) by (meson list.set_intros(2))
    qed
    ultimately show ?thesis using Some by (simp add: Let_def)
  qed
qed

text \<open>Re-derivation classes are sticky: the reading succeeds exactly when no identity
  ever declared two classes, and it then answers, for exactly the identities that were crossed off,
  the one class each of them declared.\<close>

lemma classes_are_sticky:
  "(case held_rederivation_classes cs of
      Inr m \<Rightarrow> dom (map_of m) = co_criterion ` set cs \<and>
        (\<forall>c. c \<in> set cs \<longrightarrow> map_of m (co_criterion c) = Some (co_rederivation_class c))
    | Inl e \<Rightarrow> \<exists>c d. c \<in> set cs \<and> d \<in> set cs \<and> co_criterion c = co_criterion d \<and>
        co_rederivation_class c \<noteq> co_rederivation_class d)"
proof (cases "held_rederivation_classes cs")
  case (Inl e)
  then have "\<nexists>m. hold_classes [] cs = Inr m" by (simp add: held_rederivation_classes_def)
  moreover have none: "\<forall>c \<in> set cs. \<forall>k. map_of [] (co_criterion c) = Some k \<longrightarrow>
      k = co_rederivation_class c" by simp
  ultimately have "\<not> (\<forall>c \<in> set cs. \<forall>d \<in> set cs. co_criterion c = co_criterion d \<longrightarrow>
           co_rederivation_class c = co_rederivation_class d)"
    using hold_classes_total [OF none] by blast
  then have "\<exists>c d. c \<in> set cs \<and> d \<in> set cs \<and> co_criterion c = co_criterion d \<and>
        co_rederivation_class c \<noteq> co_rederivation_class d" by blast
  then show ?thesis unfolding Inl sum.case .
next
  case (Inr m)
  then show ?thesis
    using hold_classes_result [of "[]" cs m] by (auto simp: held_rederivation_classes_def)
qed

definition sample_cross_off :: "rederivation_class \<Rightarrow> criterion_cross_off" where
  "sample_cross_off k =
     \<lparr>co_criterion = ''AC-1'', co_state = Passed,
      co_evidence = \<lparr>ev_graded_sha = replicate 40 (CHR ''a''), ev_test = ''t''\<rparr>,
      co_rederivation_class = k, co_exercised_paths = [''src''], co_undemonstrated_reason = None\<rparr>"

theorem classes_are_sticky_witness:
  "let cs = [sample_cross_off Cheap, sample_cross_off Observed] in
   held_rederivation_classes cs =
     Inl \<lparr>sc_criterion = ''AC-1'', sc_held = Cheap, sc_declared = Observed\<rparr> \<and>
   (\<exists>c d. c \<in> set cs \<and> d \<in> set cs \<and> co_criterion c = co_criterion d \<and>
      co_rederivation_class c \<noteq> co_rederivation_class d)"
proof -
  let ?cs = "[sample_cross_off Cheap, sample_cross_off Observed]"
  have e: "held_rederivation_classes ?cs =
      Inl \<lparr>sc_criterion = ''AC-1'', sc_held = Cheap, sc_declared = Observed\<rparr>"
    by (simp add: held_rederivation_classes_def sample_cross_off_def)
  show ?thesis
    unfolding Let_def using classes_are_sticky [of ?cs] e unfolding e sum.case by blast
qed

lemma sample_cross_off_valid: "valid_cross_off (sample_cross_off k)"
  by (simp add: sample_cross_off_def valid_cross_off_def valid_evidence_def valid_sha_def
      hex_digit_def has_text_def rx_isspace_def reason_is_undemonstrated_def
      path_bound_names_paths_def list_all_length)

end
