(* ===== verification/Grading.thy ===== *)
theory Grading
  imports Feasibility Lifecycle
begin

section \<open>Grading one evaluation pass and the accept gate\<close>

text \<open>
  \<^verbatim>\<open>domain/accept_gate.py\<close>, \<^verbatim>\<open>domain/criteria_grading.py\<close>,
  \<^verbatim>\<open>types/domain/grading.py\<close>, the two evaluator models of
  \<^verbatim>\<open>types/domain/agent.py\<close> and the grade side of
  \<^verbatim>\<open>domain/fan_in.py\<close>. The evaluator's output is reconciled to the dispatched
  criteria and graded fail-closed; the gate's verdict is arithmetic over that.
\<close>

record criterion_result =
  rs_criterion_id :: criterion_id
  rs_criterion :: string
  rs_passed :: bool
  rs_reasoning :: string
  rs_rederivation_class :: rederivation_class
  rs_exercised_paths :: "string list"

definition valid_result :: "criterion_result \<Rightarrow> bool" where
  "valid_result r \<longleftrightarrow> has_text (rs_criterion_id r) \<and> rs_criterion r \<noteq> [] \<and> rs_reasoning r \<noteq> []"

record acceptance_criteria_output =
  ao_criteria_results :: "criterion_result list"
  ao_sherlock_flags :: "sherlock_flag list"

definition valid_output :: "acceptance_criteria_output \<Rightarrow> bool" where
  "valid_output out \<longleftrightarrow>
     ao_criteria_results out \<noteq> [] \<and> list_all valid_result (ao_criteria_results out)"

record iteration_grade =
  ig_results :: "criterion_result list"
  ig_failures :: "criterion_failure list"
  ig_missing_ids :: "criterion_id list"
  ig_unknown_ids :: "criterion_id list"
  ig_duplicate_ids :: "criterion_id list"
  ig_dispatched_count :: nat
  ig_passed_count :: nat
  ig_verdict :: accept_verdict_kind
  ig_sherlock_flags :: "sherlock_flag list"

definition valid_failure :: "criterion_failure \<Rightarrow> bool" where
  "valid_failure f \<longleftrightarrow> has_text (fl_criterion_id f) \<and> fl_text f \<noteq> [] \<and> fl_reasoning f \<noteq> []"

definition valid_grade :: "iteration_grade \<Rightarrow> bool" where
  "valid_grade g \<longleftrightarrow>
     ig_results g \<noteq> [] \<and> list_all valid_result (ig_results g) \<and>
     list_all valid_failure (ig_failures g) \<and>
     list_all has_text (ig_missing_ids g) \<and> list_all has_text (ig_unknown_ids g) \<and>
     list_all has_text (ig_duplicate_ids g) \<and> 1 \<le> ig_dispatched_count g"

datatype grading_error =
  GradeInvalid
| UngroundedResource criterion_id
| NotAPermutation criteria_fan_in_error

subsection \<open>The accept gate\<close>

fun is_graded :: "execution_criterion \<Rightarrow> bool" where
  "is_graded (Tracker c) = True"
| "is_graded (Validated c) = (fs_verdict (vc_feasibility c) \<noteq> Unverifiable)"

fun ungraded :: "execution_criterion list \<Rightarrow> validated_criterion list" where
  "ungraded [] = []"
| "ungraded (Validated c # cs) = (if is_graded (Validated c) then ungraded cs else c # ungraded cs)"
| "ungraded (Tracker c # cs) = ungraded cs"

definition named_resource :: "validated_criterion \<Rightarrow> grading_error + string" where
  "named_resource c =
     (case fs_missing_resource (vc_feasibility c) of
        None \<Rightarrow> Inl (UngroundedResource (vc_id c))
      | Some resource \<Rightarrow>
          if py_blank resource then Inl (UngroundedResource (vc_id c)) else Inr resource)"

definition results_by_id :: "criterion_result list \<Rightarrow> (criterion_id, criterion_result) pydict" where
  "results_by_id results = dict_of rs_criterion_id (\<lambda>r. r) results"

definition gate_failures ::
  "execution_criterion list \<Rightarrow> criterion_result list \<Rightarrow> execution_criterion list" where
  "gate_failures criteria results =
     (let answered = results_by_id results in
      filter (\<lambda>c. is_graded c \<and>
                (case map_of answered (ec_id c) of None \<Rightarrow> True | Some r \<Rightarrow> \<not> rs_passed r))
        criteria)"

definition accept_verdict ::
  "execution_criterion list \<Rightarrow> criterion_result list \<Rightarrow> accept_verdict_kind" where
  "accept_verdict criteria results =
     (if gate_failures criteria results \<noteq> [] then Rejected
      else if ungraded criteria \<noteq> [] then ShipWithFlags
      else Accepted)"

definition gate_cleared :: "accept_verdict_kind \<Rightarrow> bool" where
  "gate_cleared verdict \<longleftrightarrow> verdict \<noteq> Rejected"

definition sherlock_items :: "sherlock_flag list \<Rightarrow> flagged_item list" where
  "sherlock_items flags =
     map (\<lambda>f. \<lparr>fi_criterion_id = sf_criterion_id f, fi_summary = sf_concern f\<rparr>) flags"

definition EM_DASH :: string where
  "EM_DASH = [CHR 0xE2, CHR 0x80, CHR 0x94]"

fun ungraded_items :: "validated_criterion list \<Rightarrow> grading_error + flagged_item list" where
  "ungraded_items [] = Inr []"
| "ungraded_items (c # cs) =
     bind_sum (named_resource c) (\<lambda>resource.
       bind_sum (ungraded_items cs) (\<lambda>rest.
         Inr (\<lparr>fi_criterion_id = Some (vc_id c),
               fi_summary = vc_text c @ '' '' @ EM_DASH @ '' ungraded: demonstration deferred, '' @
                 resource @ '' absent''\<rparr> # rest)))"

definition flagged_items ::
  "execution_criterion list \<Rightarrow> sherlock_flag list \<Rightarrow> grading_error + flagged_item list" where
  "flagged_items criteria sherlock_flags =
     bind_sum (ungraded_items (ungraded criteria)) (\<lambda>items.
       Inr (items @ sherlock_items sherlock_flags))"

subsection \<open>Grading one pass\<close>

definition MISSING_RESULT_REASONING :: string where
  "MISSING_RESULT_REASONING =
     ''The evaluator returned no result for this criterion id. '' @
     ''A dispatched criterion with no verdict grades failed.''"

definition DUPLICATE_RESULT_REASONING :: string where
  "DUPLICATE_RESULT_REASONING =
     ''The evaluator returned more than one result for this criterion id. '' @
     ''A criterion answered twice has no verdict, so it grades failed.''"

fun UNDEMONSTRATED_REASONS :: "undemonstrated_reason \<Rightarrow> string" where
  "UNDEMONSTRATED_REASONS WorkspaceNotTheGradedSha =
     ''undemonstrated: the grading workspace held uncommitted changes, or its '' @
     ''head was not the sha this verdict would be stamped with, so what it read '' @
     ''is not what that sha names''"
| "UNDEMONSTRATED_REASONS CheckSurvivedMutation =
     ''undemonstrated: the check this criterion names still passed after the '' @
     ''behaviour it names had been removed from the tree, so passing it is no '' @
     ''reading of that behaviour''"
| "UNDEMONSTRATED_REASONS SatisfiedAtBase =
     ''undemonstrated: the check this criterion names already passed at the '' @
     ''lane's base, where none of the work exists, so passing it at the head is '' @
     ''a reading of the base and not of the branch''"
| "UNDEMONSTRATED_REASONS BaseReadingUnsettled =
     ''undemonstrated: the check this criterion names was to be run at the '' @
     ''lane's base and no answer for it was settled there, so what the branch '' @
     ''contributed to passing it was never read''"

definition grade_row ::
  "(criterion_id, criterion_result) pydict \<Rightarrow> criterion_id list
     \<Rightarrow> (criterion_id \<Rightarrow> undemonstrated_reason option) \<Rightarrow> execution_criterion
     \<Rightarrow> criterion_result" where
  "grade_row answered duplicates undemonstrated criterion =
     (let (passed, reasoning, declared, exercised) =
        (case map_of answered (ec_id criterion) of
           None \<Rightarrow> (False, MISSING_RESULT_REASONING, Cheap, [])
         | Some answer \<Rightarrow>
             if ec_id criterion \<in> set duplicates
             then (False, DUPLICATE_RESULT_REASONING, Cheap, [])
             else (rs_passed answer, rs_reasoning answer, rs_rederivation_class answer,
                   rs_exercised_paths answer));
      (passed, reasoning) =
        (case undemonstrated (ec_id criterion) of
           None \<Rightarrow> (passed, reasoning)
         | Some withheld \<Rightarrow> (False, UNDEMONSTRATED_REASONS withheld)) in
      \<lparr>rs_criterion_id = ec_id criterion, rs_criterion = ec_text criterion, rs_passed = passed,
       rs_reasoning = reasoning, rs_rederivation_class = declared,
       rs_exercised_paths = exercised\<rparr>)"

definition failure_of :: "criterion_result \<Rightarrow> criterion_failure" where
  "failure_of r =
     \<lparr>fl_criterion_id = rs_criterion_id r, fl_text = rs_criterion r, fl_reasoning = rs_reasoning r\<rparr>"

definition grade_iteration ::
  "execution_criterion list \<Rightarrow> acceptance_criteria_output
     \<Rightarrow> (criterion_id \<Rightarrow> undemonstrated_reason option) \<Rightarrow> grading_error + iteration_grade" where
  "grade_iteration criteria output undemonstrated =
     (case seat_answers rs_criterion_id (map ec_id criteria) (ao_criteria_results output) of
        (answered, duplicate_ids, unknown_ids) \<Rightarrow>
          let results = map (grade_row answered duplicate_ids undemonstrated) criteria;
              missing_ids = filter (\<lambda>i. map_of answered i = None) (map ec_id criteria);
              graded_ids = map ec_id (filter is_graded criteria);
              failures = filter (\<lambda>f. fl_criterion_id f \<in> set graded_ids)
                (map failure_of (filter (\<lambda>r. \<not> rs_passed r) results));
              passed_count =
                length (filter (\<lambda>r. rs_passed r \<and> rs_criterion_id r \<in> set graded_ids) results);
              grade =
                \<lparr>ig_results = results, ig_failures = failures, ig_missing_ids = missing_ids,
                 ig_unknown_ids = unknown_ids, ig_duplicate_ids = duplicate_ids,
                 ig_dispatched_count = length criteria, ig_passed_count = passed_count,
                 ig_verdict = accept_verdict criteria results,
                 ig_sherlock_flags = ao_sherlock_flags output\<rparr> in
          if valid_grade grade then Inr grade else Inl GradeInvalid)"

definition require_permutation :: "iteration_grade \<Rightarrow> grading_error + unit" where
  "require_permutation grade =
     (case fan_in_breach (ig_missing_ids grade) (ig_duplicate_ids grade) (ig_unknown_ids grade) of
        Some breach \<Rightarrow> Inl (NotAPermutation breach)
      | None \<Rightarrow> Inr ())"

definition fan_in_report :: "iteration_grade \<Rightarrow> nat \<Rightarrow> grading_error + fan_in_report" where
  "fan_in_report grade attempts =
     (let report =
        \<lparr>fr_missing_ids = ig_missing_ids grade, fr_unknown_ids = ig_unknown_ids grade,
         fr_duplicate_ids = ig_duplicate_ids grade,
         fr_dispatched_count = ig_dispatched_count grade, fr_attempts = attempts\<rparr> in
      if valid_fan_in_report report then Inr report else Inl GradeInvalid)"

subsection \<open>Laws of a row\<close>

lemma grade_row_id [simp]: "rs_criterion_id (grade_row a d u c) = ec_id c"
  by (simp add: grade_row_def Let_def split: prod.splits)

lemma grade_row_text [simp]: "rs_criterion (grade_row a d u c) = ec_text c"
  by (simp add: grade_row_def Let_def split: prod.splits)

lemma grade_row_passed:
  "rs_passed (grade_row a d u c) \<longleftrightarrow>
     (\<exists>r. map_of a (ec_id c) = Some r \<and> ec_id c \<notin> set d \<and> rs_passed r \<and> u (ec_id c) = None)"
  by (auto simp: grade_row_def Let_def split: option.splits)

lemma reasons_nonempty: "UNDEMONSTRATED_REASONS w \<noteq> []"
  by (cases w) simp_all

lemma grade_row_reasoning:
  assumes "\<forall>r. map_of a (ec_id c) = Some r \<longrightarrow> rs_reasoning r \<noteq> []"
  shows "rs_reasoning (grade_row a d u c) \<noteq> []"
  using assms reasons_nonempty
  by (auto simp: grade_row_def Let_def MISSING_RESULT_REASONING_def DUPLICATE_RESULT_REASONING_def
      split: option.splits)

text \<open>Exactly one answer: the seat is taken and no duplicate was named.\<close>

lemma one_answer:
  "find (\<lambda>r. key r = i) xs = Some r \<and> i \<notin> set (repeats {} (filter P (map key xs))) \<and> P i \<longleftrightarrow>
     filter (\<lambda>r. key r = i) xs = [r] \<and> P i"
proof (cases "P i")
  case True
  then have len: "length (filter (\<lambda>y. y = i) (filter P (map key xs))) =
      length (filter (\<lambda>r. key r = i) xs)"
    by (induction xs) auto
  have "find (\<lambda>r. key r = i) xs = Some r \<longleftrightarrow>
      filter (\<lambda>r. key r = i) xs \<noteq> [] \<and> hd (filter (\<lambda>r. key r = i) xs) = r"
    by (induction xs) auto
  then show ?thesis
    using True len by (cases "filter (\<lambda>r. key r = i) xs"; cases "tl (filter (\<lambda>r. key r = i) xs)")
      (auto simp: in_repeats)
qed simp

text \<open>The gate over graded rows: an id's verdict is the verdict of any of its rows.\<close>

lemma gate_failures_rows:
  "set (gate_failures criteria (map (grade_row a d u) criteria)) =
     {c \<in> set criteria. is_graded c \<and> \<not> rs_passed (grade_row a d u c)}"
proof -
  let ?rows = "map (grade_row a d u) criteria"
  have "(case map_of (results_by_id ?rows) (ec_id c) of None \<Rightarrow> True | Some r \<Rightarrow> \<not> rs_passed r)
      \<longleftrightarrow> \<not> rs_passed (grade_row a d u c)" if c: "c \<in> set criteria" for c
  proof -
    have "map_of (results_by_id ?rows) (ec_id c) \<noteq> None"
      unfolding results_by_id_def dict_of_None using c by (auto simp: image_iff)
    then obtain r where r: "map_of (results_by_id ?rows) (ec_id c) = Some r" by blast
    then have "r \<in> set ?rows" "rs_criterion_id r = ec_id c"
      unfolding results_by_id_def by (auto dest!: dict_of_Some)
    then obtain c' where "r = grade_row a d u c'" "ec_id c' = ec_id c" by auto
    then have "rs_passed r = rs_passed (grade_row a d u c)" by (simp add: grade_row_passed)
    then show ?thesis using r by simp
  qed
  then show ?thesis by (auto simp: gate_failures_def Let_def)
qed

lemma ungraded_Nil: "ungraded criteria = [] \<longleftrightarrow> (\<forall>c \<in> set criteria. is_graded c)"
  by (induction criteria rule: ungraded.induct) auto

lemma ungraded_members: "c \<in> set (ungraded criteria) \<longleftrightarrow>
    Validated c \<in> set criteria \<and> fs_verdict (vc_feasibility c) = Unverifiable"
  by (induction criteria rule: ungraded.induct) auto

lemma grade_iteration_parts:
  assumes "grade_iteration criteria output u = Inr g"
  obtains a d where
    "seat_answers rs_criterion_id (map ec_id criteria) (ao_criteria_results output) =
       (a, d, ig_unknown_ids g)"
    "ig_duplicate_ids g = d"
    "ig_missing_ids g = filter (\<lambda>i. map_of a i = None) (map ec_id criteria)"
    "ig_results g = map (grade_row a d u) criteria"
    "ig_failures g = filter (\<lambda>f. fl_criterion_id f \<in> ec_id ` {c \<in> set criteria. is_graded c})
       (map failure_of (filter (\<lambda>r. \<not> rs_passed r) (ig_results g)))"
    "ig_passed_count g = length (filter (\<lambda>r. rs_passed r \<and>
       rs_criterion_id r \<in> ec_id ` {c \<in> set criteria. is_graded c}) (ig_results g))"
    "ig_dispatched_count g = length criteria"
    "ig_verdict g = accept_verdict criteria (ig_results g)"
proof -
  obtain a d n where
    s: "seat_answers rs_criterion_id (map ec_id criteria) (ao_criteria_results output) = (a, d, n)"
    by (cases "seat_answers rs_criterion_id (map ec_id criteria) (ao_criteria_results output)")
  have image: "set (map ec_id (filter is_graded criteria)) = ec_id ` {c \<in> set criteria. is_graded c}"
    by (simp only: set_map set_filter)
  from assms have g: "g = \<lparr>ig_results = map (grade_row a d u) criteria,
      ig_failures = filter (\<lambda>f. fl_criterion_id f \<in> ec_id ` {c \<in> set criteria. is_graded c})
        (map failure_of (filter (\<lambda>r. \<not> rs_passed r) (map (grade_row a d u) criteria))),
      ig_missing_ids = filter (\<lambda>i. map_of a i = None) (map ec_id criteria),
      ig_unknown_ids = n, ig_duplicate_ids = d, ig_dispatched_count = length criteria,
      ig_passed_count = length (filter (\<lambda>r. rs_passed r \<and>
        rs_criterion_id r \<in> ec_id ` {c \<in> set criteria. is_graded c})
        (map (grade_row a d u) criteria)),
      ig_verdict = accept_verdict criteria (map (grade_row a d u) criteria),
      ig_sherlock_flags = ao_sherlock_flags output\<rparr>"
    unfolding grade_iteration_def s prod.case Let_def image by (rule if_Inr)
  show ?thesis
    by (rule that [of a d]) (simp_all only: s g iteration_grade.select_convs)
qed

lemma grade_row_from_answers:
  assumes "seat_answers rs_criterion_id (map ec_id criteria) answers = (a, d, n)"
    and "c \<in> set criteria"
  shows "rs_passed (grade_row a d u c) \<longleftrightarrow>
     (\<exists>r. filter (\<lambda>r. rs_criterion_id r = ec_id c) answers = [r] \<and> rs_passed r) \<and>
     u (ec_id c) = None"
proof -
  have i: "ec_id c \<in> set (map ec_id criteria)" using assms(2) by simp
  have get: "map_of a (ec_id c) = find (\<lambda>r. rs_criterion_id r = ec_id c) answers"
    using seat_answers_facts(3) [OF assms(1), of "ec_id c"] i by simp
  have dup: "d = repeats {} (filter (\<lambda>i. i \<in> set (map ec_id criteria)) (map rs_criterion_id answers))"
    by (rule seat_answers_facts(1) [OF assms(1)])
  show ?thesis
    unfolding grade_row_passed get dup
    using one_answer [of rs_criterion_id "ec_id c" answers _ "\<lambda>i. i \<in> set (map ec_id criteria)"] i
    by blast
qed

lemma graded_rows:
  assumes "grade_iteration criteria output u = Inr g"
  obtains row where "ig_results g = map row criteria"
    "\<forall>c. rs_criterion_id (row c) = ec_id c \<and> rs_criterion (row c) = ec_text c"
    "\<forall>c \<in> set criteria. rs_passed (row c) \<longleftrightarrow>
       (\<exists>r. filter (\<lambda>r. rs_criterion_id r = ec_id c) (ao_criteria_results output) = [r] \<and> rs_passed r) \<and>
       u (ec_id c) = None"
    "gate_cleared (ig_verdict g) \<longleftrightarrow> (\<forall>c \<in> set criteria. is_graded c \<longrightarrow> rs_passed (row c))"
proof -
  obtain a d where parts:
    "seat_answers rs_criterion_id (map ec_id criteria) (ao_criteria_results output) =
       (a, d, ig_unknown_ids g)"
    "ig_results g = map (grade_row a d u) criteria"
    "ig_verdict g = accept_verdict criteria (ig_results g)"
    by (rule grade_iteration_parts [OF assms]) (rule that, assumption+)
  have "gate_failures criteria (ig_results g) = [] \<longleftrightarrow>
      set (gate_failures criteria (ig_results g)) = {}" by simp
  also have "\<dots> \<longleftrightarrow> (\<forall>c \<in> set criteria. is_graded c \<longrightarrow> rs_passed (grade_row a d u c))"
    unfolding parts(2) gate_failures_rows by blast
  finally have "gate_cleared (ig_verdict g) \<longleftrightarrow>
      (\<forall>c \<in> set criteria. is_graded c \<longrightarrow> rs_passed (grade_row a d u c))"
    unfolding parts(3) by (simp add: gate_cleared_def accept_verdict_def)
  then show ?thesis
    using that [of "grade_row a d u"] parts(2) grade_row_from_answers [OF parts(1)] by simp
qed

text \<open>Claim C10. Grading is fail-closed: the run is not rejected exactly when every criterion that
  can be graded was answered exactly once, that answer passed and no reading of its tree was
  withheld; it is accepted without flags exactly when, besides, nothing was left ungraded.\<close>

theorem grading_is_fail_closed:
  assumes "grade_iteration criteria output undemonstrated = Inr g"
  shows "(gate_cleared (ig_verdict g) \<longleftrightarrow>
      (\<forall>c. c \<in> set criteria \<and> is_graded c \<longrightarrow>
        (\<exists>r. filter (\<lambda>r. rs_criterion_id r = ec_id c) (ao_criteria_results output) = [r] \<and>
           rs_passed r) \<and>
        undemonstrated (ec_id c) = None)) \<and>
    (ig_verdict g = Accepted \<longleftrightarrow>
      gate_cleared (ig_verdict g) \<and> (\<forall>c. c \<in> set criteria \<longrightarrow> is_graded c))"
proof -
  obtain row where row: "ig_results g = map row criteria"
      "\<forall>c. rs_criterion_id (row c) = ec_id c \<and> rs_criterion (row c) = ec_text c"
      "\<forall>c \<in> set criteria. rs_passed (row c) \<longleftrightarrow>
         (\<exists>r. filter (\<lambda>r. rs_criterion_id r = ec_id c) (ao_criteria_results output) = [r] \<and>
            rs_passed r) \<and> undemonstrated (ec_id c) = None"
      "gate_cleared (ig_verdict g) \<longleftrightarrow> (\<forall>c \<in> set criteria. is_graded c \<longrightarrow> rs_passed (row c))"
    by (rule graded_rows [OF assms]) (rule that, assumption+)
  have verdict: "ig_verdict g = accept_verdict criteria (ig_results g)"
    by (rule grade_iteration_parts [OF assms])
  have "ig_verdict g = Accepted \<longleftrightarrow> gate_cleared (ig_verdict g) \<and> (\<forall>c \<in> set criteria. is_graded c)"
    unfolding verdict by (simp add: gate_cleared_def accept_verdict_def ungraded_Nil Ball_def)
  then show ?thesis using row by blast
qed

definition sample_criterion :: "criterion_id \<Rightarrow> execution_criterion" where
  "sample_criterion i = Tracker \<lparr>tc_id = i, tc_text = ''t''\<rparr>"

definition sample_result :: "criterion_id \<Rightarrow> criterion_result" where
  "sample_result i =
     \<lparr>rs_criterion_id = i, rs_criterion = ''t'', rs_passed = True, rs_reasoning = ''ran'',
      rs_rederivation_class = Cheap, rs_exercised_paths = []\<rparr>"

definition sample_pass :: acceptance_criteria_output where
  "sample_pass =
     \<lparr>ao_criteria_results = [sample_result ''A'', sample_result ''A''], ao_sherlock_flags = []\<rparr>"

definition sample_grade :: iteration_grade where
  "sample_grade =
     \<lparr>ig_results =
        [\<lparr>rs_criterion_id = ''A'', rs_criterion = ''t'', rs_passed = False,
          rs_reasoning = DUPLICATE_RESULT_REASONING, rs_rederivation_class = Cheap,
          rs_exercised_paths = []\<rparr>],
      ig_failures =
        [\<lparr>fl_criterion_id = ''A'', fl_text = ''t'', fl_reasoning = DUPLICATE_RESULT_REASONING\<rparr>],
      ig_missing_ids = [], ig_unknown_ids = [], ig_duplicate_ids = [''A''],
      ig_dispatched_count = 1, ig_passed_count = 0, ig_verdict = Rejected,
      ig_sherlock_flags = []\<rparr>"

lemma sample_grade_ok:
  "grade_iteration [sample_criterion ''A''] sample_pass (\<lambda>_. None) = Inr sample_grade"
  by (simp add: grade_iteration_def sample_criterion_def sample_pass_def sample_result_def
      sample_grade_def seat_answers_def seat_step_def Let_def grade_row_def failure_of_def
      valid_grade_def valid_result_def valid_failure_def has_text_def rx_isspace_def
      DUPLICATE_RESULT_REASONING_def accept_verdict_def gate_failures_def results_by_id_def
      dict_of_def)

theorem grading_is_fail_closed_witness:
  "(gate_cleared (ig_verdict sample_grade) \<longleftrightarrow>
      (\<forall>c. c \<in> set [sample_criterion ''A''] \<and> is_graded c \<longrightarrow>
        (\<exists>r. filter (\<lambda>r. rs_criterion_id r = ec_id c) (ao_criteria_results sample_pass) = [r] \<and>
           rs_passed r) \<and>
        (None :: undemonstrated_reason option) = None)) \<and>
    (ig_verdict sample_grade = Accepted \<longleftrightarrow>
      gate_cleared (ig_verdict sample_grade) \<and>
      (\<forall>c. c \<in> set [sample_criterion ''A''] \<longrightarrow> is_graded c))"
  by (rule grading_is_fail_closed [OF sample_grade_ok])

lemma graded_ids_distinct:
  assumes "distinct (map ec_id criteria)" and "c \<in> set criteria"
  shows "ec_id c \<in> ec_id ` {c \<in> set criteria. is_graded c} \<longleftrightarrow> is_graded c"
  using assms by (auto simp: distinct_map dest: inj_onD)

lemma length_filter_full: "length (filter P xs) = length xs \<longleftrightarrow> (\<forall>x \<in> set xs. P x)"
  by (metis filter_True length_filter_less nat_neq_iff)

lemma length_filter_split:
  "length (filter (\<lambda>x. P x \<and> Q x) xs) + length (filter (\<lambda>x. \<not> P x \<and> Q x) xs) = length (filter Q xs)"
  by (induction xs) auto

text \<open>The denominators are the harness's own: the results answer the dispatched ids in
  order with the dispatched texts, the dispatched count is the number of criteria, every criterion
  that can be graded is in exactly one of the passed count and the failures, the run clears the
  gate exactly when no failure is recorded, and it is accepted exactly when the passed count
  reaches the dispatched count.\<close>

lemma grading_counts:
  assumes "grade_iteration criteria output undemonstrated = Inr g"
    and "distinct (map ec_id criteria)"
  shows "map rs_criterion_id (ig_results g) = map ec_id criteria \<and>
    map rs_criterion (ig_results g) = map ec_text criteria \<and>
    ig_dispatched_count g = length criteria \<and>
    ig_passed_count g + length (ig_failures g) = length (filter is_graded criteria) \<and>
    (gate_cleared (ig_verdict g) \<longleftrightarrow> ig_failures g = []) \<and>
    (ig_verdict g = Accepted \<longleftrightarrow> ig_passed_count g = ig_dispatched_count g)"
proof -
  obtain a d where parts:
    "ig_results g = map (grade_row a d undemonstrated) criteria"
    "ig_failures g = filter (\<lambda>f. fl_criterion_id f \<in> ec_id ` {c \<in> set criteria. is_graded c})
       (map failure_of (filter (\<lambda>r. \<not> rs_passed r) (ig_results g)))"
    "ig_passed_count g = length (filter (\<lambda>r. rs_passed r \<and>
       rs_criterion_id r \<in> ec_id ` {c \<in> set criteria. is_graded c}) (ig_results g))"
    "ig_dispatched_count g = length criteria"
    "ig_verdict g = accept_verdict criteria (ig_results g)"
    by (rule grade_iteration_parts [OF assms(1)]) (rule that, assumption+)
  let ?row = "grade_row a d undemonstrated"
  have fl_id: "fl_criterion_id (failure_of r) = rs_criterion_id r" for r
    by (simp add: failure_of_def)
  have failed: "ig_failures g = map (\<lambda>c. failure_of (?row c))
      (filter (\<lambda>c. \<not> rs_passed (?row c) \<and> is_graded c) criteria)"
  proof -
    have "ig_failures g = map (\<lambda>c. failure_of (?row c)) (filter (\<lambda>c. \<not> rs_passed (?row c) \<and>
        ec_id c \<in> ec_id ` {c \<in> set criteria. is_graded c}) criteria)"
      unfolding parts(2) parts(1) by (simp add: filter_map comp_def fl_id conj_commute)
    moreover have "filter (\<lambda>c. \<not> rs_passed (?row c) \<and>
        ec_id c \<in> ec_id ` {c \<in> set criteria. is_graded c}) criteria =
        filter (\<lambda>c. \<not> rs_passed (?row c) \<and> is_graded c) criteria"
      by (intro filter_cong) (use graded_ids_distinct [OF assms(2)] in auto)
    ultimately show ?thesis by simp
  qed
  have passed: "ig_passed_count g = length (filter (\<lambda>c. rs_passed (?row c) \<and> is_graded c) criteria)"
  proof -
    have "ig_passed_count g = length (filter (\<lambda>c. rs_passed (?row c) \<and>
        ec_id c \<in> ec_id ` {c \<in> set criteria. is_graded c}) criteria)"
      unfolding parts(3) parts(1) by (simp add: filter_map comp_def)
    moreover have "filter (\<lambda>c. rs_passed (?row c) \<and>
        ec_id c \<in> ec_id ` {c \<in> set criteria. is_graded c}) criteria =
        filter (\<lambda>c. rs_passed (?row c) \<and> is_graded c) criteria"
      by (intro filter_cong) (use graded_ids_distinct [OF assms(2)] in auto)
    ultimately show ?thesis by simp
  qed
  have gate: "gate_failures criteria (ig_results g) = [] \<longleftrightarrow> ig_failures g = []"
  proof -
    have "gate_failures criteria (ig_results g) = [] \<longleftrightarrow>
        set (gate_failures criteria (ig_results g)) = {}" by simp
    also have "\<dots> \<longleftrightarrow> filter (\<lambda>c. \<not> rs_passed (?row c) \<and> is_graded c) criteria = []"
      unfolding parts(1) gate_failures_rows by (auto simp: filter_empty_conv)
    finally show ?thesis unfolding failed by simp
  qed
  have split: "ig_passed_count g + length (ig_failures g) = length (filter is_graded criteria)"
    unfolding failed passed
    using length_filter_split [of "\<lambda>c. rs_passed (?row c)" is_graded criteria] by simp
  have "length (filter is_graded criteria) = length criteria \<longleftrightarrow> (\<forall>c \<in> set criteria. is_graded c)"
    by (rule length_filter_full)
  moreover have "ig_passed_count g = length criteria \<longleftrightarrow>
      length (ig_failures g) = 0 \<and> length (filter is_graded criteria) = length criteria"
    using split length_filter_le [of is_graded criteria] by arith
  ultimately have "ig_passed_count g = length criteria \<longleftrightarrow>
      ig_failures g = [] \<and> (\<forall>c \<in> set criteria. is_graded c)"
    by simp
  then show ?thesis
    using split gate parts(1,4,5)
    by (auto simp: gate_cleared_def accept_verdict_def ungraded_Nil comp_def split: if_splits)
qed

text \<open>The evaluator's channel answers to the permutation guard: a grade passes it exactly
  when the results that came back are a permutation of the dispatched ids, and the three lists the
  refusal carries name exactly the ids never answered, the ids nobody dispatched and the dispatched
  ids answered more than once.\<close>

lemma grading_permutation_guard:
  assumes "grade_iteration criteria output undemonstrated = Inr g"
    and "distinct (map ec_id criteria)"
  shows "(require_permutation g = Inr () \<longleftrightarrow>
      mset (map rs_criterion_id (ao_criteria_results output)) = mset (map ec_id criteria)) \<and>
    set (ig_missing_ids g) = set (map ec_id criteria) -
      set (map rs_criterion_id (ao_criteria_results output)) \<and>
    set (ig_unknown_ids g) = set (map rs_criterion_id (ao_criteria_results output)) -
      set (map ec_id criteria) \<and>
    (\<forall>i. i \<in> set (ig_duplicate_ids g) \<longleftrightarrow> i \<in> set (map ec_id criteria) \<and>
      2 \<le> length (filter (\<lambda>r. rs_criterion_id r = i) (ao_criteria_results output)))"
proof -
  let ?ids = "map ec_id criteria" and ?answered = "map rs_criterion_id (ao_criteria_results output)"
  obtain a d where parts:
    "seat_answers rs_criterion_id ?ids (ao_criteria_results output) = (a, d, ig_unknown_ids g)"
    "ig_duplicate_ids g = d"
    "ig_missing_ids g = filter (\<lambda>i. map_of a i = None) ?ids"
    by (rule grade_iteration_parts [OF assms(1)]) (rule that, assumption+)
  have holes: "seat_holes ?ids ?answered =
      (ig_missing_ids g, ig_duplicate_ids g, ig_unknown_ids g)"
    using seat_answers_holes [OF parts(1)] parts(2,3) by simp
  have "require_permutation g = Inr () \<longleftrightarrow> seats.guard ?ids ?answered = None"
    by (cases "fan_in_breach (ig_missing_ids g) (ig_duplicate_ids g) (ig_unknown_ids g)")
      (simp_all add: require_permutation_def seats.guard_def holes del: fan_in_breach_None)
  then have perm: "require_permutation g = Inr () \<longleftrightarrow> mset ?answered = mset ?ids"
    unfolding seats.guard_permutation [OF assms(2)] .
  have missing: "ig_missing_ids g = filter (\<lambda>i. i \<notin> set ?answered) ?ids"
    and duplicates: "ig_duplicate_ids g = repeats {} (filter (\<lambda>i. i \<in> set ?ids) ?answered)"
    and unknown: "ig_unknown_ids g = filter (\<lambda>i. i \<notin> set ?ids) ?answered"
    using holes by (simp_all add: seat_holes_eq)
  have "i \<in> set (ig_duplicate_ids g) \<longleftrightarrow> i \<in> set ?ids \<and>
      2 \<le> length (filter (\<lambda>r. rs_criterion_id r = i) (ao_criteria_results output))" for i
    unfolding duplicates by (rule repeats_dispatched)
  then show ?thesis using perm unfolding missing unknown by auto
qed

theorem grading_permutation_guard_witness:
  "(require_permutation sample_grade = Inr () \<longleftrightarrow>
      mset (map rs_criterion_id (ao_criteria_results sample_pass)) =
        mset (map ec_id [sample_criterion ''A''])) \<and>
    (\<forall>i. i \<in> set (ig_duplicate_ids sample_grade) \<longleftrightarrow> i \<in> set (map ec_id [sample_criterion ''A'']) \<and>
      2 \<le> length (filter (\<lambda>r. rs_criterion_id r = i) (ao_criteria_results sample_pass)))"
  using grading_permutation_guard [OF sample_grade_ok] by simp

text \<open>Grading never fails on what its callers hand it: for a nonempty set of well-formed
  criteria and a schema-valid answer it returns a grade, whatever was withheld, and the fan-in
  record of that grade is well-formed for every positive number of attempts.\<close>

lemma grading_is_total:
  assumes "criteria \<noteq> []" and "list_all valid_criterion criteria" and "valid_output output"
    and "1 \<le> attempts"
  shows "\<exists>g report. grade_iteration criteria output undemonstrated = Inr g \<and>
    fan_in_report g attempts = Inr report \<and> fr_dispatched_count report = length criteria \<and>
    fr_attempts report = attempts"
proof -
  let ?ids = "map ec_id criteria"
  obtain a d n where
    s: "seat_answers rs_criterion_id ?ids (ao_criteria_results output) = (a, d, n)"
    by (cases "seat_answers rs_criterion_id ?ids (ao_criteria_results output)")
  have out: "valid_result r" if "r \<in> set (ao_criteria_results output)" for r
    using assms(3) that by (simp add: valid_output_def list_all_iff)
  have crit: "valid_criterion c" if "c \<in> set criteria" for c
    using assms(2) that by (simp add: list_all_iff)
  have row: "valid_result (grade_row a d undemonstrated c)" if "c \<in> set criteria" for c
  proof -
    have "rs_reasoning r \<noteq> []" if "map_of a (ec_id c) = Some r" for r
      using that seat_answers_facts(3) [OF s, of "ec_id c"] out [of r]
      by (auto simp: valid_result_def split: if_splits dest: find_key_member)
    then have "rs_reasoning (grade_row a d undemonstrated c) \<noteq> []"
      using grade_row_reasoning [of a c d undemonstrated] by blast
    then show ?thesis using crit [OF that] by (simp add: valid_result_def valid_criterion_def)
  qed
  have "has_text i" if "i \<in> set n" for i
    using that out seat_answers_facts(2) [OF s] by (auto simp: valid_result_def)
  moreover have "set d \<subseteq> set ?ids"
    using seat_answers_facts(1) [OF s] set_repeats [of "{}"] by fastforce
  then have "has_text i" if "i \<in> set d" for i
    using that crit by (auto simp: valid_criterion_def)
  moreover have "has_text (ec_id c)" if "c \<in> set criteria" for c
    using crit [OF that] by (simp add: valid_criterion_def)
  ultimately have ids: "list_all has_text n" "list_all has_text d"
      "list_all has_text (filter (\<lambda>i. map_of a i = None) ?ids)"
    by (auto simp: list_all_iff)
  have fails: "valid_failure (failure_of r)" if "valid_result r" for r
    using that by (simp add: valid_failure_def valid_result_def failure_of_def)
  have len: "1 \<le> length criteria" using assms(1) by (cases criteria) auto
  have "\<exists>g. grade_iteration criteria output undemonstrated = Inr g"
    using ids row fails len assms(1)
    by (auto simp: grade_iteration_def s Let_def valid_grade_def list_all_iff)
  then obtain g where g: "grade_iteration criteria output undemonstrated = Inr g" by blast
  then have "valid_grade g" "ig_dispatched_count g = length criteria"
    by (auto simp: grade_iteration_def s Let_def split: if_splits)
  then show ?thesis
    using g assms(4) by (auto simp: fan_in_report_def Let_def valid_fan_in_report_def valid_grade_def)
qed

theorem grading_is_total_witness:
  "\<exists>g report. grade_iteration [sample_criterion ''A''] sample_pass (\<lambda>_. None) = Inr g \<and>
    fan_in_report g 2 = Inr report \<and>
    fr_dispatched_count report = length [sample_criterion ''A''] \<and> fr_attempts report = 2"
  by (rule grading_is_total)
    (simp_all add: valid_criterion_def sample_criterion_def has_text_def rx_isspace_def
      valid_output_def sample_pass_def sample_result_def valid_result_def)

subsection \<open>From the sweep to the pull request's flags\<close>

lemma pair_verdicts_ok:
  assumes "\<forall>c \<in> set cs. \<exists>v. map_of d (gc_id c) = Some v"
  shows "pair_verdicts d cs = Inr (map (\<lambda>c. \<lparr>vc_id = gc_id c, vc_text = gc_text c,
           vc_feasibility = the (map_of d (gc_id c))\<rparr>) cs)"
  using assms by (induction cs) (auto split: option.splits)

lemma ungraded_items_ok:
  assumes "\<forall>c \<in> set cs. \<not> blank (fs_missing_resource (vc_feasibility c))"
  shows "\<exists>items. ungraded_items cs = Inr items \<and>
           map fi_criterion_id items = map (\<lambda>c. Some (vc_id c)) cs"
  using assms
proof (induction cs)
  case (Cons c cs)
  then obtain r where "fs_missing_resource (vc_feasibility c) = Some r" "\<not> py_blank r"
    by (cases "fs_missing_resource (vc_feasibility c)") auto
  then have "named_resource c = Inr r" by (simp add: named_resource_def)
  then show ?case using Cons by auto
qed simp



end
