(* ===== verification/Redispatch.thy ===== *)
theory Redispatch
  imports Grading
begin

section \<open>Bounded re-dispatch\<close>

text \<open>
  \<^verbatim>\<open>core/redispatch.py\<close>. A dispatch is an agent session: what it answers is a
  parameter, a function of the attempt's number and of the breach it is handed. It produces an
  output, is refused with a correctable breach, or lets another exception escape; the check does
  the same on the output. The loop is the code's \<^verbatim>\<open>while True\<close>; the log lines
  it writes are part of the result.
\<close>

datatype ('t, 'e, 'x) dispatched = Produced 't | RefusedDispatch 'e | CrashedDispatch 'x

datatype ('e, 'x) checked = Conforms | RefusedOutput 'e | CrashedCheck 'x

record ('t, 'e) redispatched =
  rd_output :: 't
  rd_unresolved :: "'e option"
  rd_breaches :: "'e list"
  rd_attempts :: nat

datatype ('t, 'e, 'x) redispatch_end =
  Returned "('t, 'e) redispatched"
| RaisedBreach 'e
| Escaped 'x

type_synonym ('t, 'e, 'x) dispatcher = "nat \<Rightarrow> 'e option \<Rightarrow> ('t, 'e, 'x) dispatched"

type_synonym 'e breach_log = "(nat \<times> 'e) list"

definition previous_breach :: "'e list \<Rightarrow> 'e option" where
  "previous_breach breaches = (if breaches = [] then None else Some (last breaches))"

function until_conforming_from ::
  "('t, 'e, 'x) dispatcher \<Rightarrow> ('t \<Rightarrow> ('e, 'x) checked) \<Rightarrow> int \<Rightarrow> nat \<Rightarrow> 'e list \<Rightarrow> 'e breach_log
     \<Rightarrow> 'e breach_log \<times> ('t, 'e, 'x) redispatch_end" where
  "until_conforming_from dispatch check max_attempts done breaches log =
     (let attempt = Suc done in
      case dispatch attempt (previous_breach breaches) of
        CrashedDispatch x \<Rightarrow> (log, Escaped x)
      | RefusedDispatch caught \<Rightarrow>
          if int attempt \<ge> max_attempts
          then (log @ [(attempt, caught)], RaisedBreach caught)
          else until_conforming_from dispatch check max_attempts attempt
                 (breaches @ [caught]) (log @ [(attempt, caught)])
      | Produced output \<Rightarrow>
          (case check output of
             CrashedCheck x \<Rightarrow> (log, Escaped x)
           | Conforms \<Rightarrow>
               (log, Returned \<lparr>rd_output = output, rd_unresolved = None, rd_breaches = breaches,
                                rd_attempts = attempt\<rparr>)
           | RefusedOutput caught \<Rightarrow>
               if int attempt \<ge> max_attempts
               then (log @ [(attempt, caught)],
                     Returned \<lparr>rd_output = output, rd_unresolved = Some caught,
                               rd_breaches = breaches @ [caught], rd_attempts = attempt\<rparr>)
               else until_conforming_from dispatch check max_attempts attempt
                      (breaches @ [caught]) (log @ [(attempt, caught)])))"
  by pat_completeness auto

termination
  by (relation "measure (\<lambda>(dispatch, check, max_attempts, done, breaches, log).
        nat (max_attempts - int done))") auto

declare until_conforming_from.simps [simp del]

definition until_conforming ::
  "('t, 'e, 'x) dispatcher \<Rightarrow> ('t \<Rightarrow> ('e, 'x) checked) \<Rightarrow> int
     \<Rightarrow> 'e breach_log \<times> ('t, 'e, 'x) redispatch_end" where
  "until_conforming dispatch check max_attempts =
     until_conforming_from dispatch check max_attempts 0 [] []"

definition CORRECTION_HEADER :: string where
  "CORRECTION_HEADER =
     ''The previous response to this exact prompt was REFUSED before it '' @
     ''reached the run. Return the whole output again, corrected. Change '' @
     ''only what the refusal names.''"

text \<open>A breach as the caller sees it: the fan-in error, or another exception with its class name
  and its text.\<close>

datatype breach = FanInRefusal criteria_fan_in_error | ContractRefusal string string

fun correction_notice :: "breach \<Rightarrow> string option" where
  "correction_notice (FanInRefusal e) = None"
| "correction_notice (ContractRefusal name detail) =
     Some (CORRECTION_HEADER @ [CHR 0x0A, CHR 0x0A] @ ''REFUSAL: '' @ detail)"

definition correction_report ::
  "('e \<Rightarrow> string) \<Rightarrow> ('e \<Rightarrow> string) \<Rightarrow> ('t, 'e) redispatched
     \<Rightarrow> criteria_error + contract_correction option" where
  "correction_report class_name text redispatched =
     (if rd_breaches redispatched = [] then Inr None
      else
        let breaches = map (\<lambda>b. \<lparr>cb_breach_class = class_name b, cb_detail = text b\<rparr>)
                         (rd_breaches redispatched) in
        if list_all (\<lambda>b. cb_breach_class b \<noteq> [] \<and> cb_detail b \<noteq> []) breaches \<and>
           1 \<le> rd_attempts redispatched
        then Inr (Some \<lparr>cr_breaches = breaches, cr_attempts = rd_attempts redispatched\<rparr>)
        else Inl ValidationError)"

definition until_permutation ::
  "(nat \<Rightarrow> ('t, criteria_fan_in_error, 'x) dispatched)
     \<Rightarrow> ('t \<Rightarrow> (criteria_fan_in_error, 'x) checked) \<Rightarrow> int
     \<Rightarrow> criteria_fan_in_error breach_log \<times>
        ('x + criteria_fan_in_error + 't \<times> criteria_fan_in_error option \<times> nat)" where
  "until_permutation dispatch check max_attempts =
     (case until_conforming (\<lambda>attempt _. dispatch attempt) check max_attempts of
        (log, Returned r) \<Rightarrow> (log, Inr (Inr (rd_output r, rd_unresolved r, rd_attempts r)))
      | (log, RaisedBreach e) \<Rightarrow> (log, Inr (Inl e))
      | (log, Escaped x) \<Rightarrow> (log, Inl x))"

subsection \<open>What every attempt was\<close>

definition attempt_refusal ::
  "('t, 'e, 'x) dispatcher \<Rightarrow> ('t \<Rightarrow> ('e, 'x) checked) \<Rightarrow> nat \<Rightarrow> 'e option \<Rightarrow> 'e option" where
  "attempt_refusal dispatch check attempt previous =
     (case dispatch attempt previous of
        RefusedDispatch e \<Rightarrow> Some e
      | Produced output \<Rightarrow> (case check output of RefusedOutput e \<Rightarrow> Some e | _ \<Rightarrow> None)
      | CrashedDispatch x \<Rightarrow> None)"

definition refused_in_order ::
  "('t, 'e, 'x) dispatcher \<Rightarrow> ('t \<Rightarrow> ('e, 'x) checked) \<Rightarrow> 'e list \<Rightarrow> bool" where
  "refused_in_order dispatch check breaches \<longleftrightarrow>
     (\<forall>k < length breaches. attempt_refusal dispatch check (Suc k)
        (previous_breach (take k breaches)) = Some (breaches ! k))"

lemma refused_in_order_snoc:
  assumes "refused_in_order dispatch check breaches"
    and "attempt_refusal dispatch check (Suc (length breaches)) (previous_breach breaches) = Some e"
  shows "refused_in_order dispatch check (breaches @ [e])"
  using assms by (auto simp: refused_in_order_def nth_append less_Suc_eq)

text \<open>The loop's contract, from any point of it that its own history explains.\<close>

definition redispatch_spec ::
  "('t, 'e, 'x) dispatcher \<Rightarrow> ('t \<Rightarrow> ('e, 'x) checked) \<Rightarrow> int \<Rightarrow> 'e breach_log
     \<Rightarrow> ('t, 'e, 'x) redispatch_end \<Rightarrow> bool" where
  "redispatch_spec dispatch check max_attempts log end \<longleftrightarrow>
     map fst log = [1 ..< Suc (length log)] \<and>
     refused_in_order dispatch check (map snd log) \<and>
     (case end of
        Returned r \<Rightarrow>
          rd_breaches r = map snd log \<and> int (rd_attempts r) \<le> max 1 max_attempts \<and>
          (case rd_unresolved r of
             None \<Rightarrow> rd_attempts r = Suc (length log) \<and> check (rd_output r) = Conforms \<and>
               dispatch (rd_attempts r) (previous_breach (map snd log)) = Produced (rd_output r)
           | Some e \<Rightarrow> rd_attempts r = length log \<and> int (rd_attempts r) = max 1 max_attempts \<and>
               e = last (map snd log) \<and> check (rd_output r) = RefusedOutput e \<and>
               dispatch (rd_attempts r) (previous_breach (butlast (map snd log))) =
                 Produced (rd_output r))
      | RaisedBreach e \<Rightarrow>
          int (length log) = max 1 max_attempts \<and> e = last (map snd log) \<and>
          dispatch (length log) (previous_breach (butlast (map snd log))) = RefusedDispatch e
      | Escaped x \<Rightarrow>
          int (length log) < max 1 max_attempts \<and>
          (dispatch (Suc (length log)) (previous_breach (map snd log)) = CrashedDispatch x \<or>
           (\<exists>output. dispatch (Suc (length log)) (previous_breach (map snd log)) = Produced output \<and>
              check output = CrashedCheck x)))"

lemma previous_breach_snoc [simp]: "previous_breach (bs @ [b]) = Some b"
  by (simp add: previous_breach_def)

lemma until_conforming_from_spec:
  assumes "breaches = map snd log" and "done = length log"
    and "map fst log = [1 ..< Suc (length log)]"
    and "refused_in_order dispatch check breaches"
    and "int done < max 1 max_attempts"
    and "until_conforming_from dispatch check max_attempts done breaches log = (log', end)"
  shows "redispatch_spec dispatch check max_attempts log' end"
  using assms
proof (induction dispatch check max_attempts "done" breaches log rule: until_conforming_from.induct)
  case (1 dispatch check max_attempts "done" breaches log)
  let ?attempt = "Suc done" and ?previous = "previous_breach breaches"
  note run = 1(8) [unfolded until_conforming_from.simps [of dispatch check max_attempts "done" breaches log]
      Let_def]
  have refusal: "refused_in_order dispatch check (breaches @ [e])"
    if "attempt_refusal dispatch check ?attempt ?previous = Some e" for e
    using 1(3,4,6) that by (intro refused_in_order_snoc) auto
  have fsts: "map fst (log @ [(?attempt, e)]) = [1 ..< Suc (length (log @ [(?attempt, e)]))]" for e
    using 1(4,5) by simp
  show ?case
  proof (cases "dispatch ?attempt ?previous")
    case (CrashedDispatch x)
    then show ?thesis
      using run 1(3-7) by (auto simp: redispatch_spec_def)
  next
    case (RefusedDispatch e)
    then have r: "refused_in_order dispatch check (breaches @ [e])"
      by (intro refusal) (simp add: attempt_refusal_def)
    show ?thesis
    proof (cases "int ?attempt \<ge> max_attempts")
      case True
      then have "log' = log @ [(?attempt, e)]" "end = RaisedBreach e"
        using run RefusedDispatch by simp_all
      then show ?thesis
        using fsts [of e] r True RefusedDispatch 1(3-7) by (auto simp: redispatch_spec_def)
    next
      case False
      have loop: "until_conforming_from dispatch check max_attempts ?attempt (breaches @ [e])
          (log @ [(?attempt, e)]) = (log', end)"
        using run RefusedDispatch False by simp
      show ?thesis
        by (rule 1(2) [OF refl RefusedDispatch False]) (use 1(3-7) fsts [of e] r False loop in auto)
    qed
  next
    case (Produced out)
    show ?thesis
    proof (cases "check out")
      case (CrashedCheck x)
      then show ?thesis
        using run Produced 1(3-7) by (auto simp: redispatch_spec_def)
    next
      case Conforms
      then show ?thesis
        using run Produced 1(3-7) by (auto simp: redispatch_spec_def)
    next
      case (RefusedOutput e)
      then have r: "refused_in_order dispatch check (breaches @ [e])"
        using Produced by (intro refusal) (simp add: attempt_refusal_def)
      show ?thesis
      proof (cases "int ?attempt \<ge> max_attempts")
        case True
        then have "log' = log @ [(?attempt, e)]"
            "end = Returned \<lparr>rd_output = out, rd_unresolved = Some e,
               rd_breaches = breaches @ [e], rd_attempts = ?attempt\<rparr>"
          using run Produced RefusedOutput by simp_all
        then show ?thesis
          using fsts [of e] r True Produced RefusedOutput 1(3-7) by (auto simp: redispatch_spec_def)
      next
        case False
        have loop: "until_conforming_from dispatch check max_attempts ?attempt (breaches @ [e])
            (log @ [(?attempt, e)]) = (log', end)"
          using run Produced RefusedOutput False by simp
        show ?thesis
          by (rule 1(1) [OF refl Produced RefusedOutput False])
            (use 1(3-7) fsts [of e] r False loop in auto)
      qed
    qed
  qed
qed

lemma until_conforming_spec:
  assumes "until_conforming dispatch check max_attempts = (log, end)"
  shows "redispatch_spec dispatch check max_attempts log end"
  using assms unfolding until_conforming_def
  by (intro until_conforming_from_spec [of "[]" "[]" 0]) (simp_all add: refused_in_order_def)

lemma until_permutation_produced:
  assumes "snd (until_permutation dispatch check max_attempts) = Inr (Inr (out, unresolved, attempts))"
  shows "dispatch attempts = Produced out \<and>
    check out = (case unresolved of None \<Rightarrow> Conforms | Some e \<Rightarrow> RefusedOutput e)"
proof -
  let ?dispatch = "\<lambda>n (_ :: criteria_fan_in_error option). dispatch n"
  obtain log "end" where run: "until_conforming ?dispatch check max_attempts = (log, end)"
    by (cases "until_conforming ?dispatch check max_attempts")
  obtain r where r: "end = Returned r" "rd_output r = out" "rd_unresolved r = unresolved"
      "rd_attempts r = attempts"
    using assms unfolding until_permutation_def run by (cases "end") auto
  show ?thesis
    using until_conforming_spec [OF run] r
    unfolding redispatch_spec_def by (cases unresolved) auto
qed

text \<open>Claim C15. Re-dispatch is bounded and honest: whatever the sessions answer, the loop stops
  after at most the configured number of attempts (one when it is not positive); every refused
  attempt is named in the log once, in order, and the next one is handed exactly that refusal; an
  output comes back as conforming only when its own check accepted it, an unresolved breach only
  when every attempt of the bound was refused and it is the last refusal, a refusal is raised only
  when the last attempt produced nothing, and any other exception escapes at once.\<close>

theorem redispatch_is_bounded:
  "(case until_conforming dispatch check max_attempts of
      (log, end) \<Rightarrow> redispatch_spec dispatch check max_attempts log end)"
  using until_conforming_spec [of dispatch check max_attempts] by (auto split: prod.split)

text \<open>A conforming answer within the bound is found: if every attempt that is asked
  answers without another exception, and the bound is at least one, then either an attempt's
  output passed the check and it is the one returned with nothing unresolved, or all the attempts
  of the bound were refused.\<close>

lemma redispatch_finds_conforming:
  assumes "until_conforming dispatch check max_attempts = (log, end)" and "1 \<le> max_attempts"
    and "\<And>attempt previous x. dispatch attempt previous \<noteq> CrashedDispatch x"
    and "\<And>output x. check output \<noteq> CrashedCheck x"
  shows "(\<exists>r. end = Returned r \<and> rd_unresolved r = None \<and> check (rd_output r) = Conforms \<and>
            length (rd_breaches r) < nat max_attempts) \<or>
     (length log = nat max_attempts \<and> refused_in_order dispatch check (map snd log))"
proof -
  have spec: "redispatch_spec dispatch check max_attempts log end"
    using assms(1) unfolding until_conforming_def
    by (intro until_conforming_from_spec [of "[]" "[]" 0]) (simp_all add: refused_in_order_def)
  show ?thesis
  proof (cases "end")
    case (Returned r)
    then show ?thesis using spec assms(2)
      by (cases "rd_unresolved r") (auto simp: redispatch_spec_def)
  next
    case (RaisedBreach e)
    then show ?thesis using spec assms(2) by (auto simp: redispatch_spec_def)
  next
    case (Escaped x)
    then show ?thesis using spec assms(3,4) by (auto simp: redispatch_spec_def)
  qed
qed

definition sample_dispatch :: "(nat, nat, nat) dispatcher" where
  "sample_dispatch attempt previous = (case previous of None \<Rightarrow> Produced 0 | Some e \<Rightarrow> Produced (Suc e))"

definition sample_check :: "nat \<Rightarrow> (nat, nat) checked" where
  "sample_check n = (if n = 0 then RefusedOutput 41 else Conforms)"

theorem redispatch_finds_conforming_witness:
  "let r = \<lparr>rd_output = 42, rd_unresolved = None, rd_breaches = [41], rd_attempts = 2\<rparr> in
   until_conforming sample_dispatch sample_check 3 = ([(1, 41)], Returned r) \<and>
   ((\<exists>r'. Returned r = (Returned r' :: (nat, nat, nat) redispatch_end) \<and> rd_unresolved r' = None \<and>
       sample_check (rd_output r') = Conforms \<and> length (rd_breaches r') < nat 3) \<or>
    (length [(1 :: nat, 41 :: nat)] = nat 3 \<and>
     refused_in_order sample_dispatch sample_check (map snd [(1 :: nat, 41)])))"
proof -
  let ?r = "\<lparr>rd_output = 42, rd_unresolved = None, rd_breaches = [41], rd_attempts = 2\<rparr>"
  have run: "until_conforming sample_dispatch sample_check 3 = ([(1, 41)], Returned ?r)"
    by (simp add: until_conforming_def until_conforming_from.simps sample_dispatch_def
        sample_check_def previous_breach_def)
  show ?thesis
    unfolding Let_def
  proof (rule conjI [OF run])
    show "(\<exists>r'. Returned ?r = (Returned r' :: (nat, nat, nat) redispatch_end) \<and>
        rd_unresolved r' = None \<and>
        sample_check (rd_output r') = Conforms \<and> length (rd_breaches r') < nat 3) \<or>
      (length [(1 :: nat, 41 :: nat)] = nat 3 \<and>
       refused_in_order sample_dispatch sample_check (map snd [(1 :: nat, 41)]))"
      by (rule redispatch_finds_conforming [OF run])
        (simp_all add: sample_dispatch_def sample_check_def split: option.splits)
  qed
qed

end
