(* ===== verification/Trajectory.thy ===== *)
theory Trajectory
  imports Grading JobRegistry
begin

section \<open>The loop's progress memory and the run's disposition\<close>

text \<open>
  \<^verbatim>\<open>domain/trajectory.py\<close> and \<^verbatim>\<open>types/domain/trajectory.py\<close>: the
  fold over a loop's iteration records and the commit a stalled run lands.
  \<^verbatim>\<open>domain/outcome.py\<close>: the classification of a finished run.
\<close>

record iteration_record =
  ir_iteration :: nat
  ir_passed_count :: nat
  ir_failing_criterion_ids :: "criterion_id list"
  ir_commit_sha :: "sha option"

record loop_trajectory =
  lt_records :: "iteration_record list"
  lt_never_passed_ids :: "criterion_id list"
  lt_best_passed_count :: nat
  lt_best_iteration :: nat
  lt_best_commit_sha :: "sha option"
  lt_plateaued :: bool

datatype trajectory_error = MaxOfEmpty

text \<open>Python's \<^verbatim>\<open>max(xs, key=...)\<close> keeps the first of the largest.\<close>

fun max_by :: "('a \<Rightarrow> nat) \<Rightarrow> 'a \<Rightarrow> 'a list \<Rightarrow> 'a" where
  "max_by f best [] = best"
| "max_by f best (x # xs) = max_by f (if f x > f best then x else best) xs"

fun max_count :: "iteration_record list \<Rightarrow> trajectory_error + nat" where
  "max_count [] = Inl MaxOfEmpty"
| "max_count (r # rs) = Inr (ir_passed_count (max_by ir_passed_count r rs))"

text \<open>\<^verbatim>\<open>records[:-w]\<close> and \<^verbatim>\<open>records[-w:]\<close>; the slice
  \<^verbatim>\<open>[:-0]\<close> is empty and \<^verbatim>\<open>[-0:]\<close> is everything.\<close>

definition but_last_slice :: "nat \<Rightarrow> 'a list \<Rightarrow> 'a list" where
  "but_last_slice w xs = (if w = 0 then [] else take (length xs - w) xs)"

definition last_slice :: "nat \<Rightarrow> 'a list \<Rightarrow> 'a list" where
  "last_slice w xs = (if w = 0 then xs else drop (length xs - w) xs)"

definition fold_trajectory ::
  "iteration_record list \<Rightarrow> nat \<Rightarrow> trajectory_error + loop_trajectory" where
  "fold_trajectory records plateau_window =
     (case records of
        [] \<Rightarrow> Inr \<lparr>lt_records = [], lt_never_passed_ids = [], lt_best_passed_count = 0,
                   lt_best_iteration = 0, lt_best_commit_sha = None, lt_plateaued = False\<rparr>
      | r # rs \<Rightarrow>
          let always_failing = foldl (\<lambda>acc x. acc \<inter> set (ir_failing_criterion_ids x))
                (set (ir_failing_criterion_ids r)) rs;
              never_passed_ids =
                filter (\<lambda>c. c \<in> always_failing) (ir_failing_criterion_ids r);
              best = max_by ir_passed_count r rs;
              best_record = the (find (\<lambda>x. ir_passed_count x = ir_passed_count best) records) in
          bind_sum
            (if length records > plateau_window
             then bind_sum (max_count (but_last_slice plateau_window records)) (\<lambda>best_before.
               Inr (list_all (\<lambda>x. ir_passed_count x \<le> best_before)
                 (last_slice plateau_window records)))
             else Inr False)
            (\<lambda>plateaued.
              Inr \<lparr>lt_records = records, lt_never_passed_ids = never_passed_ids,
                   lt_best_passed_count = ir_passed_count best_record,
                   lt_best_iteration = ir_iteration best_record,
                   lt_best_commit_sha = ir_commit_sha best_record,
                   lt_plateaued = plateaued\<rparr>))"

fun landable_loop ::
  "iteration_record list \<Rightarrow> sha option \<Rightarrow> int \<Rightarrow> sha option \<Rightarrow> sha option" where
  "landable_loop [] best_sha best_count carried = best_sha"
| "landable_loop (r # rs) best_sha best_count carried =
     (let carried = (if ir_commit_sha r \<noteq> None then ir_commit_sha r else carried) in
      if carried \<noteq> None \<and> int (ir_passed_count r) > best_count
      then landable_loop rs carried (int (ir_passed_count r)) carried
      else landable_loop rs best_sha best_count carried)"

definition landable_commit :: "loop_trajectory \<Rightarrow> sha option" where
  "landable_commit trajectory = landable_loop (lt_records trajectory) None (-1) None"

subsection \<open>The fold\<close>

lemma max_by_ge: "f best \<le> f (max_by f best xs) \<and> (\<forall>x \<in> set xs. f x \<le> f (max_by f best xs))"
  by (induction xs arbitrary: best) (fastforce split: if_splits)+

lemma max_by_member: "max_by f best xs \<in> set (best # xs)"
proof (induction xs arbitrary: best)
  case (Cons x xs)
  then show ?case using Cons.IH [of x] Cons.IH [of best] by auto
qed simp

lemma max_count_eq:
  "xs \<noteq> [] \<Longrightarrow> max_count xs = Inr (Max (ir_passed_count ` set xs))"
proof -
  assume "xs \<noteq> []"
  then obtain r rs where x: "xs = r # rs" by (cases xs) auto
  have "Max (ir_passed_count ` set xs) = ir_passed_count (max_by ir_passed_count r rs)"
    using max_by_ge [of ir_passed_count r rs] max_by_member [of ir_passed_count r rs] x
    by (intro Max_eqI) auto
  then show ?thesis using x by simp
qed

lemma always_failing_fold:
  "foldl (\<lambda>acc x. acc \<inter> set (ir_failing_criterion_ids x)) S rs =
     S \<inter> {c. \<forall>r \<in> set rs. c \<in> set (ir_failing_criterion_ids r)}"
  by (induction rs arbitrary: S) auto

lemma fold_trajectory_some:
  assumes "records \<noteq> []" and "0 < w"
  obtains t best where "fold_trajectory records w = Inr t"
    "find (\<lambda>x. ir_passed_count x = Max (ir_passed_count ` set records)) records = Some best"
    "lt_records t = records"
    "lt_never_passed_ids t = filter (\<lambda>c. \<forall>r \<in> set records. c \<in> set (ir_failing_criterion_ids r))
       (ir_failing_criterion_ids (hd records))"
    "lt_best_passed_count t = ir_passed_count best"
    "lt_best_iteration t = ir_iteration best"
    "lt_best_commit_sha t = ir_commit_sha best"
    "lt_plateaued t \<longleftrightarrow> length records > w \<and>
       (\<forall>r \<in> set (drop (length records - w) records).
          ir_passed_count r \<le> Max (ir_passed_count ` set (take (length records - w) records)))"
proof -
  obtain r rs where x: "records = r # rs" using assms(1) by (cases records) auto
  have m: "ir_passed_count (max_by ir_passed_count r rs) = Max (ir_passed_count ` set records)"
    using max_count_eq [of records] x by simp
  have "Max (ir_passed_count ` set records) \<in> ir_passed_count ` set records"
    using assms(1) by (intro Max_in) auto
  then have "find (\<lambda>y. ir_passed_count y = Max (ir_passed_count ` set records)) records \<noteq> None"
    by (auto simp: find_None_iff)
  then obtain best where best:
      "find (\<lambda>y. ir_passed_count y = Max (ir_passed_count ` set records)) records = Some best"
    by blast
  have never: "filter (\<lambda>c. c \<in> foldl (\<lambda>acc x. acc \<inter> set (ir_failing_criterion_ids x))
        (set (ir_failing_criterion_ids r)) rs) (ir_failing_criterion_ids r) =
      filter (\<lambda>c. \<forall>r \<in> set records. c \<in> set (ir_failing_criterion_ids r))
        (ir_failing_criterion_ids (hd records))"
    unfolding always_failing_fold using x by (auto intro: filter_cong)
  let ?P = "length records > w \<and>
       (\<forall>r \<in> set (drop (length records - w) records).
          ir_passed_count r \<le> Max (ir_passed_count ` set (take (length records - w) records)))"
  have plateau: "(if length records > w
      then bind_sum (max_count (but_last_slice w records)) (\<lambda>best_before.
        Inr (list_all (\<lambda>x. ir_passed_count x \<le> best_before) (last_slice w records)))
      else Inr False) = Inr ?P"
  proof (cases "length records > w")
    case True
    then have "take (length records - w) records \<noteq> []" by auto
    then show ?thesis
      using assms(2) True
      by (simp add: but_last_slice_def max_count_eq last_slice_def list_all_iff)
  qed simp
  have "fold_trajectory records w =
      Inr \<lparr>lt_records = records,
           lt_never_passed_ids = filter (\<lambda>c. \<forall>r \<in> set records. c \<in> set (ir_failing_criterion_ids r))
             (ir_failing_criterion_ids (hd records)),
           lt_best_passed_count = ir_passed_count best, lt_best_iteration = ir_iteration best,
           lt_best_commit_sha = ir_commit_sha best, lt_plateaued = ?P\<rparr>"
    unfolding fold_trajectory_def x list.case Let_def m [unfolded x] never [unfolded x]
      best [unfolded x] option.sel plateau [unfolded x] bind_sum.simps ..
  then show ?thesis by (rule that [OF _ best]) simp_all
qed

text \<open>The fold is the arithmetic it promises, for every nonempty history and positive
  window: the criteria reported never passed are exactly those failing in every iteration, in the
  order they first appeared; the best iteration is the earliest with the highest passed count; and
  the loop has plateaued exactly when there are more records than the window and none of the last
  ones beats the best of those before them.\<close>

lemma trajectory_fold:
  assumes "records \<noteq> []" and "0 < w"
  shows "\<exists>t i. fold_trajectory records w = Inr t \<and> lt_records t = records \<and>
    set (lt_never_passed_ids t) = {c. \<forall>r. r \<in> set records \<longrightarrow> c \<in> set (ir_failing_criterion_ids r)} \<and>
    (\<exists>P. lt_never_passed_ids t = filter P (ir_failing_criterion_ids (hd records))) \<and>
    i < length records \<and> lt_best_passed_count t = ir_passed_count (records ! i) \<and>
    lt_best_iteration t = ir_iteration (records ! i) \<and>
    lt_best_commit_sha t = ir_commit_sha (records ! i) \<and>
    (\<forall>j. j < length records \<longrightarrow> ir_passed_count (records ! j) \<le> ir_passed_count (records ! i)) \<and>
    (\<forall>j. j < i \<longrightarrow> ir_passed_count (records ! j) < ir_passed_count (records ! i)) \<and>
    (lt_plateaued t \<longleftrightarrow> w < length records \<and>
      (\<forall>j. length records - w \<le> j \<and> j < length records \<longrightarrow>
        (\<exists>k. k < length records - w \<and>
           ir_passed_count (records ! j) \<le> ir_passed_count (records ! k))))"
proof -
  obtain t best where t: "fold_trajectory records w = Inr t"
      "find (\<lambda>x. ir_passed_count x = Max (ir_passed_count ` set records)) records = Some best"
      "lt_records t = records"
      "lt_never_passed_ids t = filter (\<lambda>c. \<forall>r \<in> set records. c \<in> set (ir_failing_criterion_ids r))
         (ir_failing_criterion_ids (hd records))"
      "lt_best_passed_count t = ir_passed_count best"
      "lt_best_iteration t = ir_iteration best"
      "lt_best_commit_sha t = ir_commit_sha best"
      "lt_plateaued t \<longleftrightarrow> length records > w \<and>
         (\<forall>r \<in> set (drop (length records - w) records).
            ir_passed_count r \<le> Max (ir_passed_count ` set (take (length records - w) records)))"
    by (rule fold_trajectory_some [OF assms]) (rule that, assumption+)
  obtain i where i: "i < length records" "records ! i = best"
      "ir_passed_count best = Max (ir_passed_count ` set records)"
      "\<forall>j < i. ir_passed_count (records ! j) \<noteq> Max (ir_passed_count ` set records)"
    using t(2) by (auto simp: find_Some_iff)
  have le: "ir_passed_count (records ! j) \<le> ir_passed_count (records ! i)" if "j < length records" for j
    using that i(2,3) by simp
  have less: "ir_passed_count (records ! j) < ir_passed_count (records ! i)" if "j < i" for j
    using that i le [of j] by (metis le_neq_implies_less less_trans)
  have tail: "(\<forall>r \<in> set (drop (length records - w) records). ir_passed_count r \<le> m) \<longleftrightarrow>
      (\<forall>j. length records - w \<le> j \<and> j < length records \<longrightarrow> ir_passed_count (records ! j) \<le> m)" for m
  proof -
    have "set (drop k records) = {records ! j |j. k \<le> j \<and> j < length records}" for k
    proof (intro set_eqI iffI)
      fix x assume "x \<in> set (drop k records)"
      then obtain n where "n < length records - k" "x = records ! (k + n)"
        by (auto simp: in_set_conv_nth)
      then show "x \<in> {records ! j |j. k \<le> j \<and> j < length records}"
        by (intro CollectI exI [of _ "k + n"]) auto
    next
      fix x assume "x \<in> {records ! j |j. k \<le> j \<and> j < length records}"
      then obtain j where "k \<le> j" "j < length records" "x = records ! j" by auto
      then show "x \<in> set (drop k records)"
        by (auto simp: in_set_conv_nth intro!: exI [of _ "j - k"])
    qed
    then show ?thesis by auto
  qed
  have head: "m \<le> Max (ir_passed_count ` set (take k records)) \<longleftrightarrow>
      (\<exists>j < k. m \<le> ir_passed_count (records ! j))" if "0 < k" "k \<le> length records" for m k
  proof -
    have "set (take k records) = (\<lambda>j. records ! j) ` {..< k}"
      using nth_image [OF that(2)] by (simp add: atLeast0LessThan)
    moreover have "{..< k} \<noteq> {}" using that(1) by auto
    ultimately show ?thesis by (subst Max_ge_iff) auto
  qed
  have "set (lt_never_passed_ids t) = {c. \<forall>r. r \<in> set records \<longrightarrow> c \<in> set (ir_failing_criterion_ids r)}"
    unfolding t(4) using hd_in_set [OF assms(1)] by auto
  moreover have "lt_plateaued t \<longleftrightarrow> w < length records \<and>
      (\<forall>j. length records - w \<le> j \<and> j < length records \<longrightarrow>
        (\<exists>k < length records - w. ir_passed_count (records ! j) \<le> ir_passed_count (records ! k)))"
  proof (cases "w < length records")
    case True
    then show ?thesis unfolding t(8) tail using head [of "length records - w"] by auto
  qed (simp add: t(8))
  ultimately show ?thesis
    using t(1,3-7) i(1,2) le less by (intro exI [of _ t] exI [of _ i]) auto
qed

definition sample_record :: "nat \<Rightarrow> nat \<Rightarrow> sha option \<Rightarrow> iteration_record" where
  "sample_record i n c =
     \<lparr>ir_iteration = i, ir_passed_count = n, ir_failing_criterion_ids = [''AC-1''], ir_commit_sha = c\<rparr>"

subsection \<open>The commit a stalled run lands\<close>

text \<open>The commit an iteration's tree is at: its own, or the last one before it.\<close>

definition carried_at :: "iteration_record list \<Rightarrow> nat \<Rightarrow> sha option" where
  "carried_at records i =
     foldl (\<lambda>c r. if ir_commit_sha r \<noteq> None then ir_commit_sha r else c) None (take (Suc i) records)"

lemma carried_at_snoc:
  "i < length records \<Longrightarrow> carried_at (records @ [r]) i = carried_at records i"
  by (simp add: carried_at_def)

lemma carried_at_last:
  "carried_at (records @ [r]) (length records) =
     (if ir_commit_sha r \<noteq> None then ir_commit_sha r
      else if records = [] then None else carried_at records (length records - 1))"
  by (cases "records = []") (simp_all add: carried_at_def)

definition landable_state ::
  "iteration_record list \<Rightarrow> sha option \<times> int \<times> sha option" where
  "landable_state records =
     foldl (\<lambda>(best_sha, best_count, carried) r.
         let carried = (if ir_commit_sha r \<noteq> None then ir_commit_sha r else carried) in
         if carried \<noteq> None \<and> int (ir_passed_count r) > best_count
         then (carried, int (ir_passed_count r), carried) else (best_sha, best_count, carried))
       (None, -1, None) records"

lemma landable_loop_foldl:
  "landable_loop rs best_sha best_count carried =
     fst (foldl (\<lambda>(best_sha, best_count, carried) r.
         let carried = (if ir_commit_sha r \<noteq> None then ir_commit_sha r else carried) in
         if carried \<noteq> None \<and> int (ir_passed_count r) > best_count
         then (carried, int (ir_passed_count r), carried) else (best_sha, best_count, carried))
       (best_sha, best_count, carried) rs)"
  by (induction rs arbitrary: best_sha best_count carried) (simp_all add: Let_def)

lemma landable_state_snoc:
  "landable_state (rs @ [r]) =
     (case landable_state rs of (best_sha, best_count, carried) \<Rightarrow>
        let carried = (if ir_commit_sha r \<noteq> None then ir_commit_sha r else carried) in
        if carried \<noteq> None \<and> int (ir_passed_count r) > best_count
        then (carried, int (ir_passed_count r), carried) else (best_sha, best_count, carried))"
  by (simp add: landable_state_def split: prod.splits)

definition landable_inv ::
  "iteration_record list \<Rightarrow> sha option \<times> int \<times> sha option \<Rightarrow> bool" where
  "landable_inv rs = (\<lambda>(best_sha, best_count, carried).
     carried = (if rs = [] then None else carried_at rs (length rs - 1)) \<and>
     (case best_sha of
        None \<Rightarrow> best_count = -1 \<and> (\<forall>i < length rs. carried_at rs i = None)
      | Some s \<Rightarrow> \<exists>i < length rs. carried_at rs i = Some s \<and>
          best_count = int (ir_passed_count (rs ! i)) \<and>
          (\<forall>j < length rs. carried_at rs j \<noteq> None \<longrightarrow>
             ir_passed_count (rs ! j) \<le> ir_passed_count (rs ! i)) \<and>
          (\<forall>j < i. carried_at rs j \<noteq> None \<longrightarrow>
             ir_passed_count (rs ! j) < ir_passed_count (rs ! i))))"

lemma landable_invariant: "landable_inv rs (landable_state rs)"
proof (induction rs rule: rev_induct)
  case Nil
  then show ?case by (simp add: landable_inv_def landable_state_def)
next
  case (snoc r rs)
  obtain b n c where s: "landable_state rs = (b, n, c)" by (cases "landable_state rs")
  let ?c = "if ir_commit_sha r \<noteq> None then ir_commit_sha r else c"
  have inv: "landable_inv rs (b, n, c)" using snoc.IH s by simp
  then have last: "carried_at (rs @ [r]) (length rs) = ?c"
    by (simp add: carried_at_last landable_inv_def)
  have old: "carried_at (rs @ [r]) i = carried_at rs i" if "i < length rs" for i
    using that by (rule carried_at_snoc)
  show ?case
  proof (cases "?c \<noteq> None \<and> int (ir_passed_count r) > n")
    case True
    then obtain x where x: "?c = Some x" by blast
    have new: "landable_state (rs @ [r]) = (?c, int (ir_passed_count r), ?c)"
      using True by (simp add: landable_state_snoc s Let_def)
    have less: "ir_passed_count (rs ! j) < ir_passed_count r"
      if "j < length rs" "carried_at rs j \<noteq> None" for j
      using inv that True by (cases b) (fastforce simp: landable_inv_def)+
    have "landable_inv (rs @ [r]) (Some x, int (ir_passed_count r), Some x)"
      unfolding landable_inv_def prod.case option.case
      using last old less x
      by (intro conjI exI [of _ "length rs"]) (auto simp: nth_append less_Suc_eq dest: less_imp_le)
    then show ?thesis unfolding new x .
  next
    case False
    have new: "landable_state (rs @ [r]) = (b, n, ?c)"
      using False by (auto simp: landable_state_snoc s Let_def)
    show ?thesis
    proof (cases b)
      case None
      then have "?c = None" using inv False by (auto simp: landable_inv_def)
      then show ?thesis
        using inv None last old unfolding new landable_inv_def by (auto simp: less_Suc_eq)
    next
      case (Some x)
      then obtain i where i: "i < length rs" "carried_at rs i = Some x"
          "n = int (ir_passed_count (rs ! i))"
          "\<forall>j < length rs. carried_at rs j \<noteq> None \<longrightarrow> ir_passed_count (rs ! j) \<le> ir_passed_count (rs ! i)"
          "\<forall>j < i. carried_at rs j \<noteq> None \<longrightarrow> ir_passed_count (rs ! j) < ir_passed_count (rs ! i)"
        using inv by (auto simp: landable_inv_def)
      have "landable_inv (rs @ [r]) (Some x, n, ?c)"
        unfolding landable_inv_def prod.case option.case
        using last old i False
        by (intro conjI exI [of _ i]) (auto simp: nth_append less_Suc_eq)
      then show ?thesis unfolding new Some .
    qed
  qed
qed

text \<open>A run lands its best reachable state: nothing is landed exactly when no iteration
  committed anything; otherwise the landed commit is the one the tree was at in some iteration that
  has a commit at or before it, whose passed count is the highest among all such iterations and
  strictly higher than in every earlier one, so a later tie never displaces the peak.\<close>

lemma landable_is_best_reachable:
  "(case landable_commit t of
      None \<Rightarrow> (\<forall>r. r \<in> set (lt_records t) \<longrightarrow> ir_commit_sha r = None)
    | Some s \<Rightarrow> (\<exists>i. i < length (lt_records t) \<and> carried_at (lt_records t) i = Some s \<and>
        (\<forall>j. j < length (lt_records t) \<and> carried_at (lt_records t) j \<noteq> None \<longrightarrow>
           ir_passed_count (lt_records t ! j) \<le> ir_passed_count (lt_records t ! i)) \<and>
        (\<forall>j. j < i \<and> carried_at (lt_records t) j \<noteq> None \<longrightarrow>
           ir_passed_count (lt_records t ! j) < ir_passed_count (lt_records t ! i))))"
proof -
  let ?rs = "lt_records t"
  obtain b n c where s: "landable_state ?rs = (b, n, c)" by (cases "landable_state ?rs")
  have land: "landable_commit t = b"
    using s by (simp add: landable_commit_def landable_loop_foldl landable_state_def)
  have inv: "landable_inv ?rs (b, n, c)" using landable_invariant [of ?rs] s by simp
  show ?thesis
  proof (cases b)
    case None
    have own: "ir_commit_sha (?rs ! i) = None" if "i < length ?rs" for i
    proof -
      have "carried_at ?rs i = None" using inv None that by (simp add: landable_inv_def)
      then show ?thesis
        using that by (auto simp: carried_at_def take_Suc_conv_app_nth split: if_splits)
    qed
    then show ?thesis unfolding land None by (auto simp: in_set_conv_nth)
  next
    case (Some s)
    then show ?thesis using inv unfolding land by (auto simp: landable_inv_def)
  qed
qed

definition sample_trajectory :: loop_trajectory where
  "sample_trajectory =
     \<lparr>lt_records = [sample_record 1 2 (Some ''a''), sample_record 2 3 None, sample_record 3 3 (Some ''c'')],
      lt_never_passed_ids = [], lt_best_passed_count = 3, lt_best_iteration = 2,
      lt_best_commit_sha = None, lt_plateaued = False\<rparr>"

theorem landable_is_best_reachable_witness:
  "landable_commit sample_trajectory = Some ''a'' \<and>
   (\<exists>i. i < length (lt_records sample_trajectory) \<and>
      carried_at (lt_records sample_trajectory) i = Some ''a'' \<and>
      (\<forall>j. j < length (lt_records sample_trajectory) \<and>
         carried_at (lt_records sample_trajectory) j \<noteq> None \<longrightarrow>
         ir_passed_count (lt_records sample_trajectory ! j) \<le>
           ir_passed_count (lt_records sample_trajectory ! i)))"
proof -
  have l: "landable_commit sample_trajectory = Some ''a''"
    by (simp add: landable_commit_def sample_trajectory_def sample_record_def Let_def)
  show ?thesis using landable_is_best_reachable [of sample_trajectory] unfolding l by auto
qed

subsection \<open>The run's disposition\<close>

text \<open>The fields of the run's state the classifier reads; the key that may be absent reads
  \<open>False\<close>.\<close>

record workflow_state =
  ws_ruling_unrecorded :: "bool option"
  ws_criteria_infeasible :: bool
  ws_accept_verdict :: accept_verdict_kind
  ws_merged :: bool
  ws_merge_error :: "string option"
  ws_review_passed :: bool
  ws_remediation_rounds_used :: int
  ws_best_iteration_sha :: "sha option"
  ws_trajectory :: "loop_trajectory option"

datatype classification_error = Unclassifiable

definition classify_outcome :: "workflow_state \<Rightarrow> classification_error + workflow_outcome" where
  "classify_outcome state =
     (let accepted = gate_cleared (ws_accept_verdict state);
          merged = ws_merged state;
          merge_error = ws_merge_error state;
          rounds = ws_remediation_rounds_used state;
          trajectory = ws_trajectory state;
          merge_failed = (\<not> merged \<and> merge_error \<noteq> None);
          loop_exit = (\<not> accepted \<and> \<not> merged \<and> merge_error = None) in
      if ws_ruling_unrecorded state = Some True then Inr ruling_unrecorded
      else if ws_criteria_infeasible state then Inr criteria_infeasible
      else if merge_failed \<and> rounds = 0 then Inr merge_divergent
      else if merge_failed \<and> rounds > 0 then Inr fix_consolidation_failed
      else if loop_exit \<and> ws_best_iteration_sha state = None \<and> trajectory \<noteq> None
        then Inr zero_commit_no_pr
      else if rounds > 0 \<and> \<not> accepted then Inr remediation_budget_exhausted
      else if loop_exit \<and> (case trajectory of None \<Rightarrow> False | Some t \<Rightarrow> lt_plateaued t)
        then Inr loop_plateaued
      else if loop_exit \<and> (case trajectory of None \<Rightarrow> True | Some t \<Rightarrow> \<not> lt_plateaued t)
        then Inr loop_not_accepted
      else if merged \<and> ws_review_passed state then Inr handed_off_for_delivery
      else if merged \<and> \<not> ws_review_passed state then Inr review_failed_fix_budget_exhausted
      else Inl Unclassifiable)"

definition halted_before_loop :: "workflow_state \<Rightarrow> bool" where
  "halted_before_loop s \<longleftrightarrow> ws_ruling_unrecorded s = Some True \<or> ws_criteria_infeasible s"

lemma classify_halted:
  "halted_before_loop s \<Longrightarrow> classify_outcome s \<in> {Inr ruling_unrecorded, Inr criteria_infeasible}"
proof (cases "ws_ruling_unrecorded s = Some True")
  case True
  then show ?thesis by (simp add: classify_outcome_def)
next
  case False
  assume "halted_before_loop s"
  with False have "ws_criteria_infeasible s" by (simp add: halted_before_loop_def)
  with False show ?thesis by (simp add: classify_outcome_def)
qed

lemma classify_merged:
  assumes "\<not> halted_before_loop s" and "ws_merged s"
  shows "classify_outcome s =
     (if ws_remediation_rounds_used s > 0 \<and> \<not> gate_cleared (ws_accept_verdict s)
      then Inr remediation_budget_exhausted
      else if ws_review_passed s then Inr handed_off_for_delivery
      else Inr review_failed_fix_budget_exhausted)"
  using assms by (simp add: halted_before_loop_def classify_outcome_def Let_def)

lemma classify_merge_failed:
  assumes "\<not> halted_before_loop s" and "\<not> ws_merged s" and "ws_merge_error s \<noteq> None"
    and "0 \<le> ws_remediation_rounds_used s"
  shows "classify_outcome s =
     (if ws_remediation_rounds_used s = 0 then Inr merge_divergent else Inr fix_consolidation_failed)"
  using assms by (simp add: halted_before_loop_def classify_outcome_def Let_def)

lemma classify_accepted_unmerged:
  assumes "\<not> halted_before_loop s" and "\<not> ws_merged s" and "ws_merge_error s = None"
    and "gate_cleared (ws_accept_verdict s)"
  shows "classify_outcome s = Inl Unclassifiable"
  using assms by (simp add: halted_before_loop_def classify_outcome_def Let_def)

lemma classify_loop_exit:
  assumes "\<not> halted_before_loop s" and "\<not> ws_merged s" and "ws_merge_error s = None"
    and "\<not> gate_cleared (ws_accept_verdict s)"
  shows "classify_outcome s =
     (if ws_best_iteration_sha s = None \<and> ws_trajectory s \<noteq> None then Inr zero_commit_no_pr
      else if ws_remediation_rounds_used s > 0 then Inr remediation_budget_exhausted
      else case ws_trajectory s of
             None \<Rightarrow> Inr loop_not_accepted
           | Some t \<Rightarrow> if lt_plateaued t then Inr loop_plateaued else Inr loop_not_accepted)"
  using assms
  by (cases "ws_trajectory s") (simp_all add: halted_before_loop_def classify_outcome_def Let_def)

text \<open>The classifier is total but for one shape: with a nonnegative number of remediation
  rounds it refuses exactly a run that was not halted before the loop and cleared its gate without
  merging and without a merge error; delivery is claimed exactly for a merged, reviewed run whose
  gate cleared or which used no remediation; a run that did not merge is never called delivered or
  review-failed; and no work is reported as zero commits unless it neither merged nor recorded a
  best commit.\<close>

lemma classification_is_total:
  assumes "0 \<le> ws_remediation_rounds_used s"
  shows "(classify_outcome s = Inl Unclassifiable \<longleftrightarrow>
      \<not> halted_before_loop s \<and> gate_cleared (ws_accept_verdict s) \<and> \<not> ws_merged s \<and>
      ws_merge_error s = None) \<and>
    (classify_outcome s = Inr handed_off_for_delivery \<longleftrightarrow>
      \<not> halted_before_loop s \<and> ws_merged s \<and> ws_review_passed s \<and>
      (gate_cleared (ws_accept_verdict s) \<or> ws_remediation_rounds_used s = 0)) \<and>
    (classify_outcome s = Inr zero_commit_no_pr \<longleftrightarrow>
      \<not> halted_before_loop s \<and> \<not> gate_cleared (ws_accept_verdict s) \<and> \<not> ws_merged s \<and>
      ws_merge_error s = None \<and> ws_best_iteration_sha s = None \<and> ws_trajectory s \<noteq> None) \<and>
    (classify_outcome s \<in> {Inr merge_divergent, Inr fix_consolidation_failed} \<longleftrightarrow>
      \<not> halted_before_loop s \<and> \<not> ws_merged s \<and> ws_merge_error s \<noteq> None)"
proof -
  consider (halted) "halted_before_loop s"
    | (merged) "\<not> halted_before_loop s" "ws_merged s"
    | (failed) "\<not> halted_before_loop s" "\<not> ws_merged s" "ws_merge_error s \<noteq> None"
    | (accepted) "\<not> halted_before_loop s" "\<not> ws_merged s" "ws_merge_error s = None"
        "gate_cleared (ws_accept_verdict s)"
    | (exited) "\<not> halted_before_loop s" "\<not> ws_merged s" "ws_merge_error s = None"
        "\<not> gate_cleared (ws_accept_verdict s)"
    by blast
  then show ?thesis
  proof cases
    case halted
    then show ?thesis using classify_halted [OF halted] by auto
  next
    case merged
    then show ?thesis using assms by (simp add: classify_merged)
  next
    case failed
    then show ?thesis using assms by (simp add: classify_merge_failed)
  next
    case accepted
    then show ?thesis by (simp add: classify_accepted_unmerged)
  next
    case exited
    then show ?thesis by (simp add: classify_loop_exit split: option.splits)
  qed
qed

definition sample_state :: workflow_state where
  "sample_state =
     \<lparr>ws_ruling_unrecorded = None, ws_criteria_infeasible = False, ws_accept_verdict = Rejected,
      ws_merged = False, ws_merge_error = None, ws_review_passed = False,
      ws_remediation_rounds_used = 0, ws_best_iteration_sha = None,
      ws_trajectory = Some sample_trajectory\<rparr>"

theorem classification_is_total_witness:
  "classify_outcome sample_state = Inr zero_commit_no_pr \<and>
   classify_outcome sample_state \<noteq> Inl Unclassifiable"
  using classification_is_total [of sample_state]
  by (simp add: sample_state_def halted_before_loop_def gate_cleared_def)

end
