(* ===== verification/CrossOff.thy ===== *)
theory CrossOff
  imports Grading
begin

section \<open>What an earlier grading is still worth, and the cross-off it becomes\<close>

text \<open>
  \<^verbatim>\<open>domain/lapse.py\<close> weighs a grading taken at one commit against another one, and
  partitions the prior cross-offs by it; \<^verbatim>\<open>domain/criterion_cross_off.py\<close> builds
  one attempt's cross-offs from its results, its readings of the tree and of the base, and what
  still stands. The write precondition \<^verbatim>\<open>require_tickable\<close>, which reads an issue
  body through the field codec, is not modelled here.
\<close>

record changeset_digest =
  cd_file_paths :: "string list"
  cd_commit_subjects :: "string list"
  cd_commit_count :: nat

datatype graded_reading = CountedReading | LapsedReading

subsection \<open>The lapse rule\<close>

definition rstrip_slash :: "string \<Rightarrow> string" where
  "rstrip_slash s = rev (dropWhile (\<lambda>c. c = CHR ''/'') (rev s))"

definition startswith :: "string \<Rightarrow> string \<Rightarrow> bool" where
  "startswith s p \<longleftrightarrow> take (length p) s = p"

definition beneath :: "string \<Rightarrow> exercised_path \<Rightarrow> bool" where
  "beneath path prefix =
     (let stem = rstrip_slash prefix in path = stem \<or> startswith path (stem @ ''/''))"

definition graded_state ::
  "sha \<Rightarrow> sha \<Rightarrow> rederivation_class \<Rightarrow> exercised_path list \<Rightarrow> changeset_digest option \<Rightarrow> bool
     \<Rightarrow> graded_reading" where
  "graded_state graded_sha head_sha rederivation_class exercised_paths changeset base_stale =
     (if base_stale then LapsedReading
      else if graded_sha = head_sha then CountedReading
      else if \<not> path_bound rederivation_class then LapsedReading
      else case changeset of
             None \<Rightarrow> LapsedReading
           | Some digest \<Rightarrow>
               if list_ex (\<lambda>path. list_ex (\<lambda>prefix. beneath path prefix) exercised_paths)
                    (cd_file_paths digest)
               then LapsedReading else CountedReading)"

record held_standing =
  hs_carried :: "criterion_cross_off list"
  hs_rederive :: "criterion_cross_off list"
  hs_lapsed :: "criterion_cross_off list"
  hs_newly_lapsed :: "criterion_cross_off list"

definition standing_step ::
  "sha \<Rightarrow> (sha \<Rightarrow> changeset_digest option) \<Rightarrow> bool \<Rightarrow> held_standing \<Rightarrow> criterion_cross_off
     \<Rightarrow> held_standing" where
  "standing_step head_sha changesets base_stale h c =
     (if co_state c = Lapsed then h\<lparr>hs_lapsed := hs_lapsed h @ [c]\<rparr>
      else if co_state c \<noteq> Passed \<or> \<not> path_bound (co_rederivation_class c)
        then h\<lparr>hs_rederive := hs_rederive h @ [c]\<rparr>
      else
        let graded_sha = ev_graded_sha (co_evidence c);
            state = graded_state graded_sha head_sha (co_rederivation_class c)
              (co_exercised_paths c) (changesets graded_sha) base_stale in
        if state = CountedReading then h\<lparr>hs_carried := hs_carried h @ [c]\<rparr>
        else if co_rederivation_class c = Observed
          then h\<lparr>hs_lapsed := hs_lapsed h @ [c], hs_newly_lapsed := hs_newly_lapsed h @ [c]\<rparr>
        else h\<lparr>hs_rederive := hs_rederive h @ [c]\<rparr>)"

definition held_standing ::
  "criterion_cross_off list \<Rightarrow> sha \<Rightarrow> (sha \<Rightarrow> changeset_digest option) \<Rightarrow> bool \<Rightarrow> held_standing"
  where
  "held_standing prior head_sha changesets base_stale =
     foldl (standing_step head_sha changesets base_stale)
       \<lparr>hs_carried = [], hs_rederive = [], hs_lapsed = [], hs_newly_lapsed = []\<rparr> prior"

definition lapse_escalation_key :: "string \<Rightarrow> string" where
  "lapse_escalation_key criterion = criterion @ '':lapse''"

subsection \<open>The readings of one attempt\<close>

type_synonym reasons = "(criterion_id, undemonstrated_reason) pydict"

definition undemonstrated_reasons ::
  "criterion_result list \<Rightarrow> bool \<Rightarrow> criterion_id list \<Rightarrow> reasons" where
  "undemonstrated_reasons results workspace_stood surviving_checks =
     (if \<not> workspace_stood
      then dict_of rs_criterion_id (\<lambda>_. WorkspaceNotTheGradedSha) results
      else dict_of rs_criterion_id (\<lambda>_. CheckSurvivedMutation)
             (filter (\<lambda>r. rs_criterion_id r \<in> set surviving_checks) results))"

definition evaluation_observation :: "string \<Rightarrow> nat \<Rightarrow> string" where
  "evaluation_observation session_id iteration =
     ''evaluator session '' @ session_id @ '', iteration '' @ decimal iteration"

definition CARRIED_REASON :: string where
  "CARRIED_REASON =
     ''carried: nothing this grading exercised moved since the sha it was '' @
     ''graded at, so the verdict it reached still stands and was not asked again''"

definition LAPSE_REASON :: string where
  "LAPSE_REASON =
     ''lapsed: what this grading exercised moved after the sha it was graded '' @
     ''at, so the verdict it reached is owed again rather than failed''"

definition LAPSE_POINTER :: string where
  "LAPSE_POINTER = ''that grading lapsed''"

definition lapse_observation :: "string \<Rightarrow> string" where
  "lapse_observation observation = observation @ '' '' @ EM_DASH @ '' '' @ LAPSE_POINTER"

definition declared_class ::
  "rederivation_class \<Rightarrow> string list \<Rightarrow> rederivation_class \<times> exercised_path list" where
  "declared_class rederivation_class exercised_paths =
     (let paths = filter (\<lambda>path. \<not> py_blank path) exercised_paths in
      if path_bound rederivation_class \<and> paths = [] then (Cheap, [])
      else (rederivation_class, paths))"

definition passed_ids :: "criterion_result list \<Rightarrow> criterion_id set" where
  "passed_ids results = set (map rs_criterion_id (filter rs_passed results))"

record base_check_result =
  bc_criterion_id :: criterion_id
  bc_command :: string
  bc_satisfied_at_base :: bool

fun base_answers_loop ::
  "base_check_result list \<Rightarrow> (criterion_id, bool) pydict \<Rightarrow> criterion_id list
     \<Rightarrow> (criterion_id, bool) pydict \<times> criterion_id list" where
  "base_answers_loop [] answers answered_twice = (answers, answered_twice)"
| "base_answers_loop (r # rs) answers answered_twice =
     base_answers_loop rs (AList.update (bc_criterion_id r) (bc_satisfied_at_base r) answers)
       (if map_of answers (bc_criterion_id r) \<noteq> None
        then answered_twice @ [bc_criterion_id r] else answered_twice)"

definition base_answers :: "base_check_result list \<Rightarrow> (criterion_id, bool) pydict" where
  "base_answers results =
     (case base_answers_loop results [] [] of
        (answers, answered_twice) \<Rightarrow> filter (\<lambda>(i, _). i \<notin> set answered_twice) answers)"

definition base_reason_step ::
  "(criterion_id, bool) pydict \<Rightarrow> reasons \<Rightarrow> criterion_id \<Rightarrow> reasons" where
  "base_reason_step at_base reasons i =
     (case map_of at_base i of
        Some True \<Rightarrow> AList.update i SatisfiedAtBase reasons
      | None \<Rightarrow> AList.update i BaseReadingUnsettled reasons
      | Some False \<Rightarrow> reasons)"

definition base_reasons :: "criterion_id list \<Rightarrow> (criterion_id, bool) pydict \<Rightarrow> reasons" where
  "base_reasons passing at_base = foldl (base_reason_step at_base) [] passing"

definition cross_off_state_of :: "bool \<Rightarrow> undemonstrated_reason option \<Rightarrow> cross_off_state" where
  "cross_off_state_of passed reason =
     (if reason \<noteq> None then Undemonstrated else if passed then Passed else Failed)"

subsection \<open>Building the roster's rows and its cross-offs\<close>

definition criterion_ref :: "string \<Rightarrow> criterion_ref" where
  "criterion_ref key = key"

datatype cross_off_error =
  StandingUnknown
| CrossOffInvalid
| StandingKeyError criterion_ref

type_synonym readings = "(criterion_ref, graded_reading) pydict"

definition standing_by_criterion ::
  "criterion_cross_off list \<Rightarrow> (criterion_ref, criterion_cross_off) pydict" where
  "standing_by_criterion standing = dict_of co_criterion (\<lambda>c. c) standing"

definition group_results ::
  "criterion_result list \<Rightarrow> (criterion_id, criterion_result list) pydict" where
  "group_results results =
     foldl (\<lambda>d r. AList.update (rs_criterion_id r)
              ((case map_of d (rs_criterion_id r) of None \<Rightarrow> [] | Some rows \<Rightarrow> rows) @ [r]) d)
       [] results"

definition standing_row :: "tracker_criterion \<Rightarrow> graded_reading \<Rightarrow> criterion_cross_off \<Rightarrow> criterion_result"
  where
  "standing_row criterion state prior =
     \<lparr>rs_criterion_id = tc_id criterion, rs_criterion = tc_text criterion,
      rs_passed = (state = CountedReading),
      rs_reasoning = (if state = CountedReading then CARRIED_REASON else LAPSE_REASON),
      rs_rederivation_class = co_rederivation_class prior,
      rs_exercised_paths = co_exercised_paths prior\<rparr>"

fun roster_rows ::
  "(criterion_ref, criterion_cross_off) pydict \<Rightarrow> readings \<Rightarrow> tracker_criterion list
     \<Rightarrow> (criterion_id, criterion_result list) pydict
     \<Rightarrow> cross_off_error + criterion_result list" where
  "roster_rows held reading [] answered = Inr (concat (dict_values answered))"
| "roster_rows held reading (c # cs) answered =
     (case map_of reading (criterion_ref (tc_id c)) of
        None \<Rightarrow>
          bind_sum (roster_rows held reading cs (AList.delete (tc_id c) answered)) (\<lambda>rest.
            Inr ((case map_of answered (tc_id c) of None \<Rightarrow> [] | Some rows \<Rightarrow> rows) @ rest))
      | Some state \<Rightarrow>
          (case map_of held (criterion_ref (tc_id c)) of
             None \<Rightarrow> Inl (StandingKeyError (criterion_ref (tc_id c)))
           | Some prior \<Rightarrow>
               bind_sum (roster_rows held reading cs (AList.delete (tc_id c) answered)) (\<lambda>rest.
                 Inr (standing_row c state prior # rest))))"

definition iteration_output ::
  "tracker_criterion list \<Rightarrow> criterion_cross_off list \<Rightarrow> readings \<Rightarrow> acceptance_criteria_output
     \<Rightarrow> cross_off_error + acceptance_criteria_output" where
  "iteration_output criteria standing reading graded =
     bind_sum (roster_rows (standing_by_criterion standing) reading criteria
                 (group_results (ao_criteria_results graded))) (\<lambda>rows.
       if rows = [] then Inl CrossOffInvalid
       else Inr \<lparr>ao_criteria_results = rows, ao_sherlock_flags = ao_sherlock_flags graded\<rparr>)"

definition built_cross_off ::
  "sha \<Rightarrow> string \<Rightarrow> reasons \<Rightarrow> (criterion_ref, criterion_cross_off) pydict \<Rightarrow> readings
     \<Rightarrow> criterion_result \<Rightarrow> cross_off_error + criterion_cross_off" where
  "built_cross_off graded_sha observation reasons held reading result =
     (let criterion = criterion_ref (rs_criterion_id result);
          validated = (\<lambda>c. if valid_cross_off c then Inr c else Inl CrossOffInvalid) in
      case map_of reading criterion of
        Some CountedReading \<Rightarrow>
          (case map_of held criterion of
             None \<Rightarrow> Inl (StandingKeyError criterion)
           | Some prior \<Rightarrow> Inr prior)
      | None \<Rightarrow>
          let withheld = map_of reasons (rs_criterion_id result);
              (declared, paths) = declared_class (rs_rederivation_class result)
                (rs_exercised_paths result) in
          validated
            \<lparr>co_criterion = criterion, co_state = cross_off_state_of (rs_passed result) withheld,
             co_evidence = \<lparr>ev_graded_sha = graded_sha, ev_test = observation\<rparr>,
             co_rederivation_class = declared, co_exercised_paths = paths,
             co_undemonstrated_reason = withheld\<rparr>
      | Some LapsedReading \<Rightarrow>
          (case map_of held criterion of
             None \<Rightarrow> Inl (StandingKeyError criterion)
           | Some prior \<Rightarrow>
               validated
                 \<lparr>co_criterion = criterion, co_state = Lapsed,
                  co_evidence =
                    \<lparr>ev_graded_sha = ev_graded_sha (co_evidence prior),
                     ev_test = lapse_observation (ev_test (co_evidence prior))\<rparr>,
                  co_rederivation_class = co_rederivation_class prior,
                  co_exercised_paths = co_exercised_paths prior,
                  co_undemonstrated_reason = None\<rparr>))"

fun build_all :: "('a \<Rightarrow> 'e + 'b) \<Rightarrow> 'a list \<Rightarrow> 'e + 'b list" where
  "build_all f [] = Inr []"
| "build_all f (x # xs) = bind_sum (f x) (\<lambda>y. bind_sum (build_all f xs) (\<lambda>ys. Inr (y # ys)))"

definition cross_offs_for ::
  "criterion_result list \<Rightarrow> sha \<Rightarrow> string \<Rightarrow> reasons \<Rightarrow> criterion_cross_off list \<Rightarrow> readings
     \<Rightarrow> cross_off_error + criterion_cross_off list" where
  "cross_offs_for results graded_sha observation reasons standing reading =
     (let held = standing_by_criterion standing in
      if \<not> set (dict_keys reading) \<subseteq> set (dict_keys held) then Inl StandingUnknown
      else build_all (built_cross_off graded_sha observation reasons held reading) results)"

subsection \<open>The lapse rule by whole path segments\<close>

fun segments :: "string \<Rightarrow> string list" where
  "segments [] = [[]]"
| "segments (c # cs) =
     (if c = CHR ''/'' then [] # segments cs
      else case segments cs of [] \<Rightarrow> [[c]] | x # xs \<Rightarrow> (c # x) # xs)"

fun join_segments :: "string list \<Rightarrow> string" where
  "join_segments [] = []"
| "join_segments [x] = x"
| "join_segments (x # y # xs) = x @ CHR ''/'' # join_segments (y # xs)"

lemma segments_nonempty [simp]: "segments s \<noteq> []"
  by (induction s) (auto split: list.splits)

lemma join_segments_segments [simp]: "join_segments (segments s) = s"
proof (induction s)
  case (Cons c cs)
  obtain x xs where x: "segments cs = x # xs" by (cases "segments cs") auto
  then show ?case using Cons by (cases xs) auto
qed simp

lemma segments_slash: "segments (s @ CHR ''/'' # t) = segments s @ segments t"
proof (induction s)
  case (Cons c cs)
  obtain x xs where x: "segments cs = x # xs" by (cases "segments cs") auto
  then show ?case using Cons by auto
qed simp

lemma join_segments_append:
  "xs \<noteq> [] \<Longrightarrow> ys \<noteq> [] \<Longrightarrow> join_segments (xs @ ys) = join_segments xs @ CHR ''/'' # join_segments ys"
  by (induction xs rule: join_segments.induct) (auto simp: neq_Nil_conv)

lemma startswith_iff: "startswith s p \<longleftrightarrow> (\<exists>t. s = p @ t)"
  unfolding startswith_def by (metis append_eq_conv_conj append_take_drop_id)

lemma beneath_segments:
  "beneath path prefix \<longleftrightarrow> (\<exists>rest. segments path = segments (rstrip_slash prefix) @ rest)"
proof
  assume "beneath path prefix"
  then consider "path = rstrip_slash prefix"
    | t where "path = rstrip_slash prefix @ CHR ''/'' # t"
    unfolding beneath_def Let_def startswith_iff by auto
  then show "\<exists>rest. segments path = segments (rstrip_slash prefix) @ rest"
    by cases (auto simp: segments_slash)
next
  assume "\<exists>rest. segments path = segments (rstrip_slash prefix) @ rest"
  then obtain rest where r: "segments path = segments (rstrip_slash prefix) @ rest" by blast
  have path: "path = join_segments (segments (rstrip_slash prefix) @ rest)"
    by (simp flip: r)
  show "beneath path prefix"
  proof (cases "rest = []")
    case True
    then show ?thesis using path by (simp add: beneath_def)
  next
    case False
    then have "path = rstrip_slash prefix @ CHR ''/'' # join_segments rest"
      using path by (simp add: join_segments_append)
    then show ?thesis unfolding beneath_def Let_def startswith_iff by simp
  qed
qed

text \<open>A grading still counts at another commit exactly when its base is not stale and
  either the commit is the one it was graded at, or its class is exempt from re-derivation and the
  change record between the two is there and reaches, by whole path segments, none of the prefixes
  it exercised; in particular a cheap grading never survives a move, nor does an absent record.\<close>

lemma graded_state_counts:
  "graded_state graded_sha head_sha cls exercised changeset base_stale = CountedReading \<longleftrightarrow>
     \<not> base_stale \<and>
     (graded_sha = head_sha \<or>
      cls \<noteq> Cheap \<and>
      (\<exists>digest. changeset = Some digest \<and>
         (\<nexists>path prefix rest. path \<in> set (cd_file_paths digest) \<and> prefix \<in> set exercised \<and>
            segments path = segments (rstrip_slash prefix) @ rest)))"
proof -
  have touched: "list_ex (\<lambda>path. list_ex (\<lambda>prefix. beneath path prefix) exercised) files \<longleftrightarrow>
      (\<exists>path prefix rest. path \<in> set files \<and> prefix \<in> set exercised \<and>
         segments path = segments (rstrip_slash prefix) @ rest)" for files
    unfolding list_ex_iff beneath_segments by blast
  have bound: "path_bound cls \<longleftrightarrow> cls \<noteq> Cheap" by (cases cls) (simp_all add: path_bound_def)
  show ?thesis
    unfolding graded_state_def touched bound by (auto split: option.splits)
qed

subsection \<open>The partition of the prior cross-offs\<close>

definition stands ::
  "sha \<Rightarrow> (sha \<Rightarrow> changeset_digest option) \<Rightarrow> bool \<Rightarrow> criterion_cross_off \<Rightarrow> bool" where
  "stands head changesets stale c \<longleftrightarrow>
     co_state c = Passed \<and> path_bound (co_rederivation_class c) \<and>
     graded_state (ev_graded_sha (co_evidence c)) head (co_rederivation_class c)
       (co_exercised_paths c) (changesets (ev_graded_sha (co_evidence c))) stale = CountedReading"

definition lapses ::
  "sha \<Rightarrow> (sha \<Rightarrow> changeset_digest option) \<Rightarrow> bool \<Rightarrow> criterion_cross_off \<Rightarrow> bool" where
  "lapses head changesets stale c \<longleftrightarrow>
     co_state c = Passed \<and> co_rederivation_class c = Observed \<and> \<not> stands head changesets stale c"

lemma standing_step_eq:
  "standing_step head changesets stale h c =
     (if stands head changesets stale c then h\<lparr>hs_carried := hs_carried h @ [c]\<rparr>
      else if lapses head changesets stale c
        then h\<lparr>hs_lapsed := hs_lapsed h @ [c], hs_newly_lapsed := hs_newly_lapsed h @ [c]\<rparr>
      else if co_state c = Lapsed then h\<lparr>hs_lapsed := hs_lapsed h @ [c]\<rparr>
      else h\<lparr>hs_rederive := hs_rederive h @ [c]\<rparr>)"
proof -
  have "path_bound Observed" by (simp add: path_bound_def)
  then show ?thesis
    by (cases "co_state c = Lapsed"; cases "co_state c = Passed";
        cases "path_bound (co_rederivation_class c)"; cases "co_rederivation_class c = Observed")
      (auto simp: standing_step_def stands_def lapses_def Let_def)
qed

lemma held_standing_fold:
  "foldl (standing_step head changesets stale) h prior =
     \<lparr>hs_carried = hs_carried h @ filter (stands head changesets stale) prior,
      hs_rederive = hs_rederive h @ filter (\<lambda>c. \<not> stands head changesets stale c \<and>
        \<not> lapses head changesets stale c \<and> co_state c \<noteq> Lapsed) prior,
      hs_lapsed = hs_lapsed h @ filter (\<lambda>c. lapses head changesets stale c \<or> co_state c = Lapsed) prior,
      hs_newly_lapsed = hs_newly_lapsed h @ filter (lapses head changesets stale) prior\<rparr>"
proof (induction prior arbitrary: h)
  case (Cons c prior)
  have "\<not> (stands head changesets stale c \<and> lapses head changesets stale c)"
    and "stands head changesets stale c \<Longrightarrow> co_state c \<noteq> Lapsed"
    and "lapses head changesets stale c \<Longrightarrow> co_state c \<noteq> Lapsed"
    by (auto simp: stands_def lapses_def)
  then show ?case by (auto simp: Cons.IH standing_step_eq [of head changesets stale h c])
qed simp

text \<open>The standing of the prior gradings is a partition in arrival order: every prior
  cross-off is in exactly one of carried, re-derive and lapsed; the carried ones are exactly the
  passed ones exempt from re-derivation that still count; the newly lapsed ones are those of the
  lapsed that had passed; and nothing already lapsed, nor a passed observation, is ever put in
  front of a session again.\<close>

lemma standing_is_partition:
  "mset (hs_carried (held_standing prior head changesets stale)) +
     mset (hs_rederive (held_standing prior head changesets stale)) +
     mset (hs_lapsed (held_standing prior head changesets stale)) = mset prior \<and>
   hs_carried (held_standing prior head changesets stale) = filter (stands head changesets stale) prior \<and>
   (\<exists>P. hs_rederive (held_standing prior head changesets stale) = filter P prior) \<and>
   (\<exists>P. hs_lapsed (held_standing prior head changesets stale) = filter P prior) \<and>
   hs_newly_lapsed (held_standing prior head changesets stale) =
     filter (\<lambda>c. co_state c = Passed) (hs_lapsed (held_standing prior head changesets stale)) \<and>
   (\<forall>c. c \<in> set (hs_rederive (held_standing prior head changesets stale)) \<longrightarrow>
      co_state c \<noteq> Lapsed \<and> \<not> (co_state c = Passed \<and> co_rederivation_class c = Observed)) \<and>
   (\<forall>c. c \<in> set prior \<and> co_state c = Lapsed \<longrightarrow>
      c \<in> set (hs_lapsed (held_standing prior head changesets stale)))"
proof -
  let ?S = "stands head changesets stale" and ?L = "lapses head changesets stale"
  have eq: "held_standing prior head changesets stale =
      \<lparr>hs_carried = filter ?S prior,
       hs_rederive = filter (\<lambda>c. \<not> ?S c \<and> \<not> ?L c \<and> co_state c \<noteq> Lapsed) prior,
       hs_lapsed = filter (\<lambda>c. ?L c \<or> co_state c = Lapsed) prior,
       hs_newly_lapsed = filter ?L prior\<rparr>"
    by (simp add: held_standing_def held_standing_fold)
  have ex: "?S c \<Longrightarrow> co_state c = Passed" "?L c \<Longrightarrow> co_state c = Passed \<and> \<not> ?S c" for c
    by (auto simp: lapses_def) (simp add: stands_def)
  have "mset (filter ?S xs) + mset (filter (\<lambda>c. \<not> ?S c \<and> \<not> ?L c \<and> co_state c \<noteq> Lapsed) xs) +
      mset (filter (\<lambda>c. ?L c \<or> co_state c = Lapsed) xs) = mset xs" for xs
  proof (induction xs)
    case (Cons c xs)
    then show ?case using ex [of c] by auto
  qed simp
  moreover have "filter (\<lambda>c. co_state c = Passed) (filter (\<lambda>c. ?L c \<or> co_state c = Lapsed) prior) =
      filter ?L prior"
    using ex by (auto intro: filter_cong)
  moreover have "\<not> (co_state c = Passed \<and> co_rederivation_class c = Observed)"
    if "\<not> ?S c" "\<not> ?L c" for c
    using that by (auto simp: lapses_def)
  ultimately show ?thesis unfolding eq held_standing.select_convs by auto
qed

subsection \<open>The base reading\<close>

lemma map_of_filter_keys: "map_of (filter (\<lambda>(k, _). P k) d) i = (if P i then map_of d i else None)"
  by (induction d) auto

definition occurrences :: "base_check_result list \<Rightarrow> criterion_id \<Rightarrow> base_check_result list" where
  "occurrences rs i = filter (\<lambda>r. bc_criterion_id r = i) rs"

lemma base_answers_loop_facts:
  assumes "base_answers_loop rs answers twice = (answers', twice')"
  shows "map_of answers' i =
      (if occurrences rs i = [] then map_of answers i
       else Some (bc_satisfied_at_base (last (occurrences rs i))))"
    and "i \<in> set twice' \<longleftrightarrow> i \<in> set twice \<or>
      (if map_of answers i = None then 2 \<le> length (occurrences rs i) else occurrences rs i \<noteq> [])"
  using assms
proof (induction rs arbitrary: answers twice)
  case Nil
  {
    case 1
    then show ?case by (simp add: occurrences_def)
  next
    case 2
    then show ?case by (simp add: occurrences_def)
  }
next
  case (Cons r rs)
  have o: "occurrences (r # rs) i =
      (if bc_criterion_id r = i then r # occurrences rs i else occurrences rs i)"
    by (simp add: occurrences_def)
  {
    case 1
    then show ?case
      using Cons.IH(1) [of "AList.update (bc_criterion_id r) (bc_satisfied_at_base r) answers"]
      by (auto simp: o dict_get_set)
  next
    case 2
    have len: "occurrences rs i \<noteq> [] \<longleftrightarrow> 1 \<le> length (occurrences rs i)"
      by (cases "occurrences rs i") auto
    from 2 show ?case
      using Cons.IH(2) [of "AList.update (bc_criterion_id r) (bc_satisfied_at_base r) answers"] len
      by (auto simp: o dict_get_set split: if_splits)
  }
qed

lemma base_answers_get:
  "map_of (base_answers rs) i =
     (case occurrences rs i of [r] \<Rightarrow> Some (bc_satisfied_at_base r) | _ \<Rightarrow> None)"
proof -
  obtain answers twice where l: "base_answers_loop rs [] [] = (answers, twice)"
    by (cases "base_answers_loop rs [] []")
  note facts = base_answers_loop_facts [OF l, of i]
  have "map_of (base_answers rs) i = (if i \<in> set twice then None else map_of answers i)"
    by (simp add: base_answers_def l map_of_filter_keys)
  then show ?thesis
    using facts by (cases "occurrences rs i"; cases "tl (occurrences rs i)") auto
qed

lemma base_reasons_fold:
  "map_of (foldl (base_reason_step at_base) reasons passing) i =
     (if i \<in> set passing then
        (case map_of at_base i of
           Some True \<Rightarrow> Some SatisfiedAtBase
         | None \<Rightarrow> Some BaseReadingUnsettled
         | Some False \<Rightarrow> map_of reasons i)
      else map_of reasons i)"
  by (induction passing arbitrary: reasons)
    (auto simp: base_reason_step_def dict_get_set split: option.splits bool.splits)

text \<open>The base reading fails closed: a pass sent to the base keeps standing exactly when
  the base answered for it exactly once and that check failed there; an answer that it already
  passed, a missing answer and a second answer each withhold it, the first under its own name and
  the other two as an unsettled reading; an id that was not sent is never withheld.\<close>

lemma base_reading_fails_closed:
  "(map_of (base_reasons passing (base_answers rs)) i = None \<longleftrightarrow>
      i \<notin> set passing \<or>
      (\<exists>r. filter (\<lambda>r. bc_criterion_id r = i) rs = [r] \<and> \<not> bc_satisfied_at_base r)) \<and>
   (map_of (base_reasons passing (base_answers rs)) i = Some SatisfiedAtBase \<longleftrightarrow>
      i \<in> set passing \<and>
      (\<exists>r. filter (\<lambda>r. bc_criterion_id r = i) rs = [r] \<and> bc_satisfied_at_base r)) \<and>
   (map_of (base_reasons passing (base_answers rs)) i = Some BaseReadingUnsettled \<longleftrightarrow>
      i \<in> set passing \<and> length (filter (\<lambda>r. bc_criterion_id r = i) rs) \<noteq> 1)"
  unfolding base_reasons_def base_reasons_fold base_answers_get occurrences_def
  by (cases "filter (\<lambda>r. bc_criterion_id r = i) rs";
      cases "tl (filter (\<lambda>r. bc_criterion_id r = i) rs)")
    (auto split: bool.splits)

subsection \<open>The roster's rows\<close>

definition rows_of :: "(criterion_id, criterion_result list) pydict \<Rightarrow> criterion_id \<Rightarrow> criterion_result list"
  where
  "rows_of answered i = (case map_of answered i of None \<Rightarrow> [] | Some rows \<Rightarrow> rows)"

definition keyed :: "(criterion_id, criterion_result list) pydict \<Rightarrow> bool" where
  "keyed answered \<longleftrightarrow>
     wf_dict answered \<and> (\<forall>i. \<forall>r \<in> set (rows_of answered i). rs_criterion_id r = i)"

lemma group_results_fold:
  "keyed d \<Longrightarrow>
     keyed (foldl (\<lambda>d r. AList.update (rs_criterion_id r) (rows_of d (rs_criterion_id r) @ [r]) d) d rs) \<and>
     rows_of (foldl (\<lambda>d r. AList.update (rs_criterion_id r) (rows_of d (rs_criterion_id r) @ [r]) d) d rs) i =
       rows_of d i @ filter (\<lambda>r. rs_criterion_id r = i) rs"
proof (induction rs arbitrary: d)
  case (Cons r rs)
  let ?d = "AList.update (rs_criterion_id r) (rows_of d (rs_criterion_id r) @ [r]) d"
  have rows: "rows_of ?d i = (if i = rs_criterion_id r then rows_of d i @ [r] else rows_of d i)" for i
    by (simp add: rows_of_def dict_get_set)
  have "keyed ?d"
    using Cons.prems by (auto simp: keyed_def rows distinct_update split: if_splits)
  from Cons.IH [OF this] show ?case by (simp add: rows)
qed simp

lemma group_results_rows:
  "keyed (group_results rs) \<and> rows_of (group_results rs) i = filter (\<lambda>r. rs_criterion_id r = i) rs"
proof -
  have "keyed []" by (simp add: keyed_def rows_of_def)
  from group_results_fold [OF this] show ?thesis
    by (simp add: group_results_def rows_of_def)
qed

lemma keyed_delete: "keyed d \<Longrightarrow> keyed (AList.delete i d)"
  by (auto simp: keyed_def distinct_delete rows_of_def delete_conv' split: if_splits option.splits)

lemma concat_rows:
  "keyed d \<Longrightarrow> filter (\<lambda>r. rs_criterion_id r = i) (concat (dict_values d)) = rows_of d i"
proof (induction d)
  case Nil
  then show ?case by (simp add: rows_of_def)
next
  case (Cons p d)
  obtain k rows where p: "p = (k, rows)" by (cases p)
  have own: "\<forall>r \<in> set rows. rs_criterion_id r = k"
    using Cons.prems p by (force simp: keyed_def rows_of_def)
  have "map_of d k = None" using Cons.prems p by (simp add: keyed_def map_of_eq_None_iff)
  then have "rows_of d j = (if j = k then [] else rows_of (p # d) j)" for j
    using p by (simp add: rows_of_def)
  then have "keyed d" using Cons.prems p by (auto simp: keyed_def)
  have "filter (\<lambda>r. rs_criterion_id r = i) rows = (if i = k then rows else [])"
    using own by (auto simp: filter_empty_conv intro: filter_True)
  moreover have "rows_of d k = []"
    using \<open>rows_of d k = (if k = k then [] else rows_of (p # d) k)\<close> by simp
  ultimately show ?case using Cons.IH [OF \<open>keyed d\<close>] p by (auto simp: rows_of_def)
qed

lemma roster_rows_spec:
  assumes "roster_rows held reading cs answered = Inr rows" and "keyed answered"
    and "distinct (map tc_id cs)"
  shows "filter (\<lambda>r. rs_criterion_id r = i) rows =
     (case find (\<lambda>c. tc_id c = i) cs of
        None \<Rightarrow> rows_of answered i
      | Some c \<Rightarrow>
          (case map_of reading i of
             None \<Rightarrow> rows_of answered i
           | Some state \<Rightarrow> [standing_row c state (the (map_of held i))]))"
  using assms
proof (induction cs arbitrary: answered rows)
  case Nil
  then show ?case using concat_rows [of answered i] by simp
next
  case (Cons c cs)
  have key: "keyed (AList.delete (tc_id c) answered)" by (rule keyed_delete [OF Cons.prems(2)])
  have rest_rows: "rows_of (AList.delete (tc_id c) answered) i =
      (if i = tc_id c then [] else rows_of answered i)"
    by (simp add: rows_of_def delete_conv')
  have fresh: "find (\<lambda>c'. tc_id c' = tc_id c) cs = None"
    using Cons.prems(3) find_key_None [of tc_id "tc_id c" cs] by simp
  have own: "filter (\<lambda>r. rs_criterion_id r = i) (rows_of answered (tc_id c)) =
      (if i = tc_id c then rows_of answered i else [])"
    using Cons.prems(2) by (auto simp: keyed_def filter_empty_conv intro!: filter_True)
  show ?case
  proof (cases "map_of reading (criterion_ref (tc_id c))")
    case None
    then obtain rest where rest:
        "roster_rows held reading cs (AList.delete (tc_id c) answered) = Inr rest"
        "rows = rows_of answered (tc_id c) @ rest"
      using Cons.prems(1) by (auto simp: bind_sum_Inr rows_of_def)
    show ?thesis
      using Cons.IH [OF rest(1) key] Cons.prems(3) None fresh rest_rows own rest(2)
      by (auto simp: criterion_ref_def split: option.splits)
  next
    case (Some state)
    then obtain prior rest where rest: "map_of held (criterion_ref (tc_id c)) = Some prior"
        "roster_rows held reading cs (AList.delete (tc_id c) answered) = Inr rest"
        "rows = standing_row c state prior # rest"
      using Cons.prems(1) by (auto simp: bind_sum_Inr split: option.splits)
    show ?thesis
      using Cons.IH [OF rest(2) key] Cons.prems(3) Some fresh rest_rows rest(1,3)
      by (auto simp: criterion_ref_def standing_row_def split: option.splits)
  qed
qed

text \<open>The roster is answered entire: in the output the gate reads, a criterion with a
  standing reading has exactly one row, passing exactly when it still counts and carrying the class
  and prefixes of the grading that stands, whatever the session said about it; every other id,
  dispatched or not, keeps exactly the session's own rows in their order.\<close>

lemma roster_is_answered_entire:
  assumes "iteration_output criteria standing reading graded = Inr out"
    and "distinct (map tc_id criteria)" and "distinct (map co_criterion standing)"
    and "set (dict_keys reading) \<subseteq> set (map co_criterion standing)"
  shows "(\<forall>c state. c \<in> set criteria \<and> map_of reading (tc_id c) = Some state \<longrightarrow>
      (\<exists>prior r. prior \<in> set standing \<and> co_criterion prior = tc_id c \<and>
         filter (\<lambda>r. rs_criterion_id r = tc_id c) (ao_criteria_results out) = [r] \<and>
         (rs_passed r \<longleftrightarrow> state = CountedReading) \<and> rs_criterion r = tc_text c \<and>
         rs_rederivation_class r = co_rederivation_class prior \<and>
         rs_exercised_paths r = co_exercised_paths prior)) \<and>
    (\<forall>i. (i \<notin> set (map tc_id criteria) \<or> map_of reading i = None) \<longrightarrow>
      filter (\<lambda>r. rs_criterion_id r = i) (ao_criteria_results out) =
        filter (\<lambda>r. rs_criterion_id r = i) (ao_criteria_results graded)) \<and>
    ao_sherlock_flags out = ao_sherlock_flags graded"
proof -
  let ?held = "standing_by_criterion standing"
  obtain rows where rows: "roster_rows ?held reading criteria
        (group_results (ao_criteria_results graded)) = Inr rows"
      "out = \<lparr>ao_criteria_results = rows, ao_sherlock_flags = ao_sherlock_flags graded\<rparr>"
    using assms(1) by (auto simp: iteration_output_def bind_sum_Inr split: if_splits)
  have spec: "filter (\<lambda>r. rs_criterion_id r = i) rows =
     (case find (\<lambda>c. tc_id c = i) criteria of
        None \<Rightarrow> filter (\<lambda>r. rs_criterion_id r = i) (ao_criteria_results graded)
      | Some c \<Rightarrow>
          (case map_of reading i of
             None \<Rightarrow> filter (\<lambda>r. rs_criterion_id r = i) (ao_criteria_results graded)
           | Some state \<Rightarrow> [standing_row c state (the (map_of ?held i))]))" for i
    using roster_rows_spec [OF rows(1) conjunct1 [OF group_results_rows] assms(2), of i]
    unfolding conjunct2 [OF group_results_rows] .
  have one: "\<exists>prior r. prior \<in> set standing \<and> co_criterion prior = tc_id c \<and>
         filter (\<lambda>r. rs_criterion_id r = tc_id c) (ao_criteria_results out) = [r] \<and>
         (rs_passed r \<longleftrightarrow> state = CountedReading) \<and> rs_criterion r = tc_text c \<and>
         rs_rederivation_class r = co_rederivation_class prior \<and>
         rs_exercised_paths r = co_exercised_paths prior"
    if c: "c \<in> set criteria" and state: "map_of reading (tc_id c) = Some state" for c state
  proof -
    obtain c' where c': "find (\<lambda>c'. tc_id c' = tc_id c) criteria = Some c'"
      using c by (metis (mono_tags) find_None_iff not_Some_eq)
    then have "c' \<in> set criteria" "tc_id c' = tc_id c" by (auto dest: find_key_member)
    then have "c' = c" using assms(2) c by (auto simp: distinct_map dest: inj_onD)
    have "tc_id c \<in> set (map co_criterion standing)"
      using assms(4) dict_get_keys [OF state] by blast
    then obtain prior where prior: "prior \<in> set standing" "co_criterion prior = tc_id c" by auto
    then have "map_of ?held (tc_id c) = Some prior"
      using dict_of_distinct [OF assms(3) prior(1)] by (simp add: standing_by_criterion_def)
    then have "filter (\<lambda>r. rs_criterion_id r = tc_id c) (ao_criteria_results out) =
        [standing_row c state prior]"
      using spec [of "tc_id c"] c' \<open>c' = c\<close> state rows(2) by simp
    then show ?thesis using prior by (auto simp: standing_row_def)
  qed
  have other: "filter (\<lambda>r. rs_criterion_id r = i) (ao_criteria_results out) =
        filter (\<lambda>r. rs_criterion_id r = i) (ao_criteria_results graded)"
    if "i \<notin> set (map tc_id criteria) \<or> map_of reading i = None" for i
  proof (cases "i \<in> set (map tc_id criteria)")
    case True
    then show ?thesis using that spec [of i] rows(2) by (simp split: option.splits)
  next
    case False
    then have "find (\<lambda>c. tc_id c = i) criteria = None"
      using find_key_None [of tc_id i criteria] by blast
    then show ?thesis using spec [of i] rows(2) by simp
  qed
  show ?thesis using one other rows(2) by simp
qed

subsection \<open>The cross-offs of one attempt\<close>

lemma declared_class_valid:
  "declared_class k paths = (k', paths') \<Longrightarrow>
     list_all has_text paths' \<and> \<not> (path_bound k' \<and> paths' = [])"
  by (auto simp: declared_class_def Let_def list_all_iff path_bound_def
      dest: not_blank_has_text split: if_splits)

lemma has_text_lapse: "has_text s \<Longrightarrow> has_text (lapse_observation s)"
  unfolding lapse_observation_def by (rule has_text_append)

lemma build_all_ok:
  assumes "\<forall>x \<in> set xs. \<exists>y. f x = Inr y \<and> P x y"
  shows "\<exists>ys. build_all f xs = Inr ys \<and> length ys = length xs \<and>
    (\<forall>k < length xs. P (xs ! k) (ys ! k))"
  using assms
proof (induction xs)
  case (Cons x xs)
  then obtain y ys where "f x = Inr y" "P x y" "build_all f xs = Inr ys" "length ys = length xs"
      "\<forall>k < length xs. P (xs ! k) (ys ! k)" by auto
  then have "build_all f (x # xs) = Inr (y # ys)" "length (y # ys) = length (x # xs)"
      "\<forall>k < length (x # xs). P ((x # xs) ! k) ((y # ys) ! k)"
    by (auto simp: nth_Cons split: nat.splits)
  then show ?case by blast
qed simp

definition cross_off_spec ::
  "sha \<Rightarrow> string \<Rightarrow> reasons \<Rightarrow> criterion_cross_off list \<Rightarrow> readings \<Rightarrow> criterion_result
     \<Rightarrow> criterion_cross_off \<Rightarrow> bool" where
  "cross_off_spec graded_sha observation reasons standing reading r c \<longleftrightarrow>
     valid_cross_off c \<and> co_criterion c = rs_criterion_id r \<and>
     (case map_of reading (rs_criterion_id r) of
        None \<Rightarrow>
          co_evidence c = \<lparr>ev_graded_sha = graded_sha, ev_test = observation\<rparr> \<and>
          co_undemonstrated_reason c = map_of reasons (rs_criterion_id r) \<and>
          (co_state c = Passed \<longleftrightarrow> rs_passed r \<and> map_of reasons (rs_criterion_id r) = None) \<and>
          (co_state c = Failed \<longleftrightarrow> \<not> rs_passed r \<and> map_of reasons (rs_criterion_id r) = None)
      | Some CountedReading \<Rightarrow> c \<in> set standing
      | Some LapsedReading \<Rightarrow>
          co_state c = Lapsed \<and>
          (\<exists>prior. prior \<in> set standing \<and> co_criterion prior = rs_criterion_id r \<and>
             ev_graded_sha (co_evidence c) = ev_graded_sha (co_evidence prior) \<and>
             co_rederivation_class c = co_rederivation_class prior \<and>
             co_exercised_paths c = co_exercised_paths prior))"

lemma built_cross_off_ok:
  assumes "valid_sha graded_sha" and "has_text observation" and "list_all valid_cross_off standing"
    and "set (dict_keys reading) \<subseteq> set (map co_criterion standing)" and "valid_result r"
  shows "\<exists>c. built_cross_off graded_sha observation reasons (standing_by_criterion standing) reading r =
      Inr c \<and> cross_off_spec graded_sha observation reasons standing reading r c"
proof (cases "map_of reading (rs_criterion_id r)")
  case None
  obtain k paths where d: "declared_class (rs_rederivation_class r) (rs_exercised_paths r) = (k, paths)"
    by (cases "declared_class (rs_rederivation_class r) (rs_exercised_paths r)")
  let ?reason = "map_of reasons (rs_criterion_id r)"
  let ?c = "\<lparr>co_criterion = rs_criterion_id r, co_state = cross_off_state_of (rs_passed r) ?reason,
      co_evidence = \<lparr>ev_graded_sha = graded_sha, ev_test = observation\<rparr>,
      co_rederivation_class = k, co_exercised_paths = paths, co_undemonstrated_reason = ?reason\<rparr>"
  have v: "valid_cross_off ?c"
    using assms(1,2,5) declared_class_valid [OF d]
    by (simp add: valid_cross_off_def valid_evidence_def valid_result_def
        reason_is_undemonstrated_def path_bound_names_paths_def cross_off_state_of_def)
  then have "built_cross_off graded_sha observation reasons (standing_by_criterion standing) reading r =
      Inr ?c"
    using None d by (simp add: built_cross_off_def criterion_ref_def Let_def)
  moreover have "cross_off_spec graded_sha observation reasons standing reading r ?c"
    using v None by (simp add: cross_off_spec_def cross_off_state_of_def)
  ultimately show ?thesis by blast
next
  case (Some state)
  have "rs_criterion_id r \<in> set (map co_criterion standing)"
    using assms(4) dict_get_keys [OF Some] by blast
  then have "map_of (standing_by_criterion standing) (rs_criterion_id r) \<noteq> None"
    unfolding standing_by_criterion_def dict_of_None by simp
  then obtain prior where get: "map_of (standing_by_criterion standing) (rs_criterion_id r) = Some prior"
    by blast
  then have prior: "prior \<in> set standing" "co_criterion prior = rs_criterion_id r"
    unfolding standing_by_criterion_def by (auto dest: dict_of_Some)
  then have vp: "valid_cross_off prior" using assms(3) by (simp add: list_all_iff)
  show ?thesis
  proof (cases state)
    case CountedReading
    then show ?thesis
      using Some get prior vp by (simp add: built_cross_off_def criterion_ref_def cross_off_spec_def Let_def)
  next
    case LapsedReading
    let ?c = "\<lparr>co_criterion = rs_criterion_id r, co_state = Lapsed,
        co_evidence = \<lparr>ev_graded_sha = ev_graded_sha (co_evidence prior),
          ev_test = lapse_observation (ev_test (co_evidence prior))\<rparr>,
        co_rederivation_class = co_rederivation_class prior,
        co_exercised_paths = co_exercised_paths prior, co_undemonstrated_reason = None\<rparr>"
    have "valid_cross_off ?c"
      using vp assms(5) has_text_lapse
      by (simp add: valid_cross_off_def valid_evidence_def valid_result_def
          reason_is_undemonstrated_def path_bound_names_paths_def)
    then have "built_cross_off graded_sha observation reasons (standing_by_criterion standing) reading r =
        Inr ?c" "cross_off_spec graded_sha observation reasons standing reading r ?c"
      using Some LapsedReading get prior
      by (auto simp: built_cross_off_def criterion_ref_def cross_off_spec_def Let_def)
    then show ?thesis by blast
  qed
qed


subsection \<open>Concrete instances\<close>

definition sample_digest :: changeset_digest where
  "sample_digest = \<lparr>cd_file_paths = [''srcs/a.py''], cd_commit_subjects = [], cd_commit_count = 1\<rparr>"

theorem roster_is_answered_entire_witness:
  "\<exists>out. iteration_output [\<lparr>tc_id = ''AC-1'', tc_text = ''t''\<rparr>] [sample_cross_off Observed]
      [(''AC-1'', CountedReading)] sample_pass = Inr out \<and>
    (\<exists>r. filter (\<lambda>r. rs_criterion_id r = ''AC-1'') (ao_criteria_results out) = [r] \<and> rs_passed r) \<and>
    filter (\<lambda>r. rs_criterion_id r = ''A'') (ao_criteria_results out) =
      filter (\<lambda>r. rs_criterion_id r = ''A'') (ao_criteria_results sample_pass)"
proof -
  let ?cs = "[\<lparr>tc_id = ''AC-1'', tc_text = ''t''\<rparr>]" and ?st = "[sample_cross_off Observed]"
  let ?rd = "[(''AC-1'', CountedReading)]"
  have "\<exists>out. iteration_output ?cs ?st ?rd sample_pass = Inr out"
    by (simp add: iteration_output_def standing_by_criterion_def dict_of_def sample_cross_off_def
        criterion_ref_def)
  then obtain out where out: "iteration_output ?cs ?st ?rd sample_pass = Inr out" by blast
  have d1: "distinct (map tc_id ?cs)" by simp
  have d2: "distinct (map co_criterion ?st)" by simp
  have d3: "set (dict_keys ?rd) \<subseteq> set (map co_criterion ?st)" by (simp add: sample_cross_off_def)
  show ?thesis
    using roster_is_answered_entire [OF out d1 d2 d3] out by auto
qed


end
