(* ===== verification/RalphLoop.thy ===== *)
theory RalphLoop
  imports Amendment Redispatch Trajectory CrossOff
begin

section \<open>The quality-gating loop\<close>

text \<open>
  \<^verbatim>\<open>chains/ralph_loop.py\<close>: execute, evaluate, and again until the gate clears, the
  attempts are spent or the loop has plateaued. What the sessions, git, the tracker and the workspaces
  answer is given per round; every other step is the code's. A node the graph retries starts over on
  the same state, so the answers given are those of the attempt that counted.
\<close>

datatype loop_exn =
  NativeWriteRefusal string
| CriteriaRefused string
| GradingRefused grading_error
| CrossOffRefused cross_off_error
| StickyClassRefused sticky_class_error
| TrajectoryRefused trajectory_error
| FanInRaised criteria_fan_in_error
| ReceiptInvalid
| StrictZipError
| OutsideError string

subsection \<open>Receipts, state and wiring\<close>

record amendment_event =
  ae_report :: amendment_report
  ae_repeated :: "repeated_upheld list"

record iteration_event =
  ie_iteration :: nat
  ie_branch :: string
  ie_commit_sha :: "sha option"
  ie_verdict :: accept_verdict_kind
  ie_evaluation :: acceptance_criteria_output
  ie_trajectory :: loop_trajectory
  ie_fan_in :: "fan_in_report option"

datatype ralph_outcome =
  PendingOutcome
| EvaluatedOutcome iteration_event "execution_criterion list"
| NativeEvaluatedOutcome iteration_event "execution_criterion list" sha
| RefusedOutcome amendment_event "iteration_event option" "execution_criterion list"

definition same_roster :: "iteration_event \<Rightarrow> execution_criterion list \<Rightarrow> bool" where
  "same_roster event criteria \<longleftrightarrow>
     criteria \<noteq> [] \<and> distinct (map ec_id criteria) \<and>
     map (\<lambda>r. (rs_criterion_id r, rs_criterion r)) (ao_criteria_results (ie_evaluation event)) =
       map (\<lambda>c. (ec_id c, ec_text c)) criteria"

definition evaluated_outcome ::
  "iteration_event \<Rightarrow> execution_criterion list \<Rightarrow> loop_exn + ralph_outcome" where
  "evaluated_outcome event criteria =
     (if same_roster event criteria then Inr (EvaluatedOutcome event criteria)
      else Inl ReceiptInvalid)"

definition native_evaluated_outcome ::
  "iteration_event \<Rightarrow> execution_criterion list \<Rightarrow> sha \<Rightarrow> loop_exn + ralph_outcome" where
  "native_evaluated_outcome event criteria head_sha =
     (if same_roster event criteria \<and> valid_sha head_sha \<and>
         (case ie_commit_sha event of None \<Rightarrow> True | Some commit \<Rightarrow> commit = head_sha)
      then Inr (NativeEvaluatedOutcome event criteria head_sha) else Inl ReceiptInvalid)"

definition refused_outcome ::
  "amendment_event \<Rightarrow> iteration_event option \<Rightarrow> execution_criterion list \<Rightarrow> loop_exn + ralph_outcome"
  where
  "refused_outcome event last_iteration criteria =
     (if upheld (ae_report event) \<noteq> [] then Inr (RefusedOutcome event last_iteration criteria)
      else Inl ReceiptInvalid)"

fun outcome_criteria :: "ralph_outcome \<Rightarrow> execution_criterion list" where
  "outcome_criteria PendingOutcome = []"
| "outcome_criteria (EvaluatedOutcome event criteria) = criteria"
| "outcome_criteria (NativeEvaluatedOutcome event criteria head_sha) = criteria"
| "outcome_criteria (RefusedOutcome event last_iteration criteria) = criteria"

fun last_genuine :: "ralph_outcome \<Rightarrow> iteration_event option" where
  "last_genuine PendingOutcome = None"
| "last_genuine (EvaluatedOutcome event criteria) = Some event"
| "last_genuine (NativeEvaluatedOutcome event criteria head_sha) = Some event"
| "last_genuine (RefusedOutcome event last_iteration criteria) = last_iteration"

record loop_state =
  ls_iteration :: nat
  ls_verdict :: accept_verdict_kind
  ls_pending_failures :: "criterion_failure list"
  ls_records :: "iteration_record list"
  ls_outcome :: ralph_outcome
  ls_commit_sha :: "sha option"
  ls_amendment_reports :: "amendment_report list"
  ls_amendment_blocked :: bool
  ls_standing :: "criterion_cross_off list"

definition initial_state :: loop_state where
  "initial_state =
     \<lparr>ls_iteration = 0, ls_verdict = Rejected, ls_pending_failures = [], ls_records = [],
      ls_outcome = PendingOutcome, ls_commit_sha = None, ls_amendment_reports = [],
      ls_amendment_blocked = False, ls_standing = []\<rparr>"

text \<open>The run's context, and which collaborators the loop was built with.\<close>

record loop_context =
  lc_native :: bool
  lc_surface_holder :: "string option"
  lc_criteria :: "execution_criterion list"
  lc_ralph_branch :: string
  lc_work_base_ref :: string
  lc_resumed_head_sha :: "sha option"
  lc_base_stale :: bool
  lc_scoped :: bool

record loop_wiring =
  lw_max_iterations :: int
  lw_plateau_window :: nat
  lw_fan_in_max_attempts :: int
  lw_has_reader :: bool
  lw_has_source :: bool
  lw_has_amendments :: bool
  lw_has_workspace :: bool
  lw_has_lane_state :: bool
  lw_has_lapse_escalations :: bool
  lw_has_mutation :: bool
  lw_has_evaluator_rulings :: bool

definition require_wired :: "bool \<Rightarrow> string \<Rightarrow> loop_exn + unit" where
  "require_wired present refusal = (if present then Inr () else Inl (NativeWriteRefusal refusal))"

definition held_roster :: "execution_criterion list \<Rightarrow> tracker_criterion list option" where
  "held_roster criteria =
     (let held = concat (map (\<lambda>c. case c of Tracker t \<Rightarrow> [t] | Validated v \<Rightarrow> []) criteria) in
      if held = [] then None else Some held)"

definition held :: "execution_criterion list \<Rightarrow> ralph_outcome \<Rightarrow> tracker_criterion list option" where
  "held criteria outcome = held_roster (criteria @ outcome_criteria outcome)"

type_synonym criteria_reader =
  "tracker_criterion list option \<Rightarrow> loop_exn + tracker_criterion list"

definition current_native_criteria ::
  "loop_wiring \<Rightarrow> criteria_reader \<Rightarrow> tracker_criterion list option \<Rightarrow> loop_exn + tracker_criterion list"
  where
  "current_native_criteria w read_current roster =
     (if \<not> lw_has_reader w
      then Inl (CriteriaRefused ''the current tracker criteria reader is not configured'')
      else read_current roster)"

definition resolve :: "loop_wiring \<Rightarrow> loop_exn + sha \<Rightarrow> loop_exn + sha" where
  "resolve w answer =
     bind_sum (require_wired (lw_has_source w) ''Native execution requires its Git source reader'')
       (\<lambda>_. answer)"

text \<open>What a run does outside itself, in the order it does it.\<close>

datatype loop_effect =
  SessionOpened bool string
| EmittedSession
| EmittedAmendment amendment_event
| EmittedIteration iteration_event
| RulingsRecorded nat
| CrossOffsWritten "(tracker_criterion \<times> criterion_cross_off) list"
| LapsesRaised "criterion_cross_off list" sha

type_synonym 'a act = "(loop_exn + 'a) \<times> loop_effect list"

definition reads :: "loop_exn + 'a \<Rightarrow> 'a act" where
  "reads r = (r, [])"

definition acts :: "loop_exn + 'a \<Rightarrow> loop_effect \<Rightarrow> 'a act" where
  "acts r e = (r, [e])"

subsection \<open>The execute node\<close>

datatype session_event = SessionOther | SessionAmendment amendment_report | SessionResult "sha option"

record execute_env =
  xe_writable :: "loop_exn + unit"
  xe_current :: criteria_reader
  xe_head :: "loop_exn + sha"
  xe_guard :: "loop_exn + unit"
  xe_events :: "session_event list"
  xe_end :: "loop_exn option"

record session_reading =
  sr_reports :: "amendment_report list"
  sr_blocked :: bool
  sr_refusal :: "amendment_event option"
  sr_commit_sha :: "sha option"

fun read_event :: "session_reading \<Rightarrow> session_event \<Rightarrow> session_reading \<times> loop_effect" where
  "read_event r SessionOther = (r, EmittedSession)"
| "read_event r (SessionResult commit) =
     (r\<lparr>sr_commit_sha :=
          (case commit of None \<Rightarrow> sr_commit_sha r
           | Some s \<Rightarrow> if s = [] then sr_commit_sha r else Some s)\<rparr>, EmittedSession)"
| "read_event r (SessionAmendment report) =
     (let reports = sr_reports r @ [report];
          blocked = (upheld report \<noteq> []);
          event = \<lparr>ae_report = report, ae_repeated = repeated_upheld reports\<rparr> in
      (r\<lparr>sr_reports := reports, sr_blocked := blocked,
         sr_refusal := (if blocked then Some event else sr_refusal r)\<rparr>,
       EmittedAmendment event))"

fun read_events :: "session_reading \<Rightarrow> session_event list \<Rightarrow> session_reading \<times> loop_effect list" where
  "read_events r [] = (r, [])"
| "read_events r (e # es) =
     (let (r, w) = read_event r e; (r, ws) = read_events r es in (r, w # ws))"

definition require_resumed_head :: "loop_wiring \<Rightarrow> loop_context \<Rightarrow> loop_exn + sha \<Rightarrow> loop_exn + unit" where
  "require_resumed_head w ctx head =
     (case lc_resumed_head_sha ctx of
        None \<Rightarrow> Inl (NativeWriteRefusal ''A continued native branch names no head to continue from'')
      | Some expected \<Rightarrow>
          bind_sum (resolve w head) (\<lambda>standing_at.
            if standing_at \<noteq> expected
            then Inl (NativeWriteRefusal
              ''The continued native branch is not at the head the lane entered on'')
            else Inr ()))"

definition lane_binding :: "loop_context \<Rightarrow> loop_exn + unit" where
  "lane_binding ctx =
     require_wired (lc_native ctx \<and> lc_surface_holder ctx \<noteq> None)
       ''The lane state record has no lane and holder to name''"

definition require_execution_wiring :: "loop_wiring \<Rightarrow> loop_context \<Rightarrow> loop_exn + unit \<Rightarrow> loop_exn + unit"
  where
  "require_execution_wiring w ctx writable =
     bind_sum (require_wired (lw_has_source w) ''Native execution requires its Git source reader'') (\<lambda>_.
     bind_sum (require_wired (lw_has_amendments w)
       ''Native execution requires the precommit amendment owner'') (\<lambda>_.
     bind_sum (require_wired (lw_has_workspace w)
       ''Native evaluation requires its workspace provider'') (\<lambda>_.
     bind_sum (require_wired (lw_has_lane_state w)
       ''Native execution requires the lane state writer'') (\<lambda>_.
     bind_sum (lane_binding ctx) (\<lambda>_. writable)))))"

definition cuts_branch :: "loop_context \<Rightarrow> nat \<Rightarrow> bool" where
  "cuts_branch ctx iteration \<longleftrightarrow> iteration = 1 \<and> lc_work_base_ref ctx \<noteq> lc_ralph_branch ctx"

definition executed_state ::
  "loop_context \<Rightarrow> loop_state \<Rightarrow> session_reading \<Rightarrow> loop_exn + loop_state" where
  "executed_state ctx st r =
     (let st' = st\<lparr>ls_iteration := Suc (ls_iteration st), ls_commit_sha := sr_commit_sha r\<rparr> in
      if \<not> lc_native ctx then Inr st'
      else
        let st' = st'\<lparr>ls_amendment_reports := sr_reports r, ls_amendment_blocked := sr_blocked r\<rparr> in
        case sr_refusal r of
          None \<Rightarrow> Inr st'
        | Some refusal \<Rightarrow>
            bind_sum (refused_outcome refusal (last_genuine (ls_outcome st))
                (outcome_criteria (ls_outcome st)))
              (\<lambda>outcome. Inr (st'\<lparr>ls_outcome := outcome\<rparr>)))"

definition execute_node ::
  "loop_wiring \<Rightarrow> loop_context \<Rightarrow> execute_env \<Rightarrow> loop_state \<Rightarrow> loop_state act" where
  "execute_node w ctx env st =
     then_do (reads (if lc_native ctx then require_execution_wiring w ctx (xe_writable env) else Inr ()))
       (\<lambda>_.
     then_do (reads (if lc_native ctx
                     then bind_sum (current_native_criteria w (xe_current env)
                            (held (lc_criteria ctx) (ls_outcome st))) (\<lambda>_. Inr ())
                     else Inr ())) (\<lambda>_.
     let iteration = Suc (ls_iteration st);
         cut = cuts_branch ctx iteration in
     then_do (reads (if iteration = 1 \<and> \<not> cut then require_resumed_head w ctx (xe_head env) else Inr ()))
       (\<lambda>_.
     then_do (reads (if lc_native ctx then xe_guard env else Inr ())) (\<lambda>_.
     then_do (acts (Inr ())
         (SessionOpened cut (if cut then lc_work_base_ref ctx else lc_ralph_branch ctx))) (\<lambda>_.
     let (reading, emitted) = read_events
           \<lparr>sr_reports = ls_amendment_reports st, sr_blocked = False, sr_refusal = None,
            sr_commit_sha = None\<rparr> (xe_events env) in
     then_do (case xe_end env of None \<Rightarrow> Inr () | Some e \<Rightarrow> Inl e, emitted) (\<lambda>_.
     reads (executed_state ctx st reading)))))))"

subsection \<open>What still stands when an iteration is graded\<close>

record attempt_env =
  at_current :: criteria_reader
  at_session :: "execution_criterion list \<Rightarrow> loop_exn + acceptance_criteria_output \<times> string \<times> bool"
  at_head :: "loop_exn + sha"

datatype base_session = BaseAnswered "base_check_result list" | BaseUnreadable | BaseRaised loop_exn

datatype workspace_end = WorkspaceServed | WorkspaceRefused | WorkspaceRaised loop_exn

record base_env =
  be_head :: "loop_exn + sha"
  be_acquire :: workspace_end
  be_before :: "loop_exn + bool"
  be_session :: base_session
  be_after :: "loop_exn + bool"
  be_release :: workspace_end

record evaluation_env =
  ve_clone :: "loop_exn + unit"
  ve_head :: "loop_exn + sha"
  ve_changeset :: "loop_exn + unit"
  ve_diff :: "sha \<Rightarrow> loop_exn + changeset_digest"
  ve_attempt :: "nat \<Rightarrow> attempt_env"
  ve_survivors :: "execution_criterion list \<Rightarrow> iteration_grade \<Rightarrow> loop_exn + criterion_id list"
  ve_head_after_mutation :: "loop_exn + sha"
  ve_rulings :: "acceptance_criteria_output \<Rightarrow> loop_exn + unit"
  ve_base :: "execution_criterion list \<Rightarrow> base_env"
  ve_write :: "(tracker_criterion \<times> criterion_cross_off) list \<Rightarrow> loop_exn + unit"
  ve_raise :: "criterion_cross_off list \<Rightarrow> sha \<Rightarrow> loop_exn + unit"

definition moved_shas :: "criterion_cross_off list \<Rightarrow> sha list" where
  "moved_shas prior =
     sort (fromkeys (map (\<lambda>c. ev_graded_sha (co_evidence c))
       (filter (\<lambda>c. co_state c = Passed \<and> path_bound (co_rederivation_class c)) prior)))"

definition moved_since ::
  "(sha \<Rightarrow> loop_exn + changeset_digest) \<Rightarrow> criterion_cross_off list
     \<Rightarrow> loop_exn + (sha, changeset_digest) pydict" where
  "moved_since diff prior = read_each diff (moved_shas prior)"

definition empty_standing :: held_standing where
  "empty_standing = \<lparr>hs_carried = [], hs_rederive = [], hs_lapsed = [], hs_newly_lapsed = []\<rparr>"

definition reading_of :: "held_standing \<Rightarrow> readings" where
  "reading_of h =
     dict_merge (dict_of co_criterion (\<lambda>_. CountedReading) (hs_carried h))
       (dict_of co_criterion (\<lambda>_. LapsedReading) (hs_lapsed h))"

definition standing_reading ::
  "loop_context \<Rightarrow> evaluation_env \<Rightarrow> sha option \<Rightarrow> criterion_cross_off list \<Rightarrow> loop_exn + held_standing"
  where
  "standing_reading ctx env native_ref prior =
     (case native_ref of
        None \<Rightarrow> Inr empty_standing
      | Some head \<Rightarrow>
          if prior = [] then Inr empty_standing
          else bind_sum (moved_since (ve_diff env) prior) (\<lambda>changesets.
            Inr (held_standing prior head (map_of changesets) (lc_base_stale ctx))))"

subsection \<open>One attempt of the evaluator\<close>

record attempt =
  ar_grade :: iteration_grade
  ar_dispatched :: "execution_criterion list"
  ar_output :: acceptance_criteria_output
  ar_session :: string
  ar_stood :: bool

definition for_session :: "held_standing \<Rightarrow> execution_criterion list \<Rightarrow> execution_criterion list" where
  "for_session standing criteria =
     filter (\<lambda>c. ec_id c \<notin> set (map co_criterion (hs_carried standing @ hs_lapsed standing))) criteria"

definition unmoved :: "loop_wiring \<Rightarrow> sha option \<Rightarrow> loop_exn + sha \<Rightarrow> string \<Rightarrow> loop_exn + unit" where
  "unmoved w native_ref answer refusal =
     (case native_ref of
        None \<Rightarrow> Inr ()
      | Some head \<Rightarrow>
          bind_sum (resolve w answer) (\<lambda>now.
            if now \<noteq> head then Inl (NativeWriteRefusal refusal) else Inr ()))"

definition dispatched_roster ::
  "loop_wiring \<Rightarrow> loop_context \<Rightarrow> criteria_reader \<Rightarrow> ralph_outcome
     \<Rightarrow> loop_exn + execution_criterion list \<times> tracker_criterion list option" where
  "dispatched_roster w ctx current outcome =
     (if \<not> lc_native ctx then Inr (lc_criteria ctx, None)
      else bind_sum (current_native_criteria w current (held (lc_criteria ctx) outcome)) (\<lambda>roster.
        Inr (map Tracker roster, Some roster)))"

definition session_output ::
  "loop_wiring \<Rightarrow> sha option \<Rightarrow> attempt_env \<Rightarrow> execution_criterion list
     \<Rightarrow> loop_exn + acceptance_criteria_output \<times> string \<times> bool" where
  "session_output w native_ref env asked =
     bind_sum (if native_ref = None then Inr ()
               else require_wired (lw_has_workspace w)
                 ''Native evaluation requires its workspace provider'') (\<lambda>_.
     bind_sum (at_session env asked) (\<lambda>(answer, session, stood).
       if \<not> valid_output answer then Inl ReceiptInvalid
       else Inr (answer, session, native_ref = None \<or> stood)))"

definition attempt_reading ::
  "loop_wiring \<Rightarrow> loop_context \<Rightarrow> loop_state \<Rightarrow> sha option \<Rightarrow> held_standing \<Rightarrow> attempt_env
     \<Rightarrow> loop_exn + attempt" where
  "attempt_reading w ctx st native_ref standing env =
     bind_sum (dispatched_roster w ctx (at_current env) (ls_outcome st)) (\<lambda>(criteria, roster).
     if for_session standing criteria = []
     then Inl (NativeWriteRefusal ''The native evaluation has no criterion left to grade'')
     else
     bind_sum (session_output w native_ref env (for_session standing criteria))
       (\<lambda>(answer, session, stood).
     bind_sum (unmoved w native_ref (at_head env) ''The native branch changed during evaluation'')
       (\<lambda>_.
     bind_sum
       (case roster of
          None \<Rightarrow> Inr answer
        | Some tracked \<Rightarrow>
            if reading_of standing = [] then Inr answer
            else map_error CrossOffRefused
              (iteration_output tracked (ls_standing st) (reading_of standing) answer)) (\<lambda>answer.
     bind_sum (map_error GradingRefused (grade_iteration criteria answer (\<lambda>_. None))) (\<lambda>grade.
     Inr \<lparr>ar_grade = grade, ar_dispatched = criteria, ar_output = answer, ar_session = session,
          ar_stood = stood\<rparr>)))))"

definition permutation_check :: "attempt \<Rightarrow> (criteria_fan_in_error, loop_exn) checked" where
  "permutation_check a =
     (case require_permutation (ar_grade a) of
        Inr _ \<Rightarrow> Conforms
      | Inl (NotAPermutation breach) \<Rightarrow> RefusedOutput breach
      | Inl e \<Rightarrow> CrashedCheck (GradingRefused e))"

text \<open>The names the attempts assign are read after the last one, which is the one whose grade
  comes back.\<close>

definition settled_attempt ::
  "loop_wiring \<Rightarrow> loop_context \<Rightarrow> loop_state \<Rightarrow> sha option \<Rightarrow> held_standing \<Rightarrow> (nat \<Rightarrow> attempt_env)
     \<Rightarrow> loop_exn + attempt \<times> fan_in_report option" where
  "settled_attempt w ctx st native_ref standing env =
     (case snd (until_permutation
         (\<lambda>n. case attempt_reading w ctx st native_ref standing (env n) of
                 Inl e \<Rightarrow> CrashedDispatch e
               | Inr a \<Rightarrow> Produced a)
         permutation_check (lw_fan_in_max_attempts w)) of
        Inl e \<Rightarrow> Inl e
      | Inr (Inl breach) \<Rightarrow> Inl (FanInRaised breach)
      | Inr (Inr (a, unresolved, attempts)) \<Rightarrow>
          (case unresolved of
             None \<Rightarrow> Inr (a, None)
           | Some breach \<Rightarrow>
               bind_sum (map_error GradingRefused (fan_in_report (ar_grade a) attempts)) (\<lambda>report.
                 Inr (a, Some report))))"

subsection \<open>The readings that withhold a verdict\<close>

definition mutation_survivors ::
  "loop_wiring \<Rightarrow> evaluation_env \<Rightarrow> sha option \<Rightarrow> attempt \<Rightarrow> loop_exn + criterion_id list" where
  "mutation_survivors w env native_ref a =
     (if native_ref \<noteq> None \<and> ar_stood a \<and> lw_has_mutation w
      then bind_sum (ve_survivors env (ar_dispatched a) (ar_grade a)) (\<lambda>surviving.
        bind_sum (unmoved w native_ref (ve_head_after_mutation env)
            ''The native branch changed during the mutation reading'') (\<lambda>_. Inr surviving))
      else Inr [])"

definition fresh_results :: "readings \<Rightarrow> iteration_grade \<Rightarrow> criterion_result list" where
  "fresh_results reading grade =
     filter (\<lambda>r. rs_criterion_id r \<notin> set (dict_keys reading)) (ig_results grade)"

definition withheld_grade ::
  "loop_wiring \<Rightarrow> evaluation_env \<Rightarrow> sha option \<Rightarrow> readings \<Rightarrow> attempt
     \<Rightarrow> loop_exn + iteration_grade \<times> reasons" where
  "withheld_grade w env native_ref reading a =
     bind_sum (mutation_survivors w env native_ref a) (\<lambda>surviving.
       let reasons = undemonstrated_reasons (fresh_results reading (ar_grade a)) (ar_stood a) surviving in
       if reasons \<noteq> []
       then bind_sum (map_error GradingRefused
           (grade_iteration (ar_dispatched a) (ar_output a) (map_of reasons))) (\<lambda>grade.
         Inr (grade, reasons))
       else Inr (ar_grade a, reasons))"

datatype base_failure = BaseUnavailable string | BaseEscapes loop_exn

fun tree_at_base :: "loop_exn + bool \<Rightarrow> base_failure + unit" where
  "tree_at_base (Inl e) = Inl (BaseEscapes e)"
| "tree_at_base (Inr at_base) =
     (if at_base then Inr () else Inl (BaseUnavailable ''the tree is not the base commit''))"

fun base_tree :: "workspace_end \<Rightarrow> base_failure + unit" where
  "base_tree WorkspaceServed = Inr ()"
| "base_tree WorkspaceRefused = Inl (BaseUnavailable ''a tree at the base was refused'')"
| "base_tree (WorkspaceRaised e) = Inl (BaseEscapes e)"

definition base_ref_read :: "loop_wiring \<Rightarrow> base_env \<Rightarrow> base_failure + sha" where
  "base_ref_read w env =
     (case resolve w (be_head env) of
        Inr base \<Rightarrow> Inr base
      | Inl (NativeWriteRefusal why) \<Rightarrow> Inl (BaseUnavailable ''the lane's base ref cannot be read'')
      | Inl e \<Rightarrow> Inl (BaseEscapes e))"

text \<open>The tree is released whatever its session did, and a release that is refused decides.\<close>

definition released :: "workspace_end \<Rightarrow> base_failure + 'a \<Rightarrow> base_failure + 'a" where
  "released release inner = bind_sum (base_tree release) (\<lambda>_. inner)"

definition checks_at_base ::
  "loop_wiring \<Rightarrow> base_env \<Rightarrow> base_failure + base_check_result list" where
  "checks_at_base w env =
     bind_sum (base_ref_read w env) (\<lambda>_.
     if \<not> lw_has_workspace w
     then Inl (BaseEscapes (NativeWriteRefusal ''Native evaluation requires its workspace provider''))
     else
     bind_sum (base_tree (be_acquire env)) (\<lambda>_.
     released (be_release env)
       (bind_sum (tree_at_base (be_before env)) (\<lambda>_.
        bind_sum (case be_session env of
            BaseAnswered rows \<Rightarrow> Inr rows
          | BaseUnreadable \<Rightarrow>
              Inl (BaseUnavailable ''the checks at the base returned no usable answer'')
          | BaseRaised e \<Rightarrow> Inl (BaseEscapes e)) (\<lambda>rows.
        bind_sum (tree_at_base (be_after env)) (\<lambda>_. Inr rows))))))"

definition base_reading ::
  "loop_wiring \<Rightarrow> base_env \<Rightarrow> loop_exn + (criterion_id, bool) pydict" where
  "base_reading w env =
     (case checks_at_base w env of
        Inl (BaseUnavailable why) \<Rightarrow> Inr []
      | Inl (BaseEscapes e) \<Rightarrow> Inl e
      | Inr rows \<Rightarrow> Inr (base_answers rows))"

definition fresh_passing :: "readings \<Rightarrow> iteration_grade \<Rightarrow> criterion_id list" where
  "fresh_passing reading grade =
     fromkeys (filter (\<lambda>i. i \<notin> set (dict_keys reading))
       (map rs_criterion_id (filter rs_passed (ig_results grade))))"

definition withheld_reasons ::
  "loop_wiring \<Rightarrow> evaluation_env \<Rightarrow> readings \<Rightarrow> execution_criterion list \<Rightarrow> iteration_grade \<Rightarrow> reasons
     \<Rightarrow> loop_exn + reasons" where
  "withheld_reasons w env reading dispatched grade reasons =
     (let passing = fresh_passing reading grade in
      bind_sum (if passing = [] then Inr []
                else base_reading w (ve_base env (filter (\<lambda>c. ec_id c \<in> set passing) dispatched)))
        (\<lambda>at_base. Inr (dict_merge reasons (base_reasons passing at_base))))"

subsection \<open>The cross-off act\<close>

fun strict_zip :: "'a list \<Rightarrow> 'b list \<Rightarrow> loop_exn + ('a \<times> 'b) list" where
  "strict_zip [] [] = Inr []"
| "strict_zip (x # xs) (y # ys) = bind_sum (strict_zip xs ys) (\<lambda>rest. Inr ((x, y) # rest))"
| "strict_zip xs ys = Inl StrictZipError"

definition cross_off_decision ::
  "loop_wiring \<Rightarrow> loop_context \<Rightarrow> iteration_grade \<Rightarrow> execution_criterion list \<Rightarrow> sha \<Rightarrow> string \<Rightarrow> reasons
     \<Rightarrow> nat \<Rightarrow> criterion_cross_off list \<Rightarrow> readings
     \<Rightarrow> loop_exn + criterion_cross_off list \<times> (tracker_criterion \<times> criterion_cross_off) list" where
  "cross_off_decision w ctx grade dispatched graded_sha graded_in reasons iteration standing reading =
     bind_sum (require_wired (lw_has_lane_state w) ''Native execution requires the lane state writer'')
       (\<lambda>_.
     case held_roster dispatched of
       None \<Rightarrow> Inl (NativeWriteRefusal
         ''The native evaluation graded no tracker criterion in a session'')
     | Some roster \<Rightarrow>
         bind_sum (map_error CrossOffRefused
           (cross_offs_for (ig_results grade) graded_sha (evaluation_observation graded_in iteration)
              reasons standing reading)) (\<lambda>cross_offs.
         bind_sum (map_error StickyClassRefused (held_rederivation_classes (standing @ cross_offs)))
           (\<lambda>_.
         bind_sum (strict_zip roster cross_offs) (\<lambda>pairs.
         bind_sum (lane_binding ctx) (\<lambda>_.
         Inr (cross_offs,
              filter (\<lambda>(_, c). map_of reading (co_criterion c) \<noteq> Some CountedReading) pairs))))))"

definition cross_off ::
  "loop_wiring \<Rightarrow> loop_context \<Rightarrow> evaluation_env \<Rightarrow> iteration_grade \<Rightarrow> execution_criterion list \<Rightarrow> sha
     \<Rightarrow> string \<Rightarrow> reasons \<Rightarrow> nat \<Rightarrow> criterion_cross_off list \<Rightarrow> readings
     \<Rightarrow> criterion_cross_off list act" where
  "cross_off w ctx env grade dispatched graded_sha graded_in reasons iteration standing reading =
     then_do (reads (cross_off_decision w ctx grade dispatched graded_sha graded_in reasons iteration
                standing reading)) (\<lambda>(cross_offs, decided).
     then_do (acts (ve_write env decided) (CrossOffsWritten decided)) (\<lambda>_.
     reads (Inr cross_offs)))"

subsection \<open>The evaluate node\<close>

record evaluation =
  vn_head :: "sha option"
  vn_standing :: held_standing
  vn_attempt :: attempt
  vn_fan_in :: "fan_in_report option"
  vn_grade :: iteration_grade
  vn_reasons :: reasons

text \<open>Everything the node reads before its first write.\<close>

definition evaluate_readings ::
  "loop_wiring \<Rightarrow> loop_context \<Rightarrow> evaluation_env \<Rightarrow> loop_state \<Rightarrow> loop_exn + evaluation" where
  "evaluate_readings w ctx env st =
     bind_sum (ve_clone env) (\<lambda>_.
     bind_sum (if lc_native ctx then bind_sum (resolve w (ve_head env)) (\<lambda>h. Inr (Some h)) else Inr None)
       (\<lambda>native_ref.
     bind_sum (ve_changeset env) (\<lambda>_.
     bind_sum (standing_reading ctx env native_ref (ls_standing st)) (\<lambda>standing.
     bind_sum (if hs_newly_lapsed standing \<noteq> []
               then require_wired (lw_has_lapse_escalations w)
                 ''Native execution requires the lapse escalation writer''
               else Inr ()) (\<lambda>_.
     bind_sum (settled_attempt w ctx st native_ref standing (ve_attempt env)) (\<lambda>(a, fan_in).
     bind_sum (withheld_grade w env native_ref (reading_of standing) a) (\<lambda>(grade, reasons).
     Inr \<lparr>vn_head = native_ref, vn_standing = standing, vn_attempt = a, vn_fan_in = fan_in,
          vn_grade = grade, vn_reasons = reasons\<rparr>)))))))"

definition reconciled :: "iteration_grade \<Rightarrow> acceptance_criteria_output" where
  "reconciled grade =
     \<lparr>ao_criteria_results = ig_results grade, ao_sherlock_flags = ig_sherlock_flags grade\<rparr>"

definition iteration_record_of :: "loop_state \<Rightarrow> iteration_grade \<Rightarrow> iteration_record" where
  "iteration_record_of st grade =
     \<lparr>ir_iteration = ls_iteration st, ir_passed_count = ig_passed_count grade,
      ir_failing_criterion_ids = map fl_criterion_id (ig_failures grade),
      ir_commit_sha = ls_commit_sha st\<rparr>"

definition native_settlement ::
  "loop_wiring \<Rightarrow> loop_context \<Rightarrow> evaluation_env \<Rightarrow> loop_state \<Rightarrow> evaluation
     \<Rightarrow> criterion_cross_off list act" where
  "native_settlement w ctx env st v =
     (case vn_head v of
        None \<Rightarrow> reads (Inr [])
      | Some head \<Rightarrow>
          let reading = reading_of (vn_standing v); dispatched = ar_dispatched (vn_attempt v) in
          then_do (reads (withheld_reasons w env reading dispatched (vn_grade v) (vn_reasons v)))
            (\<lambda>withheld.
          then_do (cross_off w ctx env (vn_grade v) dispatched head (ar_session (vn_attempt v)) withheld
              (ls_iteration st) (ls_standing st) reading) (\<lambda>next_standing.
          then_do (if hs_newly_lapsed (vn_standing v) = [] then reads (Inr ())
                   else then_do (reads (lane_binding ctx)) (\<lambda>_.
                     acts (ve_raise env (hs_newly_lapsed (vn_standing v)) head)
                       (LapsesRaised (hs_newly_lapsed (vn_standing v)) head))) (\<lambda>_.
          reads (Inr next_standing)))))"

definition evaluation_receipt ::
  "iteration_event \<Rightarrow> evaluation \<Rightarrow> loop_exn + ralph_outcome" where
  "evaluation_receipt event v =
     (case vn_head v of
        None \<Rightarrow> evaluated_outcome event (ar_dispatched (vn_attempt v))
      | Some head \<Rightarrow> native_evaluated_outcome event (ar_dispatched (vn_attempt v)) head)"

definition evaluate_node ::
  "loop_wiring \<Rightarrow> loop_context \<Rightarrow> evaluation_env \<Rightarrow> loop_state \<Rightarrow> loop_state act" where
  "evaluate_node w ctx env st =
     then_do (reads (evaluate_readings w ctx env st)) (\<lambda>v.
     then_do (if lc_scoped ctx \<and> lw_has_evaluator_rulings w
              then acts (ve_rulings env (reconciled (vn_grade v))) (RulingsRecorded (ls_iteration st))
              else reads (Inr ())) (\<lambda>_.
     let records = ls_records st @ [iteration_record_of st (vn_grade v)] in
     then_do (reads (map_error TrajectoryRefused (fold_trajectory records (lw_plateau_window w))))
       (\<lambda>trajectory.
     let event = \<lparr>ie_iteration = ls_iteration st, ie_branch = lc_ralph_branch ctx,
           ie_commit_sha = ls_commit_sha st, ie_verdict = ig_verdict (vn_grade v),
           ie_evaluation = reconciled (vn_grade v), ie_trajectory = trajectory,
           ie_fan_in = vn_fan_in v\<rparr> in
     then_do (native_settlement w ctx env st v) (\<lambda>next_standing.
     then_do (acts (Inr ()) (EmittedIteration event)) (\<lambda>_.
     then_do (reads (evaluation_receipt event v)) (\<lambda>outcome.
     reads (Inr (st\<lparr>ls_verdict := ig_verdict (vn_grade v),
                    ls_pending_failures := ig_failures (vn_grade v), ls_records := records,
                    ls_standing := next_standing, ls_outcome := outcome\<rparr>))))))))"

subsection \<open>Routing and the loop\<close>

datatype route = ToExecute | ToEvaluate | ToEnd

definition should_continue :: "loop_wiring \<Rightarrow> loop_state \<Rightarrow> loop_exn + route" where
  "should_continue w st =
     (if gate_cleared (ls_verdict st) \<and> \<not> ls_amendment_blocked st then Inr ToEnd
      else if int (ls_iteration st) \<ge> lw_max_iterations w then Inr ToEnd
      else bind_sum (map_error TrajectoryRefused (fold_trajectory (ls_records st) (lw_plateau_window w)))
        (\<lambda>trajectory. if lt_plateaued trajectory then Inr ToEnd else Inr ToExecute))"

definition route_after_execute :: "loop_wiring \<Rightarrow> loop_state \<Rightarrow> loop_exn + route" where
  "route_after_execute w st =
     (if ls_amendment_blocked st then should_continue w st else Inr ToEvaluate)"

record loop_env =
  le_execute :: "nat \<Rightarrow> execute_env"
  le_evaluate :: "nat \<Rightarrow> evaluation_env"

text \<open>One round: execute, and unless the round was refused, evaluate; then where the graph goes.\<close>

definition round_of ::
  "loop_wiring \<Rightarrow> loop_context \<Rightarrow> loop_env \<Rightarrow> loop_state \<Rightarrow> (loop_state \<times> route) act" where
  "round_of w ctx env st =
     (let n = Suc (ls_iteration st) in
      then_do (execute_node w ctx (le_execute env n) st) (\<lambda>executed.
      then_do (reads (route_after_execute w executed)) (\<lambda>next.
      if next \<noteq> ToEvaluate then reads (Inr (executed, next))
      else
        then_do (evaluate_node w ctx (le_evaluate env n) executed) (\<lambda>evaluated.
        then_do (reads (should_continue w evaluated)) (\<lambda>next.
        reads (Inr (evaluated, next)))))))"

lemma executed_iteration:
  assumes "execute_node w ctx env st = (Inr st', t)"
  shows "ls_iteration st' = Suc (ls_iteration st)"
proof -
  obtain r where "executed_state ctx st r = Inr st'"
    using assms by (auto simp: execute_node_def Let_def reads_def result_simps split: prod.splits)
  then show ?thesis
    by (auto simp: executed_state_def Let_def result_simps split: if_splits option.splits)
qed

lemma evaluated_iteration:
  "evaluate_node w ctx env st = (Inr st', t) \<Longrightarrow> ls_iteration st' = ls_iteration st"
  by (auto simp: evaluate_node_def Let_def reads_def result_simps)

lemma should_continue_execute:
  "should_continue w st = Inr ToExecute \<Longrightarrow> int (ls_iteration st) < lw_max_iterations w"
  by (auto simp: should_continue_def result_simps split: if_splits)

lemma should_continue_never_evaluates: "should_continue w st \<noteq> Inr ToEvaluate"
  by (auto simp: should_continue_def result_simps split: if_splits)

lemma round_cases:
  assumes "round_of w ctx env st = (Inr (st', next), t)"
  obtains
    (refused) "execute_node w ctx (le_execute env (Suc (ls_iteration st))) st = (Inr st', t)"
      "route_after_execute w st' = Inr next" "next \<noteq> ToEvaluate"
  | (graded) s t1 t2 where
      "execute_node w ctx (le_execute env (Suc (ls_iteration st))) st = (Inr s, t1)"
      "route_after_execute w s = Inr ToEvaluate"
      "evaluate_node w ctx (le_evaluate env (Suc (ls_iteration st))) s = (Inr st', t2)"
      "should_continue w st' = Inr next" "t = t1 @ t2"
  using assms
  by (auto simp: round_of_def Let_def reads_def result_simps split: if_splits)

lemma route_execute:
  "route_after_execute w st = Inr ToExecute \<Longrightarrow> int (ls_iteration st) < lw_max_iterations w"
  by (auto simp: route_after_execute_def should_continue_execute split: if_splits)

lemma round_progress:
  assumes "round_of w ctx env st = (Inr (st', next), t)"
  shows "ls_iteration st' = Suc (ls_iteration st) \<and>
    (next = ToExecute \<longrightarrow> int (ls_iteration st') < lw_max_iterations w)"
  using assms
proof (cases rule: round_cases)
  case refused
  then show ?thesis using executed_iteration [OF refused(1)] route_execute by blast
next
  case (graded s t1 t2)
  then show ?thesis
    using executed_iteration [OF graded(1)] evaluated_iteration [OF graded(3)]
      should_continue_execute [of w st'] by auto
qed

function loop_from ::
  "loop_wiring \<Rightarrow> loop_context \<Rightarrow> loop_env \<Rightarrow> loop_state \<Rightarrow> loop_state act" where
  "loop_from w ctx env st =
     (case round_of w ctx env st of
        (Inl e, t) \<Rightarrow> (Inl e, t)
      | (Inr (st', next), t) \<Rightarrow>
          if next \<noteq> ToExecute then (Inr st', t)
          else (case loop_from w ctx env st' of (r, t') \<Rightarrow> (r, t @ t')))"
  by pat_completeness auto
termination
  by (relation "measure (\<lambda>(w, ctx, env, st). nat (lw_max_iterations w - int (ls_iteration st)))")
    (auto dest!: round_progress [OF sym])

declare loop_from.simps [simp del]

subsection \<open>The run and its receipt\<close>

record run_env =
  re_loop :: loop_env
  re_current :: criteria_reader
  re_clone :: "loop_exn + unit"
  re_head :: "loop_exn + sha"

fun is_forwarded :: "loop_effect \<Rightarrow> bool" where
  "is_forwarded (EmittedIteration event) = True"
| "is_forwarded (EmittedAmendment event) = True"
| "is_forwarded _ = False"

definition forwarded :: "loop_effect list \<Rightarrow> loop_effect option" where
  "forwarded t =
     (let events = filter is_forwarded t in if events = [] then None else Some (last events))"

fun outcome_event :: "ralph_outcome \<Rightarrow> loop_effect option" where
  "outcome_event PendingOutcome = None"
| "outcome_event (EvaluatedOutcome event criteria) = Some (EmittedIteration event)"
| "outcome_event (NativeEvaluatedOutcome event criteria head_sha) = Some (EmittedIteration event)"
| "outcome_event (RefusedOutcome event last_iteration criteria) = Some (EmittedAmendment event)"

definition standing_receipt ::
  "loop_wiring \<Rightarrow> loop_context \<Rightarrow> run_env \<Rightarrow> tracker_criterion list \<Rightarrow> ralph_outcome \<Rightarrow> loop_exn + unit" where
  "standing_receipt w ctx env current outcome =
     (case outcome of
        NativeEvaluatedOutcome event criteria head_sha \<Rightarrow>
          if map Tracker current \<noteq> criteria
          then Inl (NativeWriteRefusal ''Current Checks differ from the saved native evaluation'')
          else
            bind_sum (re_clone env) (\<lambda>_.
            bind_sum (resolve w (re_head env)) (\<lambda>now.
              if now \<noteq> head_sha then Inl (NativeWriteRefusal ''The evaluated native branch changed'')
              else if ie_branch event \<noteq> lc_ralph_branch ctx
                then Inl (NativeWriteRefusal ''The saved native evaluation belongs to another branch'')
              else Inr ()))
      | RefusedOutcome event last_iteration criteria \<Rightarrow> Inr ()
      | _ \<Rightarrow> Inl (NativeWriteRefusal ''The native loop has no completed outcome''))"

definition replayed_events :: "loop_effect list \<Rightarrow> ralph_outcome \<Rightarrow> loop_effect list" where
  "replayed_events t outcome =
     (if forwarded t = outcome_event outcome then []
      else case outcome of
          RefusedOutcome event (Some last_iteration) criteria \<Rightarrow>
            [EmittedIteration last_iteration, EmittedAmendment event]
        | RefusedOutcome event None criteria \<Rightarrow> [EmittedAmendment event]
        | NativeEvaluatedOutcome event criteria head_sha \<Rightarrow> [EmittedIteration event]
        | _ \<Rightarrow> [])"

definition run ::
  "loop_wiring \<Rightarrow> loop_context \<Rightarrow> run_env \<Rightarrow> loop_state act" where
  "run w ctx env =
     (case loop_from w ctx (re_loop env) initial_state of
        (Inl e, t) \<Rightarrow> (Inl e, t)
      | (Inr st, t) \<Rightarrow>
          if \<not> lc_native ctx then (Inr st, t)
          else
            then_do (Inr (), t) (\<lambda>_.
            then_do (reads (bind_sum (current_native_criteria w (re_current env)
                              (held (lc_criteria ctx) (ls_outcome st))) (\<lambda>current.
                            standing_receipt w ctx env current (ls_outcome st)))) (\<lambda>_.
            (Inr st, replayed_events t (ls_outcome st)))))"

end
