(* ===== verification/RalphLoopInv.thy ===== *)
theory RalphLoopInv
  imports RalphLoop
begin

section \<open>What every round of the loop does\<close>

text \<open>
  The facts the loop's properties share: the effects each node leaves behind, what an evaluation that
  returned must have read, and the invariant of the loop's state.
\<close>

lemma then_do_all:
  "list_all P (snd m) \<Longrightarrow> (\<And>x. list_all P (snd (f x))) \<Longrightarrow> list_all P (snd (then_do m f))"
  by (cases m; cases "fst m") auto

lemma reads_all [simp]: "list_all P (snd (reads r))"
  by (simp add: reads_def)

lemma acts_all [simp]: "list_all P (snd (acts r e)) \<longleftrightarrow> P e"
  by (simp add: acts_def)

fun opens_session :: "loop_effect \<Rightarrow> bool" where
  "opens_session (SessionOpened c base) = True"
| "opens_session _ = False"

fun emits_iteration :: "loop_effect \<Rightarrow> bool" where
  "emits_iteration (EmittedIteration event) = True"
| "emits_iteration _ = False"

subsection \<open>The execute node\<close>

lemma read_events_effects:
  "read_events r es = (r', t) \<Longrightarrow> list_all (\<lambda>e. \<not> opens_session e \<and> \<not> emits_iteration e) t"
proof (induction es arbitrary: r t)
  case (Cons e es)
  obtain r1 w1 where e: "read_event r e = (r1, w1)" by (cases "read_event r e")
  obtain t2 where t2: "read_events r1 es = (r', t2)" "t = w1 # t2"
    using Cons.prems e by (auto split: prod.splits)
  have "\<not> opens_session w1 \<and> \<not> emits_iteration w1"
    using e by (cases e) (auto simp: Let_def)
  then show ?case using Cons.IH [OF t2(1)] t2(2) by simp
qed simp

lemma read_events_refusal:
  "read_events r es = (r', t) \<Longrightarrow> (sr_blocked r \<longrightarrow> sr_refusal r \<noteq> None) \<Longrightarrow>
     sr_blocked r' \<longrightarrow> sr_refusal r' \<noteq> None"
proof (induction es arbitrary: r t)
  case (Cons e es)
  obtain r1 w1 where e: "read_event r e = (r1, w1)" by (cases "read_event r e")
  obtain t2 where t2: "read_events r1 es = (r', t2)" "t = w1 # t2"
    using Cons.prems e by (auto split: prod.splits)
  have "sr_blocked r1 \<longrightarrow> sr_refusal r1 \<noteq> None"
    using e Cons.prems(2) by (cases e) (auto simp: Let_def)
  then show ?case using Cons.IH [OF t2(1)] by simp
qed simp

lemma execute_effects:
  assumes "execute_node w ctx env st = (r, t)"
  shows "filter emits_iteration t = [] \<and>
    filter opens_session t =
      (if t = [] then [] else
       [SessionOpened (cuts_branch ctx (Suc (ls_iteration st)))
         (if cuts_branch ctx (Suc (ls_iteration st)) then lc_work_base_ref ctx else lc_ralph_branch ctx)]) \<and>
    (is_ok r \<longrightarrow> t \<noteq> [])"
proof -
  let ?opened = "SessionOpened (cuts_branch ctx (Suc (ls_iteration st)))
    (if cuts_branch ctx (Suc (ls_iteration st)) then lc_work_base_ref ctx else lc_ralph_branch ctx)"
  obtain reading emitted where ev: "read_events
      \<lparr>sr_reports = ls_amendment_reports st, sr_blocked = False, sr_refusal = None,
       sr_commit_sha = None\<rparr> (xe_events env) = (reading, emitted)"
    by (cases "read_events \<lparr>sr_reports = ls_amendment_reports st, sr_blocked = False,
        sr_refusal = None, sr_commit_sha = None\<rparr> (xe_events env)")
  have none: "filter opens_session emitted = []" "filter emits_iteration emitted = []"
    using read_events_effects [OF ev] by (auto simp: filter_empty_conv list_all_iff)
  have "(t = [] \<and> \<not> is_ok r) \<or> t = ?opened # emitted"
    using assms unfolding execute_node_def Let_def ev
    by (cases "xe_end env"; cases r) (auto simp: reads_def acts_def result_simps split: prod.splits)
  then show ?thesis using none by auto
qed

definition refused_round :: "loop_context \<Rightarrow> loop_state \<Rightarrow> bool" where
  "refused_round ctx st \<longleftrightarrow>
     (lc_native ctx \<and> ls_amendment_blocked st \<longrightarrow>
        (\<exists>event last criteria. ls_outcome st = RefusedOutcome event last criteria))"

lemma execute_state:
  assumes "execute_node w ctx env st = (Inr st', t)"
  shows "ls_iteration st' = Suc (ls_iteration st) \<and> ls_verdict st' = ls_verdict st \<and>
    ls_records st' = ls_records st \<and> ls_standing st' = ls_standing st \<and>
    (if lc_native ctx then refused_round ctx st'
     else ls_amendment_blocked st' = ls_amendment_blocked st \<and> ls_outcome st' = ls_outcome st)"
proof -
  obtain r emitted where r: "read_events
      \<lparr>sr_reports = ls_amendment_reports st, sr_blocked = False, sr_refusal = None,
       sr_commit_sha = None\<rparr> (xe_events env) = (r, emitted)" "executed_state ctx st r = Inr st'"
    using assms by (auto simp: execute_node_def Let_def reads_def result_simps split: prod.splits)
  have "sr_blocked r \<longrightarrow> sr_refusal r \<noteq> None" using read_events_refusal [OF r(1)] by simp
  then show ?thesis
    using r(2)
    by (auto simp: executed_state_def refused_outcome_def refused_round_def Let_def result_simps
        split: if_splits option.splits)
qed

subsection \<open>The evaluate node\<close>

lemma settled_cases:
  assumes "native_settlement w ctx env st v = (Inr next_standing, t)"
  obtains
    (authored) "vn_head v = None" "next_standing = []" "t = []"
  | (native) head withheld decided where "vn_head v = Some head"
      "withheld_reasons w env (reading_of (vn_standing v)) (ar_dispatched (vn_attempt v)) (vn_grade v)
         (vn_reasons v) = Inr withheld"
      "cross_off_decision w ctx (vn_grade v) (ar_dispatched (vn_attempt v)) head
         (ar_session (vn_attempt v)) withheld (ls_iteration st) (ls_standing st)
         (reading_of (vn_standing v)) = Inr (next_standing, decided)"
      "t = CrossOffsWritten decided #
         (if hs_newly_lapsed (vn_standing v) = [] then []
          else [LapsesRaised (hs_newly_lapsed (vn_standing v)) head])"
proof (cases "vn_head v")
  case None
  then show ?thesis using assms authored by (simp add: native_settlement_def reads_def)
next
  case (Some head)
  show ?thesis
    using assms
    by (auto simp: native_settlement_def Some cross_off_def reads_def acts_def Let_def result_simps
        split: if_splits intro: native [OF Some])
qed

lemma evaluate_cases:
  assumes "evaluate_node w ctx env st = (Inr st', t)"
  obtains v trajectory next_standing event outcome t1 t2 where
    "evaluate_readings w ctx env st = Inr v"
    "fold_trajectory (ls_records st @ [iteration_record_of st (vn_grade v)]) (lw_plateau_window w) =
       Inr trajectory"
    "native_settlement w ctx env st v = (Inr next_standing, t2)"
    "event = \<lparr>ie_iteration = ls_iteration st, ie_branch = lc_ralph_branch ctx,
       ie_commit_sha = ls_commit_sha st, ie_verdict = ig_verdict (vn_grade v),
       ie_evaluation = reconciled (vn_grade v), ie_trajectory = trajectory,
       ie_fan_in = vn_fan_in v\<rparr>"
    "evaluation_receipt event v = Inr outcome"
    "t1 = [] \<or> t1 = [RulingsRecorded (ls_iteration st)]"
    "t = t1 @ t2 @ [EmittedIteration event]"
    "st' = st\<lparr>ls_verdict := ig_verdict (vn_grade v), ls_pending_failures := ig_failures (vn_grade v),
       ls_records := ls_records st @ [iteration_record_of st (vn_grade v)],
       ls_standing := next_standing, ls_outcome := outcome\<rparr>"
proof -
  let ?rulings = "\<lambda>v. if lc_scoped ctx \<and> lw_has_evaluator_rulings w
    then acts (ve_rulings env (reconciled (vn_grade v))) (RulingsRecorded (ls_iteration st))
    else reads (Inr ())"
  let ?event = "\<lambda>v trajectory. \<lparr>ie_iteration = ls_iteration st, ie_branch = lc_ralph_branch ctx,
    ie_commit_sha = ls_commit_sha st, ie_verdict = ig_verdict (vn_grade v),
    ie_evaluation = reconciled (vn_grade v), ie_trajectory = trajectory,
    ie_fan_in = vn_fan_in v\<rparr>"
  obtain v u t1 trajectory next_standing t2 outcome where e:
      "evaluate_readings w ctx env st = Inr v" "?rulings v = (Inr u, t1)"
      "fold_trajectory (ls_records st @ [iteration_record_of st (vn_grade v)]) (lw_plateau_window w) =
         Inr trajectory"
      "native_settlement w ctx env st v = (Inr next_standing, t2)"
      "evaluation_receipt (?event v trajectory) v = Inr outcome"
      "t = t1 @ t2 @ [EmittedIteration (?event v trajectory)]"
      "st' = st\<lparr>ls_verdict := ig_verdict (vn_grade v), ls_pending_failures := ig_failures (vn_grade v),
         ls_records := ls_records st @ [iteration_record_of st (vn_grade v)],
         ls_standing := next_standing, ls_outcome := outcome\<rparr>"
    using assms unfolding evaluate_node_def Let_def then_do_Inr reads_def acts_def
    by (clarsimp simp: map_error_Inr)
  have "t1 = [] \<or> t1 = [RulingsRecorded (ls_iteration st)]"
    using e(2) by (simp add: acts_def reads_def split: if_splits)
  then show ?thesis by (rule that [OF e(1,3,4) refl e(5) _ e(6,7)])
qed

lemma evaluate_opens_none:
  "evaluate_node w ctx env st = (r, t) \<Longrightarrow> filter opens_session t = []"
proof -
  have "list_all (\<lambda>e. \<not> opens_session e) (snd (native_settlement w ctx env st v))" for v
    unfolding native_settlement_def cross_off_def Let_def
    by (auto split: option.splits prod.splits intro!: then_do_all)
  then have "list_all (\<lambda>e. \<not> opens_session e) (snd (evaluate_node w ctx env st))"
    unfolding evaluate_node_def Let_def by (auto intro!: then_do_all)
  then show "evaluate_node w ctx env st = (r, t) \<Longrightarrow> filter opens_session t = []"
    by (simp add: filter_empty_conv list_all_iff)
qed

lemma receipt_cases:
  assumes "evaluation_receipt event v = Inr outcome"
  shows "same_roster event (ar_dispatched (vn_attempt v)) \<and>
    outcome_criteria outcome = ar_dispatched (vn_attempt v) \<and>
    outcome_event outcome = Some (EmittedIteration event) \<and>
    (case vn_head v of
       None \<Rightarrow> outcome = EvaluatedOutcome event (ar_dispatched (vn_attempt v))
     | Some head \<Rightarrow> outcome = NativeEvaluatedOutcome event (ar_dispatched (vn_attempt v)) head)"
  using assms
  by (auto simp: evaluation_receipt_def evaluated_outcome_def native_evaluated_outcome_def
      split: option.splits if_splits)

subsection \<open>What an evaluation read\<close>

lemma readings_facts:
  assumes "evaluate_readings w ctx env st = Inr v"
  shows "(if lc_native ctx then \<exists>head. resolve w (ve_head env) = Inr head \<and> vn_head v = Some head
          else vn_head v = None) \<and>
    standing_reading ctx env (vn_head v) (ls_standing st) = Inr (vn_standing v) \<and>
    settled_attempt w ctx st (vn_head v) (vn_standing v) (ve_attempt env) =
      Inr (vn_attempt v, vn_fan_in v) \<and>
    withheld_grade w env (vn_head v) (reading_of (vn_standing v)) (vn_attempt v) =
      Inr (vn_grade v, vn_reasons v)"
  using assms unfolding evaluate_readings_def bind_sum_Inr
  by (cases "lc_native ctx") (clarsimp simp: bind_sum_Inr)+

lemma settled_attempt_produced:
  assumes "settled_attempt w ctx st ref standing env = Inr (a, fan_in)"
  shows "\<exists>n. attempt_reading w ctx st ref standing (env n) = Inr a"
proof -
  obtain unresolved attempts where "snd (until_permutation
      (\<lambda>n. case attempt_reading w ctx st ref standing (env n) of
              Inl e \<Rightarrow> CrashedDispatch e | Inr a \<Rightarrow> Produced a)
      permutation_check (lw_fan_in_max_attempts w)) = Inr (Inr (a, unresolved, attempts))"
    using assms unfolding settled_attempt_def
    by (auto simp: result_simps split: sum.splits option.splits)
  from until_permutation_produced [OF this] show ?thesis by (auto split: sum.splits)
qed

lemma reading_of_get:
  "map_of (reading_of h) i =
     (if i \<in> set (map co_criterion (hs_lapsed h)) then Some LapsedReading
      else if i \<in> set (map co_criterion (hs_carried h)) then Some CountedReading else None)"
proof -
  have const: "map_of (dict_of co_criterion (\<lambda>_. k) cs) i =
      (if i \<in> set (map co_criterion cs) then Some k else None)" for k :: graded_reading and cs
    using dict_of_None [of co_criterion "\<lambda>_. k" cs i]
      dict_of_Some [of co_criterion "\<lambda>_. k" cs i] by fastforce
  show ?thesis
    unfolding reading_of_def dict_merge_get [OF wf_dict_of] const by simp
qed

lemma reading_of_keys:
  "set (dict_keys (reading_of h)) =
     set (map co_criterion (hs_carried h)) \<union> set (map co_criterion (hs_lapsed h))"
proof (rule set_eqI)
  fix i
  show "i \<in> set (dict_keys (reading_of h)) \<longleftrightarrow>
      i \<in> set (map co_criterion (hs_carried h)) \<union> set (map co_criterion (hs_lapsed h))"
    using dict_get_None [of "reading_of h" i] reading_of_get [of h i] by (auto split: if_splits)
qed

lemma standing_reading_cases:
  assumes "standing_reading ctx env (Some head) prior = Inr h"
  shows "(prior = [] \<and> h = empty_standing) \<or>
    (\<exists>changesets. moved_since (ve_diff env) prior = Inr changesets \<and>
       hs_carried h = filter (stands head (map_of changesets) (lc_base_stale ctx)) prior \<and>
       hs_lapsed h = filter (\<lambda>c. lapses head (map_of changesets) (lc_base_stale ctx) c \<or>
         co_state c = Lapsed) prior \<and>
       hs_newly_lapsed h = filter (lapses head (map_of changesets) (lc_base_stale ctx)) prior)"
  using assms
  by (auto simp: standing_reading_def held_standing_def held_standing_fold result_simps split: if_splits)

lemma standing_reading_subset:
  assumes "standing_reading ctx env ref prior = Inr h"
  shows "set (hs_carried h) \<subseteq> set prior \<and> set (hs_lapsed h) \<subseteq> set prior \<and>
    (\<forall>c \<in> set prior. co_state c = Lapsed \<and> ref \<noteq> None \<longrightarrow> c \<in> set (hs_lapsed h))"
proof (cases ref)
  case None
  then show ?thesis using assms by (auto simp: standing_reading_def empty_standing_def)
next
  case (Some head)
  then show ?thesis
    using standing_reading_cases [of ctx env head prior h] assms by (auto simp: empty_standing_def)
qed

lemma counted_iff_carried:
  assumes "standing_reading ctx env (Some head) prior = Inr h" and "distinct (map co_criterion prior)"
    and "c \<in> set prior"
  shows "map_of (reading_of h) (co_criterion c) = Some CountedReading \<longleftrightarrow> c \<in> set (hs_carried h)"
proof -
  have same: "d = c" if "d \<in> set prior" "co_criterion d = co_criterion c" for d
    using that assms(2,3) by (metis distinct_map inj_onD)
  have sub: "set (hs_carried h) \<subseteq> set prior" "set (hs_lapsed h) \<subseteq> set prior"
    using standing_reading_subset [OF assms(1)] by auto
  have "\<not> (c \<in> set (hs_carried h) \<and> c \<in> set (hs_lapsed h))"
    using standing_reading_cases [OF assms(1)]
    by (auto simp: empty_standing_def lapses_def stands_def)
  moreover have "co_criterion c \<in> set (map co_criterion (hs_carried h)) \<longleftrightarrow> c \<in> set (hs_carried h)"
      "co_criterion c \<in> set (map co_criterion (hs_lapsed h)) \<longleftrightarrow> c \<in> set (hs_lapsed h)"
    using sub same by (auto simp: image_iff)
  ultimately show ?thesis unfolding reading_of_get by auto
qed

lemma attempt_facts:
  assumes "attempt_reading w ctx st ref standing env = Inr a"
  obtains criteria roster answer session stood where
    "dispatched_roster w ctx (at_current env) (ls_outcome st) = Inr (criteria, roster)"
    "ar_dispatched a = criteria"
    "at_session env (for_session standing criteria) = Inr (answer, session, stood)"
    "valid_output answer" "ar_stood a = (ref = None \<or> stood)" "ar_session a = session"
    "case roster of
       None \<Rightarrow> ar_output a = answer
     | Some tracked \<Rightarrow>
         if reading_of standing = [] then ar_output a = answer
         else iteration_output tracked (ls_standing st) (reading_of standing) answer =
           Inr (ar_output a)"
    "grade_iteration criteria (ar_output a) (\<lambda>_. None) = Inr (ar_grade a)"
proof -
  obtain criteria roster answer session stood out grade where r:
      "dispatched_roster w ctx (at_current env) (ls_outcome st) = Inr (criteria, roster)"
      "session_output w ref env (for_session standing criteria) = Inr (answer, session, stood)"
      "(case roster of
          None \<Rightarrow> Inr answer
        | Some tracked \<Rightarrow>
            if reading_of standing = [] then Inr answer
            else map_error CrossOffRefused
              (iteration_output tracked (ls_standing st) (reading_of standing) answer)) = Inr out"
      "grade_iteration criteria out (\<lambda>_. None) = Inr grade"
      "a = \<lparr>ar_grade = grade, ar_dispatched = criteria, ar_output = out, ar_session = session,
            ar_stood = stood\<rparr>"
    using assms unfolding attempt_reading_def bind_sum_Inr map_error_Inr
    by (clarsimp simp: bind_sum_Inr map_error_Inr split: if_splits)
  obtain stood' where s: "at_session env (for_session standing criteria) = Inr (answer, session, stood')"
      "valid_output answer" "stood = (ref = None \<or> stood')"
    using r(2) by (auto simp: session_output_def result_simps split: if_splits)
  show ?thesis
    by (rule that [OF r(1) _ s(1,2)])
      (use r s in \<open>auto simp: result_simps split: option.splits if_splits\<close>)
qed

subsection \<open>What withholds a pass\<close>

lemma final_grade:
  assumes "withheld_grade w env ref reading a = Inr (grade, reasons)"
    and "grade_iteration (ar_dispatched a) (ar_output a) (\<lambda>_. None) = Inr (ar_grade a)"
  shows "grade_iteration (ar_dispatched a) (ar_output a) (map_of reasons) = Inr grade \<and>
    (\<exists>surviving. mutation_survivors w env ref a = Inr surviving \<and>
       reasons = undemonstrated_reasons (fresh_results reading (ar_grade a)) (ar_stood a) surviving)"
proof -
  have empty: "map_of [] = (\<lambda>_. None)" by auto
  obtain surviving where s: "mutation_survivors w env ref a = Inr surviving"
      "reasons = undemonstrated_reasons (fresh_results reading (ar_grade a)) (ar_stood a) surviving"
      "reasons = [] \<longrightarrow> grade = ar_grade a"
      "reasons \<noteq> [] \<longrightarrow>
         grade_iteration (ar_dispatched a) (ar_output a) (map_of reasons) = Inr grade"
    using assms(1) unfolding withheld_grade_def Let_def
    by (auto simp: result_simps split: if_splits)
  then show ?thesis using assms(2) empty by (cases "reasons = []") auto
qed

lemma undemonstrated_get:
  "map_of (undemonstrated_reasons results stood surviving) i = None \<longleftrightarrow>
     i \<notin> set (map rs_criterion_id results) \<or> stood \<and> i \<notin> set surviving"
  by (auto simp: undemonstrated_reasons_def dict_of_None)

lemma wf_base_reasons: "wf_dict (base_reasons passing at_base)"
proof -
  have "wf_dict (foldl (base_reason_step at_base) reasons passing)" if "wf_dict reasons" for reasons
    using that
    by (induction passing arbitrary: reasons)
      (auto simp: base_reason_step_def wf_dict_set split: option.splits bool.splits)
  then show ?thesis by (simp add: base_reasons_def)
qed

lemma withheld_None:
  assumes "withheld_reasons w env reading dispatched grade reasons = Inr withheld"
    and "map_of withheld i = None"
  shows "map_of reasons i = None \<and>
    (i \<in> set (fresh_passing reading grade) \<longrightarrow>
       (\<exists>criteria rows r. checks_at_base w (ve_base env criteria) = Inr rows \<and>
          filter (\<lambda>r. bc_criterion_id r = i) rows = [r] \<and> \<not> bc_satisfied_at_base r))"
proof -
  let ?passing = "fresh_passing reading grade"
  obtain at_base where b: "(if ?passing = [] then Inr []
        else base_reading w (ve_base env (filter (\<lambda>c. ec_id c \<in> set ?passing) dispatched))) = Inr at_base"
      "withheld = dict_merge reasons (base_reasons ?passing at_base)"
    using assms(1) by (auto simp: withheld_reasons_def Let_def result_simps)
  have none: "map_of (base_reasons ?passing at_base) i = None" "map_of reasons i = None"
    using assms(2) unfolding b(2) dict_merge_get [OF wf_base_reasons] by (auto split: option.splits)
  have "\<exists>criteria rows r. checks_at_base w (ve_base env criteria) = Inr rows \<and>
      filter (\<lambda>r. bc_criterion_id r = i) rows = [r] \<and> \<not> bc_satisfied_at_base r"
    if i: "i \<in> set ?passing"
  proof -
    have at: "map_of at_base i = Some False"
      using none(1) i unfolding base_reasons_def base_reasons_fold
      by (auto split: option.splits bool.splits)
    then have "at_base \<noteq> []" by auto
    then obtain criteria rows where rows: "checks_at_base w (ve_base env criteria) = Inr rows"
        "at_base = base_answers rows"
      using b(1) by (auto simp: base_reading_def split: if_splits sum.splits base_failure.splits)
    have "\<exists>r. filter (\<lambda>r. bc_criterion_id r = i) rows = [r] \<and> \<not> bc_satisfied_at_base r"
      using at unfolding rows(2) base_answers_get occurrences_def
      by (auto split: list.splits)
    then show ?thesis using rows(1) by blast
  qed
  then show ?thesis using none(2) by blast
qed

subsection \<open>The decided cross-offs\<close>

lemma build_all_list_all2: "build_all f xs = Inr ys \<longleftrightarrow> list_all2 (\<lambda>x y. f x = Inr y) xs ys"
proof (induction xs arbitrary: ys)
  case (Cons x xs)
  then show ?case by (cases ys) (auto simp: result_simps)
qed auto

lemma strict_zip_Inr: "strict_zip xs ys = Inr zs \<longleftrightarrow> length xs = length ys \<and> zs = zip xs ys"
  by (induction xs ys arbitrary: zs rule: strict_zip.induct) (auto simp: result_simps)

lemma cross_off_facts:
  assumes "cross_off_decision w ctx grade dispatched sha session withheld iteration standing reading =
      Inr (cross_offs, decided)"
  shows "list_all2 (\<lambda>r c. built_cross_off sha (evaluation_observation session iteration) withheld
        (standing_by_criterion standing) reading r = Inr c) (ig_results grade) cross_offs \<and>
    is_ok (held_rederivation_classes (standing @ cross_offs)) \<and>
    (\<exists>roster. held_roster dispatched = Some roster \<and> length roster = length cross_offs \<and>
       decided = filter (\<lambda>(_, c). map_of reading (co_criterion c) \<noteq> Some CountedReading)
         (zip roster cross_offs))"
  using assms unfolding cross_off_decision_def
  by (auto simp: result_simps strict_zip_Inr cross_offs_for_def build_all_list_all2 Let_def
      split: option.splits if_splits)

lemma built_cases:
  assumes "built_cross_off sha observation withheld (standing_by_criterion standing) reading r = Inr c"
  shows "co_criterion c = rs_criterion_id r \<and>
    (case map_of reading (rs_criterion_id r) of
       Some CountedReading \<Rightarrow> c \<in> set standing
     | Some LapsedReading \<Rightarrow> co_state c = Lapsed \<and> valid_cross_off c
     | None \<Rightarrow> ev_graded_sha (co_evidence c) = sha \<and> valid_cross_off c \<and>
         co_state c = cross_off_state_of (rs_passed r) (map_of withheld (rs_criterion_id r)))"
proof -
  have prior: "p \<in> set standing \<and> co_criterion p = i"
    if "map_of (standing_by_criterion standing) i = Some p" for i p
    using dict_of_Some [OF that [unfolded standing_by_criterion_def]] by auto
  show ?thesis
    using assms
    by (auto simp: built_cross_off_def Let_def criterion_ref_def declared_class_def
        dest!: prior split: option.splits graded_reading.splits if_splits prod.splits)
qed

end
