(* ===== verification/RalphLoopSample.thy ===== *)
theory RalphLoopSample
  imports RalphLoop
begin

section \<open>A small loop, run\<close>

text \<open>
  A native loop over two tracker criteria: a session that passes whatever it is asked in the graded
  tree, a base that fails it, and two commits. The runs below are computed, so they show that the
  hypotheses of the loop's properties hold of a real run.
\<close>

definition sample_head :: sha where
  "sample_head = replicate 40 (CHR ''a'')"

definition sample_roster :: "tracker_criterion list" where
  "sample_roster = [\<lparr>tc_id = ''AC-1'', tc_text = ''t''\<rparr>, \<lparr>tc_id = ''AC-2'', tc_text = ''t''\<rparr>]"

definition loop_wiring_sample :: loop_wiring where
  "loop_wiring_sample =
     \<lparr>lw_max_iterations = 3, lw_plateau_window = 2, lw_fan_in_max_attempts = 2, lw_has_reader = True,
      lw_has_source = True, lw_has_amendments = True, lw_has_workspace = True, lw_has_lane_state = True,
      lw_has_lapse_escalations = True, lw_has_mutation = True, lw_has_evaluator_rulings = False\<rparr>"

definition loop_context_sample :: loop_context where
  "loop_context_sample =
     \<lparr>lc_native = True, lc_surface_holder = Some ''lane'', lc_criteria = [], lc_ralph_branch = ''loop'',
      lc_work_base_ref = ''main'', lc_resumed_head_sha = None, lc_base_stale = False, lc_scoped = False\<rparr>"

definition sample_answer :: "execution_criterion list \<Rightarrow> acceptance_criteria_output" where
  "sample_answer asked =
     \<lparr>ao_criteria_results = map (\<lambda>c. sample_result (ec_id c)) asked, ao_sherlock_flags = []\<rparr>"

definition sample_base :: "execution_criterion list \<Rightarrow> base_env" where
  "sample_base asked =
     \<lparr>be_head = Inr (replicate 40 (CHR ''b'')), be_acquire = WorkspaceServed, be_before = Inr True,
      be_session = BaseAnswered
        (map (\<lambda>c. \<lparr>bc_criterion_id = ec_id c, bc_command = ''x'', bc_satisfied_at_base = False\<rparr>) asked),
      be_after = Inr True, be_release = WorkspaceServed\<rparr>"

definition sample_evaluation :: evaluation_env where
  "sample_evaluation =
     \<lparr>ve_clone = Inr (), ve_head = Inr sample_head, ve_changeset = Inr (),
      ve_diff = (\<lambda>_. Inr \<lparr>cd_file_paths = [], cd_commit_subjects = [], cd_commit_count = 0\<rparr>),
      ve_attempt = (\<lambda>_. \<lparr>at_current = (\<lambda>_. Inr sample_roster),
        at_session = (\<lambda>asked. Inr (sample_answer asked, ''session'', True)), at_head = Inr sample_head\<rparr>),
      ve_survivors = (\<lambda>_ _. Inr []), ve_head_after_mutation = Inr sample_head,
      ve_rulings = (\<lambda>_. Inr ()), ve_base = sample_base, ve_write = (\<lambda>_. Inr ()),
      ve_raise = (\<lambda>_ _. Inr ())\<rparr>"

definition sample_executed :: "criterion_cross_off list \<Rightarrow> loop_state" where
  "sample_executed standing =
     initial_state\<lparr>ls_iteration := 1, ls_commit_sha := Some sample_head, ls_standing := standing\<rparr>"

definition sample_lapsed :: criterion_cross_off where
  "sample_lapsed =
     \<lparr>co_criterion = ''AC-1'', co_state = Lapsed,
      co_evidence = \<lparr>ev_graded_sha = replicate 40 (CHR ''c''), ev_test = ''t''\<rparr>,
      co_rederivation_class = Observed, co_exercised_paths = [''src''], co_undemonstrated_reason = None\<rparr>"

definition sample_round :: "criterion_cross_off list \<Rightarrow> loop_state act" where
  "sample_round standing =
     evaluate_node loop_wiring_sample loop_context_sample sample_evaluation (sample_executed standing)"

fun graded_at :: "ralph_outcome \<Rightarrow> tracker_criterion list \<Rightarrow> sha \<Rightarrow> string \<Rightarrow> bool" where
  "graded_at (NativeEvaluatedOutcome event criteria head_sha) roster head branch \<longleftrightarrow>
     criteria = map Tracker roster \<and> head_sha = head \<and> ie_branch event = branch"
| "graded_at outcome roster head branch \<longleftrightarrow> False"

lemma sample_round_computed:
  "case sample_round [] of (Inl e, t) \<Rightarrow> False
   | (Inr st, t) \<Rightarrow> ls_verdict st = Accepted \<and> ls_amendment_blocked st = False \<and>
       map co_state (ls_standing st) = [Passed, Passed] \<and>
       graded_at (ls_outcome st) sample_roster sample_head ''loop''"
  by code_simp

lemma sample_round_passes:
  obtains st t where "sample_round [] = (Inr st, t)" "ls_verdict st = Accepted"
    "\<not> ls_amendment_blocked st" "map co_state (ls_standing st) = [Passed, Passed]"
    "graded_at (ls_outcome st) sample_roster sample_head ''loop''"
  using sample_round_computed by (auto split: prod.splits sum.splits)

lemma sample_lapse_computed:
  "case sample_round [sample_lapsed] of (Inl e, t) \<Rightarrow> False
   | (Inr st, t) \<Rightarrow> graded_at (ls_outcome st) sample_roster sample_head ''loop''"
  by code_simp

lemma sample_lapse_holds:
  obtains st t where "sample_round [sample_lapsed] = (Inr st, t)"
    "graded_at (ls_outcome st) sample_roster sample_head ''loop''"
  using sample_lapse_computed by (auto split: prod.splits sum.splits)

lemma graded_at_criteria: "graded_at outcome roster head branch \<Longrightarrow> outcome_criteria outcome = map Tracker roster"
  by (cases outcome) auto

text \<open>The whole run: one implementation session that commits, one evaluation, and the receipt.\<close>

definition sample_execution :: execute_env where
  "sample_execution =
     \<lparr>xe_writable = Inr (), xe_current = (\<lambda>_. Inr sample_roster), xe_head = Inr sample_head,
      xe_guard = Inr (), xe_events = [SessionOther, SessionResult (Some sample_head)], xe_end = None\<rparr>"

definition sample_loop_env :: loop_env where
  "sample_loop_env = \<lparr>le_execute = (\<lambda>_. sample_execution), le_evaluate = (\<lambda>_. sample_evaluation)\<rparr>"

definition sample_run_env :: run_env where
  "sample_run_env =
     \<lparr>re_loop = sample_loop_env, re_current = (\<lambda>_. Inr sample_roster), re_clone = Inr (),
      re_head = Inr sample_head\<rparr>"

lemma sample_execute:
  "execute_node loop_wiring_sample loop_context_sample sample_execution initial_state =
     (Inr (sample_executed []), [SessionOpened True ''main'', EmittedSession, EmittedSession])"
  by (simp add: execute_node_def loop_wiring_sample_def loop_context_sample_def sample_execution_def
      initial_state_def sample_executed_def reads_def acts_def require_execution_wiring_def
      require_wired_def lane_binding_def current_native_criteria_def cuts_branch_def executed_state_def
      sample_head_def Let_def)

lemma sample_loop:
  assumes "sample_round [] = (Inr st, t)" and "ls_verdict st = Accepted" and "\<not> ls_amendment_blocked st"
  shows "loop_from loop_wiring_sample loop_context_sample sample_loop_env initial_state =
    (Inr st, [SessionOpened True ''main'', EmittedSession, EmittedSession] @ t)"
proof -
  have start: "ls_iteration initial_state = 0" "ls_amendment_blocked (sample_executed []) = False"
    by (simp_all add: initial_state_def sample_executed_def)
  show ?thesis
    using assms
    by (simp add: loop_from.simps [of loop_wiring_sample] round_of_def sample_loop_env_def start
        sample_execute sample_round_def route_after_execute_def reads_def should_continue_def
        gate_cleared_def Let_def)
qed

lemma sample_run:
  assumes "sample_round [] = (Inr st, t)" and "ls_verdict st = Accepted" and "\<not> ls_amendment_blocked st"
    and "graded_at (ls_outcome st) sample_roster sample_head ''loop''"
  shows "\<exists>t. run loop_wiring_sample loop_context_sample sample_run_env = (Inr st, t)"
  using assms(4)
  by (cases "ls_outcome st")
    (simp_all add: run_def sample_run_env_def sample_loop [OF assms(1-3)] reads_def
      current_native_criteria_def standing_receipt_def resolve_def require_wired_def,
     simp add: loop_context_sample_def loop_wiring_sample_def)

end
