(* ===== verification/RalphLoopSpec.thy ===== *)
theory RalphLoopSpec
  imports RalphLoopInv RalphLoopSample
begin

section \<open>What the loop guarantees\<close>

lemma list_all2_right:
  "list_all2 P xs ys \<Longrightarrow> y \<in> set ys \<Longrightarrow> \<exists>x \<in> set xs. P x y"
  by (induction rule: list_all2_induct) auto

text \<open>An evaluation of a native round, taken apart once for every property below.\<close>

lemma native_evaluation:
  assumes "evaluate_node w ctx env st = (Inr st', t)" and "lc_native ctx"
  obtains v head withheld decided a answer session stood roster n where
    "evaluate_readings w ctx env st = Inr v" "vn_head v = Some head" "resolve w (ve_head env) = Inr head"
    "standing_reading ctx env (Some head) (ls_standing st) = Inr (vn_standing v)"
    "withheld_reasons w env (reading_of (vn_standing v)) (ar_dispatched a) (vn_grade v) (vn_reasons v) =
       Inr withheld"
    "cross_off_decision w ctx (vn_grade v) (ar_dispatched a) head (ar_session a) withheld
       (ls_iteration st) (ls_standing st) (reading_of (vn_standing v)) = Inr (ls_standing st', decided)"
    "a = vn_attempt v" "ar_dispatched a = map Tracker roster" "distinct (map tc_id roster)"
    "at_session (ve_attempt env n) (for_session (vn_standing v) (ar_dispatched a)) =
       Inr (answer, session, stood)"
    "ar_stood a = stood"
    "if reading_of (vn_standing v) = [] then ar_output a = answer
     else iteration_output roster (ls_standing st) (reading_of (vn_standing v)) answer =
       Inr (ar_output a)"
    "grade_iteration (ar_dispatched a) (ar_output a) (\<lambda>_. None) = Inr (ar_grade a)"
    "grade_iteration (ar_dispatched a) (ar_output a) (map_of (vn_reasons v)) = Inr (vn_grade v)"
    "\<exists>surviving. mutation_survivors w env (Some head) a = Inr surviving \<and>
       vn_reasons v = undemonstrated_reasons (fresh_results (reading_of (vn_standing v)) (ar_grade a))
         (ar_stood a) surviving"
    "filter (\<lambda>e. \<exists>pairs. e = CrossOffsWritten pairs) t = [CrossOffsWritten decided]"
    "ls_verdict st' = ig_verdict (vn_grade v)"
    "outcome_criteria (ls_outcome st') = ar_dispatched a"
proof -
  obtain v trajectory next_standing event outcome t1 t2 where e:
      "evaluate_readings w ctx env st = Inr v"
      "native_settlement w ctx env st v = (Inr next_standing, t2)"
      "evaluation_receipt event v = Inr outcome"
      "t1 = [] \<or> t1 = [RulingsRecorded (ls_iteration st)]"
      "t = t1 @ t2 @ [EmittedIteration event]"
      "st' = st\<lparr>ls_verdict := ig_verdict (vn_grade v), ls_pending_failures := ig_failures (vn_grade v),
         ls_records := ls_records st @ [iteration_record_of st (vn_grade v)],
         ls_standing := next_standing, ls_outcome := outcome\<rparr>"
    by (rule evaluate_cases [OF assms(1)]) (rule that, assumption+)
  obtain head where h: "vn_head v = Some head" "resolve w (ve_head env) = Inr head"
      "standing_reading ctx env (Some head) (ls_standing st) = Inr (vn_standing v)"
      "settled_attempt w ctx st (Some head) (vn_standing v) (ve_attempt env) =
         Inr (vn_attempt v, vn_fan_in v)"
      "withheld_grade w env (Some head) (reading_of (vn_standing v)) (vn_attempt v) =
         Inr (vn_grade v, vn_reasons v)"
    using readings_facts [OF e(1)] assms(2) by auto
  let ?a = "vn_attempt v"
  obtain withheld decided where d:
      "withheld_reasons w env (reading_of (vn_standing v)) (ar_dispatched ?a) (vn_grade v)
         (vn_reasons v) = Inr withheld"
      "cross_off_decision w ctx (vn_grade v) (ar_dispatched ?a) head (ar_session ?a) withheld
         (ls_iteration st) (ls_standing st) (reading_of (vn_standing v)) = Inr (next_standing, decided)"
      "filter (\<lambda>e. \<exists>pairs. e = CrossOffsWritten pairs) t2 = [CrossOffsWritten decided]"
    using settled_cases [OF e(2)] h(1) by (cases rule: settled_cases [OF e(2)]) auto
  obtain n where n: "attempt_reading w ctx st (Some head) (vn_standing v) (ve_attempt env n) = Inr ?a"
    using settled_attempt_produced [OF h(4)] by blast
  obtain criteria tracked answer session stood where a:
      "dispatched_roster w ctx (at_current (ve_attempt env n)) (ls_outcome st) = Inr (criteria, tracked)"
      "ar_dispatched ?a = criteria"
      "at_session (ve_attempt env n) (for_session (vn_standing v) criteria) =
         Inr (answer, session, stood)"
      "ar_stood ?a = (Some head = None \<or> stood)"
      "case tracked of
         None \<Rightarrow> ar_output ?a = answer
       | Some tracked \<Rightarrow>
           if reading_of (vn_standing v) = [] then ar_output ?a = answer
           else iteration_output tracked (ls_standing st) (reading_of (vn_standing v)) answer =
             Inr (ar_output ?a)"
      "grade_iteration criteria (ar_output ?a) (\<lambda>_. None) = Inr (ar_grade ?a)"
    by (rule attempt_facts [OF n]) (rule that, assumption+)
  obtain roster where roster: "tracked = Some roster" "criteria = map Tracker roster"
    using a(1) assms(2) by (auto simp: dispatched_roster_def result_simps)
  have "distinct (map ec_id (ar_dispatched ?a))"
    using receipt_cases [OF e(3)] by (simp add: same_roster_def)
  then have dist: "distinct (map tc_id roster)"
    unfolding a(2) roster(2) by (simp add: comp_def)
  have t: "filter (\<lambda>e. \<exists>pairs. e = CrossOffsWritten pairs) t = [CrossOffsWritten decided]"
    using e(4,5) d(3) by auto
  note g = final_grade [OF h(5) a(6) [folded a(2)]]
  show ?thesis
    by (rule that [OF e(1) h(1,2,3) d(1) _ refl, of decided roster n answer session stood])
      (use d(2) a roster dist g t e(6) receipt_cases [OF e(3)] in auto)
qed

lemma session_rows:
  assumes "if reading = [] then out = answer
      else iteration_output roster standing reading answer = Inr out"
    and "distinct (map tc_id roster)"
  shows "filter (\<lambda>r. rs_criterion_id r = i) (ao_criteria_results out) =
    (case find (\<lambda>c. tc_id c = i) roster of
       None \<Rightarrow> filter (\<lambda>r. rs_criterion_id r = i) (ao_criteria_results answer)
     | Some c \<Rightarrow>
         (case map_of reading i of
            None \<Rightarrow> filter (\<lambda>r. rs_criterion_id r = i) (ao_criteria_results answer)
          | Some state \<Rightarrow> [standing_row c state (the (map_of (standing_by_criterion standing) i))]))"
proof (cases "reading = []")
  case True
  then show ?thesis using assms(1) by (simp split: option.splits)
next
  case False
  then obtain rows where rows: "roster_rows (standing_by_criterion standing) reading roster
        (group_results (ao_criteria_results answer)) = Inr rows"
      "out = \<lparr>ao_criteria_results = rows, ao_sherlock_flags = ao_sherlock_flags answer\<rparr>"
    using assms(1) by (auto simp: iteration_output_def result_simps split: if_splits)
  show ?thesis
    using roster_rows_spec [OF rows(1) conjunct1 [OF group_results_rows] assms(2), of i]
    unfolding rows(2) conjunct2 [OF group_results_rows] by simp
qed

lemma passed_row_answered:
  assumes "if reading_of h = [] then out = answer
      else iteration_output roster standing (reading_of h) answer = Inr out"
    and "distinct (map tc_id roster)"
    and "grade_iteration (map Tracker roster) out (map_of reasons) = Inr grade"
    and "r \<in> set (ig_results grade)" and "rs_passed r"
    and "rs_criterion_id r \<notin> set (dict_keys (reading_of h))"
  shows "rs_criterion_id r \<in> set (map ec_id (for_session h (map Tracker roster))) \<and>
    map_of reasons (rs_criterion_id r) = None \<and>
    (\<exists>x. filter (\<lambda>y. rs_criterion_id y = rs_criterion_id r) (ao_criteria_results answer) = [x] \<and>
       rs_passed x)"
proof -
  obtain row where row: "ig_results grade = map row (map Tracker roster)"
      "\<forall>c. rs_criterion_id (row c) = ec_id c \<and> rs_criterion (row c) = ec_text c"
      "\<forall>c \<in> set (map Tracker roster). rs_passed (row c) \<longleftrightarrow>
         (\<exists>r. filter (\<lambda>r. rs_criterion_id r = ec_id c) (ao_criteria_results out) = [r] \<and>
            rs_passed r) \<and> map_of reasons (ec_id c) = None"
    by (rule graded_rows [OF assms(3)]) (rule that, assumption+)
  obtain k where k: "k \<in> set (map Tracker roster)" "r = row k"
    using assms(4) row(1) by auto
  have id: "rs_criterion_id r = ec_id k" using row(2) k(2) by simp
  have "map_of (reading_of h) (ec_id k) = None"
    using assms(6) dict_get_None id by metis
  then have "filter (\<lambda>y. rs_criterion_id y = ec_id k) (ao_criteria_results out) =
      filter (\<lambda>y. rs_criterion_id y = ec_id k) (ao_criteria_results answer)"
    using session_rows [OF assms(1,2), of "ec_id k"] by (auto split: option.splits)
  moreover have "k \<in> set (for_session h (map Tracker roster))"
    using k(1) assms(6) unfolding reading_of_keys id by (simp add: for_session_def)
  ultimately show ?thesis
    using row(3) k assms(5) id by (metis image_eqI set_map)
qed

lemma unwithheld_attempt:
  assumes "grade_iteration (ar_dispatched a) (ar_output a) (\<lambda>_. None) = Inr (ar_grade a)"
    and "mutation_survivors w env (Some head) a = Inr surviving"
    and "map_of (undemonstrated_reasons (fresh_results reading (ar_grade a)) (ar_stood a) surviving) i =
      None"
    and "i \<in> set (map ec_id (ar_dispatched a))" and "i \<notin> set (dict_keys reading)"
  shows "ar_stood a \<and>
    (lw_has_mutation w \<longrightarrow>
       (\<exists>surviving. ve_survivors env (ar_dispatched a) (ar_grade a) = Inr surviving \<and>
          i \<notin> set surviving))"
proof -
  obtain row where row: "ig_results (ar_grade a) = map row (ar_dispatched a)"
      "\<forall>c. rs_criterion_id (row c) = ec_id c \<and> rs_criterion (row c) = ec_text c"
    by (rule graded_rows [OF assms(1)]) (rule that, assumption+)
  obtain k where k: "k \<in> set (ar_dispatched a)" "ec_id k = i" using assms(4) by auto
  then have "row k \<in> set (fresh_results reading (ar_grade a))"
    using row assms(5) by (auto simp: fresh_results_def)
  then have "i \<in> set (map rs_criterion_id (fresh_results reading (ar_grade a)))"
    using row(2) k(2) by (metis image_eqI set_map)
  then have "ar_stood a \<and> i \<notin> set surviving" using assms(3) by (auto simp: undemonstrated_get)
  then show ?thesis using assms(2) by (auto simp: mutation_survivors_def result_simps)
qed

text \<open>Claim C1. A criterion is crossed off as passed only on a demonstration: after a native
  evaluation, a cross-off that says passed either was already standing, is of an exempt class and
  still counts at the head graded; or it is stamped with that head and, at that head, the session
  that was asked about the criterion answered it exactly once as passed in a tree that was the head's
  own, its check did not survive the mutation reading where one is configured, and the base answered
  for it exactly once, failing.\<close>

theorem passed_cross_off_is_demonstrated:
  assumes "evaluate_node w ctx env st = (Inr st', t)" and "lc_native ctx"
    and "distinct (map co_criterion (ls_standing st))"
    and "c \<in> set (ls_standing st')" and "co_state c = Passed"
  shows "\<exists>head v. evaluate_readings w ctx env st = Inr v \<and> resolve w (ve_head env) = Inr head \<and>
    ((c \<in> set (ls_standing st) \<and>
      (\<exists>changesets. moved_since (ve_diff env) (ls_standing st) = Inr changesets \<and>
         stands head (map_of changesets) (lc_base_stale ctx) c)) \<or>
     (ev_graded_sha (co_evidence c) = head \<and>
      (\<exists>n asked answer session r.
         at_session (ve_attempt env n) asked = Inr (answer, session, True) \<and>
         co_criterion c \<in> set (map ec_id asked) \<and>
         filter (\<lambda>r. rs_criterion_id r = co_criterion c) (ao_criteria_results answer) = [r] \<and>
         rs_passed r) \<and>
      (lw_has_mutation w \<longrightarrow>
        (\<exists>surviving. ve_survivors env (ar_dispatched (vn_attempt v)) (ar_grade (vn_attempt v)) =
           Inr surviving \<and> co_criterion c \<notin> set surviving)) \<and>
      (\<exists>criteria rows r. checks_at_base w (ve_base env criteria) = Inr rows \<and>
         filter (\<lambda>r. bc_criterion_id r = co_criterion c) rows = [r] \<and> \<not> bc_satisfied_at_base r)))"
proof -
  obtain v head withheld decided a answer session stood roster n where e:
      "evaluate_readings w ctx env st = Inr v" "resolve w (ve_head env) = Inr head"
      "standing_reading ctx env (Some head) (ls_standing st) = Inr (vn_standing v)"
      "withheld_reasons w env (reading_of (vn_standing v)) (ar_dispatched a) (vn_grade v)
         (vn_reasons v) = Inr withheld"
      "cross_off_decision w ctx (vn_grade v) (ar_dispatched a) head (ar_session a) withheld
         (ls_iteration st) (ls_standing st) (reading_of (vn_standing v)) = Inr (ls_standing st', decided)"
      "a = vn_attempt v" "ar_dispatched a = map Tracker roster" "distinct (map tc_id roster)"
      "at_session (ve_attempt env n) (for_session (vn_standing v) (ar_dispatched a)) =
         Inr (answer, session, stood)"
      "ar_stood a = stood"
      "if reading_of (vn_standing v) = [] then ar_output a = answer
       else iteration_output roster (ls_standing st) (reading_of (vn_standing v)) answer =
         Inr (ar_output a)"
      "grade_iteration (ar_dispatched a) (ar_output a) (\<lambda>_. None) = Inr (ar_grade a)"
      "grade_iteration (ar_dispatched a) (ar_output a) (map_of (vn_reasons v)) = Inr (vn_grade v)"
      "\<exists>surviving. mutation_survivors w env (Some head) a = Inr surviving \<and>
         vn_reasons v = undemonstrated_reasons (fresh_results (reading_of (vn_standing v)) (ar_grade a))
           (ar_stood a) surviving"
    by (rule native_evaluation [OF assms(1,2)]) (rule that, assumption+)
  let ?h = "vn_standing v" and ?i = "co_criterion c"
  obtain r where r: "r \<in> set (ig_results (vn_grade v))"
      "built_cross_off head (evaluation_observation (ar_session a) (ls_iteration st)) withheld
         (standing_by_criterion (ls_standing st)) (reading_of ?h) r = Inr c"
    using cross_off_facts [OF e(5)] list_all2_right assms(4) by meson
  note built = built_cases [OF r(2)]
  show ?thesis
  proof (cases "map_of (reading_of ?h) (rs_criterion_id r)")
    case (Some state)
    have "state = CountedReading" using built Some assms(5) by (cases state) auto
    then have mem: "c \<in> set (ls_standing st)" "?i \<in> set (map co_criterion (hs_carried ?h))"
      using built Some reading_of_get [of ?h "rs_criterion_id r"] by (auto split: if_splits)
    then have "hs_carried ?h \<noteq> []" by auto
    then obtain changesets where ch: "moved_since (ve_diff env) (ls_standing st) = Inr changesets"
        "hs_carried ?h = filter (stands head (map_of changesets) (lc_base_stale ctx)) (ls_standing st)"
      using standing_reading_cases [OF e(3)] by (auto simp: empty_standing_def)
    obtain c' where "c' \<in> set (ls_standing st)" "co_criterion c' = ?i"
        "stands head (map_of changesets) (lc_base_stale ctx) c'"
      using mem(2) unfolding ch(2) by auto
    then have "stands head (map_of changesets) (lc_base_stale ctx) c"
      using assms(3) mem(1) by (metis distinct_map inj_onD)
    then show ?thesis using mem(1) ch(1) e(1,2) by blast
  next
    case None
    have i: "?i = rs_criterion_id r" "ev_graded_sha (co_evidence c) = head"
        "rs_passed r" "map_of withheld ?i = None"
      using built None assms(5) by (auto simp: cross_off_state_of_def split: if_splits)
    have fresh: "?i \<notin> set (dict_keys (reading_of ?h))"
      using None i(1) dict_get_None by metis
    have "?i \<in> set (fresh_passing (reading_of ?h) (vn_grade v))"
      using r(1) i(1,3) fresh by (force simp: fresh_passing_def)
    then have base: "map_of (vn_reasons v) ?i = None"
        "\<exists>criteria rows r. checks_at_base w (ve_base env criteria) = Inr rows \<and>
           filter (\<lambda>r. bc_criterion_id r = ?i) rows = [r] \<and> \<not> bc_satisfied_at_base r"
      using withheld_None [OF e(4) i(4)] by blast+
    note ans = passed_row_answered [OF e(11,8) e(13) [unfolded e(7)] r(1) i(3) fresh [unfolded i(1)],
        folded i(1)]
    then have disp: "?i \<in> set (map ec_id (ar_dispatched a))"
      unfolding e(7) by (auto simp: for_session_def)
    obtain surviving where s: "mutation_survivors w env (Some head) a = Inr surviving"
        "map_of (undemonstrated_reasons (fresh_results (reading_of ?h) (ar_grade a)) (ar_stood a)
          surviving) ?i = None"
      using e(14) base(1) by auto
    note un = unwithheld_attempt [OF e(12) s disp fresh]
    then have stood: "stood = True" using e(10) by simp
    have "\<exists>n asked answer session r.
        at_session (ve_attempt env n) asked = Inr (answer, session, True) \<and>
        ?i \<in> set (map ec_id asked) \<and>
        filter (\<lambda>r. rs_criterion_id r = ?i) (ao_criteria_results answer) = [r] \<and> rs_passed r"
      using e(9) [unfolded stood e(7)] ans by blast
    moreover have "lw_has_mutation w \<longrightarrow>
        (\<exists>surviving. ve_survivors env (ar_dispatched (vn_attempt v)) (ar_grade (vn_attempt v)) =
           Inr surviving \<and> ?i \<notin> set surviving)"
      using un unfolding e(6) by blast
    ultimately show ?thesis
      using e(1,2) i(2) base(2) by blast
  qed
qed

lemma list_all2_left:
  "list_all2 P xs ys \<Longrightarrow> x \<in> set xs \<Longrightarrow> \<exists>y \<in> set ys. P x y"
  by (induction rule: list_all2_induct) auto

text \<open>Claim C2. A lapse keeps the gate shut: while the board still owes a criterion whose earlier pass
  lapsed, every native evaluation is rejected, whatever the session answers, and leaves the criterion
  lapsed again, so no later round can report the run accepted on it.\<close>

theorem lapse_keeps_the_gate_shut:
  assumes "evaluate_node w ctx env st = (Inr st', t)" and "lc_native ctx"
    and "c \<in> set (ls_standing st)" and "co_state c = Lapsed"
    and "co_criterion c \<in> set (map ec_id (outcome_criteria (ls_outcome st')))"
  shows "ls_verdict st' = Rejected \<and>
    (\<exists>c'. c' \<in> set (ls_standing st') \<and> co_criterion c' = co_criterion c \<and> co_state c' = Lapsed)"
proof -
  obtain v head withheld decided and a :: attempt and answer session stood roster n
    where v: "evaluate_readings w ctx env st = Inr v"
    and e:
      "standing_reading ctx env (Some head) (ls_standing st) = Inr (vn_standing v)"
      "cross_off_decision w ctx (vn_grade v) (ar_dispatched a) head (ar_session a) withheld
         (ls_iteration st) (ls_standing st) (reading_of (vn_standing v)) = Inr (ls_standing st', decided)"
      "ar_dispatched a = map Tracker roster" "distinct (map tc_id roster)"
      "if reading_of (vn_standing v) = [] then ar_output a = answer
       else iteration_output roster (ls_standing st) (reading_of (vn_standing v)) answer =
         Inr (ar_output a)"
      "grade_iteration (ar_dispatched a) (ar_output a) (map_of (vn_reasons v)) = Inr (vn_grade v)"
      "ls_verdict st' = ig_verdict (vn_grade v)"
      "outcome_criteria (ls_outcome st') = ar_dispatched a"
    by (rule native_evaluation [OF assms(1,2)]) (rule that, assumption+)
  let ?h = "vn_standing v" and ?i = "co_criterion c"
  obtain k where k: "k \<in> set roster" "tc_id k = ?i" using assms(5) e(3,8) by auto
  have "c \<in> set (hs_lapsed ?h)" using standing_reading_subset [OF e(1)] assms(3,4) by simp
  then have lapsed: "map_of (reading_of ?h) ?i = Some LapsedReading" by (simp add: reading_of_get)
  have found: "find (\<lambda>c. tc_id c = ?i) roster \<noteq> None" using k unfolding find_key_None by (metis image_eqI set_map)
  obtain row where row: "ig_results (vn_grade v) = map row (ar_dispatched a)"
      "\<forall>c. rs_criterion_id (row c) = ec_id c \<and> rs_criterion (row c) = ec_text c"
      "\<forall>c \<in> set (ar_dispatched a). rs_passed (row c) \<longleftrightarrow>
         (\<exists>r. filter (\<lambda>r. rs_criterion_id r = ec_id c) (ao_criteria_results (ar_output a)) = [r] \<and>
            rs_passed r) \<and> map_of (vn_reasons v) (ec_id c) = None"
      "gate_cleared (ig_verdict (vn_grade v)) \<longleftrightarrow>
         (\<forall>c \<in> set (ar_dispatched a). is_graded c \<longrightarrow> rs_passed (row c))"
    by (rule graded_rows [OF e(6)]) (rule that, assumption+)
  have "Tracker k \<in> set (ar_dispatched a)" "\<not> rs_passed (row (Tracker k))"
    using k row(3) found session_rows [OF e(5,4), of ?i] lapsed e(3)
    by (auto simp: standing_row_def)
  then have "\<not> gate_cleared (ls_verdict st')" unfolding e(7) row(4) by force
  then have rejected: "ls_verdict st' = Rejected" by (simp add: gate_cleared_def)
  have "row (Tracker k) \<in> set (ig_results (vn_grade v))"
    using \<open>Tracker k \<in> set (ar_dispatched a)\<close> row(1) by simp
  then obtain c' where c': "c' \<in> set (ls_standing st')"
      "built_cross_off head (evaluation_observation (ar_session a) (ls_iteration st)) withheld
         (standing_by_criterion (ls_standing st)) (reading_of ?h) (row (Tracker k)) = Inr c'"
    using list_all2_left [OF conjunct1 [OF cross_off_facts [OF e(2)]]] by blast
  have "rs_criterion_id (row (Tracker k)) = ?i" using row(2) k(2) by simp
  then have "co_criterion c' = ?i \<and> co_state c' = Lapsed"
    using built_cases [OF c'(2)] lapsed by simp
  then show ?thesis using rejected c'(1) by blast
qed

text \<open>Claim C9. A native evaluation writes what it decided and nothing else: the standing it leaves is
  one cross-off per criterion of the roster it dispatched, in roster order and without repetition;
  the board receives, in one act, exactly the pairs that were not carried, the carried ones being
  the earlier cross-offs that still stand at the head graded; a carried one on the roster is left as
  it was; and no criterion ever declares a second class.\<close>

theorem native_round_writes_its_decisions:
  assumes "evaluate_node w ctx env st = (Inr st', t)" and "lc_native ctx"
    and "distinct (map co_criterion (ls_standing st))"
  shows "\<exists>roster carried.
    outcome_criteria (ls_outcome st') = map Tracker roster \<and>
    map co_criterion (ls_standing st') = map tc_id roster \<and>
    distinct (map co_criterion (ls_standing st')) \<and>
    filter (\<lambda>e. \<exists>pairs. e = CrossOffsWritten pairs) t =
      [CrossOffsWritten (filter (\<lambda>(k, c). c \<notin> set carried) (zip roster (ls_standing st')))] \<and>
    (if ls_standing st = [] then carried = []
     else \<exists>head changesets. resolve w (ve_head env) = Inr head \<and>
       moved_since (ve_diff env) (ls_standing st) = Inr changesets \<and>
       carried = filter (stands head (map_of changesets) (lc_base_stale ctx)) (ls_standing st)) \<and>
    (\<forall>c. c \<in> set carried \<and> co_criterion c \<in> set (map tc_id roster) \<longrightarrow> c \<in> set (ls_standing st')) \<and>
    is_ok (held_rederivation_classes (ls_standing st @ ls_standing st'))"
proof -
  obtain v head withheld decided and a :: attempt and answer session stood roster n
    where v: "evaluate_readings w ctx env st = Inr v"
    and e:
      "resolve w (ve_head env) = Inr head"
      "standing_reading ctx env (Some head) (ls_standing st) = Inr (vn_standing v)"
      "cross_off_decision w ctx (vn_grade v) (ar_dispatched a) head (ar_session a) withheld
         (ls_iteration st) (ls_standing st) (reading_of (vn_standing v)) = Inr (ls_standing st', decided)"
      "ar_dispatched a = map Tracker roster" "distinct (map tc_id roster)"
      "grade_iteration (ar_dispatched a) (ar_output a) (map_of (vn_reasons v)) = Inr (vn_grade v)"
      "filter (\<lambda>e. \<exists>pairs. e = CrossOffsWritten pairs) t = [CrossOffsWritten decided]"
      "outcome_criteria (ls_outcome st') = ar_dispatched a"
    by (rule native_evaluation [OF assms(1,2)]) (rule that, assumption+)
  let ?reading = "reading_of (vn_standing v)"
  obtain row where row: "ig_results (vn_grade v) = map row (ar_dispatched a)"
      "\<forall>c. rs_criterion_id (row c) = ec_id c \<and> rs_criterion (row c) = ec_text c"
    by (rule graded_rows [OF e(6)]) (rule that, assumption+)
  have all: "list_all2 (\<lambda>r c. built_cross_off head
        (evaluation_observation (ar_session a) (ls_iteration st)) withheld
        (standing_by_criterion (ls_standing st)) ?reading r = Inr c) (ig_results (vn_grade v))
        (ls_standing st')"
    and ok: "is_ok (held_rederivation_classes (ls_standing st @ ls_standing st'))"
    using cross_off_facts [OF e(3)] by blast+
  have "held_roster (map Tracker roster) = (if roster = [] then None else Some roster)"
    by (induction roster) (auto simp: held_roster_def Let_def split: if_splits)
  then have dec: "decided = filter (\<lambda>(_, c). map_of ?reading (co_criterion c) \<noteq> Some CountedReading)
      (zip roster (ls_standing st'))"
    using cross_off_facts [OF e(3)] e(4) by (auto split: if_splits)
  have "list_all2 (\<lambda>r c. rs_criterion_id r = co_criterion c) (ig_results (vn_grade v)) (ls_standing st')"
    by (rule list_all2_mono [OF all]) (use built_cases in force)
  then have ids: "map co_criterion (ls_standing st') = map tc_id roster"
    unfolding row(1) e(4)
    by (simp add: list_all2_map1 row(2)) (auto simp: list_all2_conv_all_nth intro: nth_equalityI)
  have prior: "c \<in> set (ls_standing st)"
    if "c \<in> set (ls_standing st')" "map_of ?reading (co_criterion c) = Some CountedReading" for c
    using list_all2_right [OF all that(1)] built_cases that(2) by fastforce
  have sub: "set (hs_carried (vn_standing v)) \<subseteq> set (ls_standing st)"
    using standing_reading_subset [OF e(2)] by blast
  note counted = counted_iff_carried [OF e(2) assms(3)]
  have written: "decided = filter (\<lambda>(k, c). c \<notin> set (hs_carried (vn_standing v)))
      (zip roster (ls_standing st'))"
    unfolding dec using prior counted sub by (intro filter_cong) (auto dest!: set_zip_rightD)
  have kept: "c \<in> set (ls_standing st')"
    if c: "c \<in> set (hs_carried (vn_standing v))" "co_criterion c \<in> set (map tc_id roster)" for c
  proof -
    obtain d where d: "d \<in> set (ls_standing st')" "co_criterion d = co_criterion c"
      using c(2) unfolding ids [symmetric] by auto
    then have "map_of ?reading (co_criterion d) = Some CountedReading" using counted c(1) sub by auto
    then have "d \<in> set (ls_standing st)" using prior d(1) by blast
    then have "d = c" using d(2) c(1) sub assms(3) by (metis distinct_map inj_onD subsetD)
    then show ?thesis using d(1) by simp
  qed
  have "if ls_standing st = [] then hs_carried (vn_standing v) = []
     else \<exists>head changesets. resolve w (ve_head env) = Inr head \<and>
       moved_since (ve_diff env) (ls_standing st) = Inr changesets \<and>
       hs_carried (vn_standing v) =
         filter (stands head (map_of changesets) (lc_base_stale ctx)) (ls_standing st)"
    using standing_reading_cases [OF e(2)] e(1) sub by auto
  moreover have "outcome_criteria (ls_outcome st') = map Tracker roster" using e(4,8) by simp
  moreover have "distinct (map co_criterion (ls_standing st'))" using ids e(5) by simp
  ultimately show ?thesis using ids e(7) [unfolded written] ok kept by blast
qed

subsection \<open>The loop as a whole\<close>

definition opened :: "loop_context \<Rightarrow> nat \<Rightarrow> loop_effect" where
  "opened ctx n =
     SessionOpened (cuts_branch ctx n)
       (if cuts_branch ctx n then lc_work_base_ref ctx else lc_ralph_branch ctx)"

lemma then_do_snd:
  "snd (then_do m f) = snd m @ (case fst m of Inl e \<Rightarrow> [] | Inr x \<Rightarrow> snd (f x))"
  by (cases m; cases "fst m") auto

lemma round_opens:
  assumes "round_of w ctx env st = (r, t)"
  shows "filter opens_session t = (if t = [] then [] else [opened ctx (Suc (ls_iteration st))]) \<and>
    (is_ok r \<longrightarrow> t \<noteq> [])"
proof -
  let ?rest = "\<lambda>s. then_do (reads (route_after_execute w s)) (\<lambda>next.
      if next \<noteq> ToEvaluate then reads (Inr (s, next))
      else
        then_do (evaluate_node w ctx (le_evaluate env (Suc (ls_iteration st))) s) (\<lambda>evaluated.
        then_do (reads (should_continue w evaluated)) (\<lambda>next. reads (Inr (evaluated, next)))))"
  obtain r1 t1 where x: "execute_node w ctx (le_execute env (Suc (ls_iteration st))) st = (r1, t1)"
    by (cases "execute_node w ctx (le_execute env (Suc (ls_iteration st))) st")
  note ex = execute_effects [OF x, folded opened_def]
  have "list_all (\<lambda>e. \<not> opens_session e) (snd (evaluate_node w ctx e s))" for e s
    using evaluate_opens_none [of w ctx e s]
    by (cases "evaluate_node w ctx e s") (simp add: list_all_iff filter_empty_conv)
  then have "list_all (\<lambda>e. \<not> opens_session e) (snd (?rest s))" for s
    by (auto intro!: then_do_all)
  then have rest: "filter opens_session (snd (?rest s)) = []" for s
    by (simp add: filter_empty_conv list_all_iff)
  have rd: "round_of w ctx env st = then_do (r1, t1) ?rest"
    unfolding round_of_def Let_def x ..
  have "filter opens_session t = filter opens_session t1"
    using assms then_do_snd [of "(r1, t1)" ?rest] rest unfolding rd by (auto split: sum.splits)
  moreover have "t = [] \<longleftrightarrow> t1 = [] \<and> \<not> is_ok r1 \<or> t1 = [] \<and> t = []" using assms
      then_do_snd [of "(r1, t1)" ?rest] unfolding rd by (auto split: sum.splits)
  moreover have "is_ok r \<longrightarrow> is_ok r1" using assms unfolding rd by (cases r1) auto
  ultimately show ?thesis using ex by auto
qed

lemma loop_opens:
  assumes "loop_from w ctx env st = (r, t)"
  shows "length (filter opens_session t) + ls_iteration st \<le>
      max (Suc (ls_iteration st)) (nat (lw_max_iterations w)) \<and>
    filter opens_session t =
      map (opened ctx) [Suc (ls_iteration st) ..< Suc (ls_iteration st) + length (filter opens_session t)] \<and>
    (\<forall>st'. r = Inr st' \<longrightarrow> ls_iteration st' = ls_iteration st + length (filter opens_session t) \<and>
       1 \<le> length (filter opens_session t))"
  using assms
proof (induction w ctx env st arbitrary: r t rule: loop_from.induct)
  case (1 w ctx env st)
  obtain r1 t1 where rd: "round_of w ctx env st = (r1, t1)" by (cases "round_of w ctx env st")
  note opens = round_opens [OF rd]
  show ?case
  proof (cases r1)
    case (Inl e)
    then show ?thesis using 1(2) rd opens by (auto simp: loop_from.simps [of w ctx env st])
  next
    case (Inr p)
    obtain st1 "next" where p: "p = (st1, next)" by (cases p)
    note progress = round_progress [OF rd [unfolded Inr p]]
    show ?thesis
    proof (cases "next = ToExecute")
      case False
      then show ?thesis
        using 1(2) rd opens Inr p progress by (auto simp: loop_from.simps [of w ctx env st])
    next
      case True
      obtain r2 t2 where rec: "loop_from w ctx env st1 = (r2, t2)" by (cases "loop_from w ctx env st1")
      have rt: "r = r2" "t = t1 @ t2"
        using 1(2) rd rec Inr p True by (simp_all add: loop_from.simps [of w ctx env st])
      have IH: "length (filter opens_session t2) + ls_iteration st1 \<le>
            max (Suc (ls_iteration st1)) (nat (lw_max_iterations w)) \<and>
          filter opens_session t2 = map (opened ctx)
            [Suc (ls_iteration st1) ..< Suc (ls_iteration st1) + length (filter opens_session t2)] \<and>
          (\<forall>st'. r2 = Inr st' \<longrightarrow> ls_iteration st' = ls_iteration st1 + length (filter opens_session t2) \<and>
             1 \<le> length (filter opens_session t2))"
        by (rule 1(1) [OF rd [symmetric] Inr p [symmetric] _ rec]) (use True in simp)
      define i n where "i = ls_iteration st" and "n = length (filter opens_session t2)"
      have i1: "ls_iteration st1 = Suc i" "int (Suc i) < lw_max_iterations w"
        using progress True by (simp_all add: i_def)
      have o2: "filter opens_session t2 = map (opened ctx) [Suc (Suc i) ..< Suc (Suc i) + n]"
        using IH unfolding i1(1) n_def by blast
      have o1: "filter opens_session t1 = [opened ctx (Suc i)]"
        using opens Inr by (simp add: i_def)
      have upt: "[Suc i ..< Suc i + Suc n] = Suc i # [Suc (Suc i) ..< Suc (Suc i) + n]"
        by (subst upt_conv_Cons) simp_all
      have f: "filter opens_session t = map (opened ctx) [Suc i ..< Suc i + Suc n]"
        unfolding rt filter_append o1 o2 upt by simp
      have len: "length (filter opens_session t) = Suc n" unfolding f by simp
      have b: "n + Suc i \<le> max (Suc (Suc i)) (nat (lw_max_iterations w))"
        using IH unfolding i1(1) n_def by blast
      have r2: "\<forall>st'. r2 = Inr st' \<longrightarrow> ls_iteration st' = Suc i + n"
        using IH unfolding i1(1) n_def by blast
      show ?thesis
        unfolding len i_def [symmetric] rt(1)
        using b i1(2) r2 f by auto
    qed
  qed
qed


fun iteration_events :: "loop_effect list \<Rightarrow> iteration_event list" where
  "iteration_events [] = []"
| "iteration_events (EmittedIteration event # t) = event # iteration_events t"
| "iteration_events (_ # t) = iteration_events t"

lemma iteration_events_append [simp]:
  "iteration_events (t @ u) = iteration_events t @ iteration_events u"
  by (induction t rule: iteration_events.induct) auto

lemma iteration_events_none: "filter emits_iteration t = [] \<Longrightarrow> iteration_events t = []"
  by (induction t rule: iteration_events.induct) auto

lemma evaluate_emits:
  assumes "evaluate_node w ctx env st = (Inr st', t)"
  obtains event r where
    "iteration_events t = [event]" "last t = EmittedIteration event"
    "ie_verdict event = ls_verdict st'" "ie_iteration event = ls_iteration st"
    "outcome_event (ls_outcome st') = Some (EmittedIteration event)"
    "ls_records st' = ls_records st @ [r]" "ir_iteration r = ls_iteration st"
    "ls_amendment_blocked st' = ls_amendment_blocked st"
proof -
  obtain v trajectory next_standing event outcome t1 t2 where v: "evaluate_readings w ctx env st = Inr v"
    and e: "native_settlement w ctx env st v = (Inr next_standing, t2)"
      "event = \<lparr>ie_iteration = ls_iteration st, ie_branch = lc_ralph_branch ctx,
         ie_commit_sha = ls_commit_sha st, ie_verdict = ig_verdict (vn_grade v),
         ie_evaluation = reconciled (vn_grade v), ie_trajectory = trajectory,
         ie_fan_in = vn_fan_in v\<rparr>"
      "evaluation_receipt event v = Inr outcome"
      "t1 = [] \<or> t1 = [RulingsRecorded (ls_iteration st)]"
      "t = t1 @ t2 @ [EmittedIteration event]"
      "st' = st\<lparr>ls_verdict := ig_verdict (vn_grade v), ls_pending_failures := ig_failures (vn_grade v),
         ls_records := ls_records st @ [iteration_record_of st (vn_grade v)],
         ls_standing := next_standing, ls_outcome := outcome\<rparr>"
    by (rule evaluate_cases [OF assms]) (rule that, assumption+)
  have "iteration_events t2 = []" by (cases rule: settled_cases [OF e(1)]) auto
  then have "iteration_events t = [event]" using e(4,5) by auto
  then show ?thesis
    by (rule that [of event "iteration_record_of st (vn_grade v)"])
      (use e receipt_cases [OF e(3)] in \<open>auto simp: iteration_record_of_def\<close>)
qed

text \<open>Why a round that did not go on did not.\<close>

definition loop_stopped :: "loop_wiring \<Rightarrow> loop_state \<Rightarrow> bool" where
  "loop_stopped w st \<longleftrightarrow>
     (gate_cleared (ls_verdict st) \<and> \<not> ls_amendment_blocked st) \<or>
     lw_max_iterations w \<le> int (ls_iteration st) \<or>
     (\<exists>trajectory. fold_trajectory (ls_records st) (lw_plateau_window w) = Inr trajectory \<and>
        lt_plateaued trajectory)"

lemma should_continue_cases:
  assumes "should_continue w st = Inr next"
  shows "if next = ToExecute then \<not> (gate_cleared (ls_verdict st) \<and> \<not> ls_amendment_blocked st)
    else loop_stopped w st"
  using assms
  by (auto simp: should_continue_def loop_stopped_def result_simps split: if_splits)

definition loop_history :: "loop_state \<Rightarrow> loop_effect list \<Rightarrow> bool" where
  "loop_history st t \<longleftrightarrow>
     (let events = iteration_events t in
      map ie_iteration events = map ir_iteration (ls_records st) \<and>
      ls_verdict st = (if events = [] then Rejected else ie_verdict (last events)) \<and>
      (gate_cleared (ls_verdict st) \<longrightarrow> ie_iteration (last events) = ls_iteration st \<and>
         outcome_event (ls_outcome st) = Some (EmittedIteration (last events))) \<and>
      sorted_wrt (<) (map ie_iteration events) \<and>
      (\<forall>e \<in> set events. 1 \<le> ie_iteration e \<and> ie_iteration e \<le> ls_iteration st) \<and>
      (\<forall>e \<in> set (butlast events). ie_verdict e = Rejected))"

lemma round_history:
  assumes "round_of w ctx env st = (Inr (st', next), t)"
    and "loop_history st h" and "ls_verdict st = Rejected"
  shows "loop_history st' (h @ t) \<and>
    (if next = ToExecute then ls_verdict st' = Rejected else loop_stopped w st')"
  using assms(1)
proof (cases rule: round_cases)
  case refused
  have "filter emits_iteration t = []" using execute_effects [OF refused(1)] by blast
  then have none: "iteration_events t = []" by (rule iteration_events_none)
  have same: "ls_iteration st' = Suc (ls_iteration st)" "ls_verdict st' = Rejected"
      "ls_records st' = ls_records st"
    using execute_state [OF refused(1)] assms(3) by auto
  have "loop_history st' (h @ t)"
    using assms(2,3) unfolding loop_history_def Let_def
    by (auto simp: none same gate_cleared_def)
  moreover have "next = ToExecute \<or> loop_stopped w st'"
    using refused(2,3) should_continue_cases [of w st' "next"]
    by (auto simp: route_after_execute_def split: if_splits)
  ultimately show ?thesis using same(2) by auto
next
  case (graded s t1 t2)
  have "filter emits_iteration t1 = []" using execute_effects [OF graded(1)] by blast
  then have none: "iteration_events t1 = []" by (rule iteration_events_none)
  have same: "ls_iteration s = Suc (ls_iteration st)" "ls_records s = ls_records st"
    using execute_state [OF graded(1)] by auto
  have "\<not> ls_amendment_blocked s"
    using graded(2) should_continue_never_evaluates by (auto simp: route_after_execute_def split: if_splits)
  moreover obtain event r where ev: "iteration_events t2 = [event]"
      "last t2 = EmittedIteration event"
      "ie_verdict event = ls_verdict st'" "ie_iteration event = ls_iteration s"
      "outcome_event (ls_outcome st') = Some (EmittedIteration event)"
      "ls_records st' = ls_records s @ [r]" "ir_iteration r = ls_iteration s"
      "ls_amendment_blocked st' = ls_amendment_blocked s"
    by (rule evaluate_emits [OF graded(3)]) (rule that, assumption+)
  ultimately have blocked: "\<not> ls_amendment_blocked st'" by simp
  have it: "ls_iteration st' = Suc (ls_iteration st)"
    using evaluated_iteration [OF graded(3)] same by simp
  have verdicts: "\<forall>e \<in> set (iteration_events h). ie_verdict e = Rejected"
    using assms(2,3) unfolding loop_history_def Let_def
    by (cases "iteration_events h" rule: rev_cases) auto
  have eq: "map ir_iteration (ls_records st) = map ie_iteration (iteration_events h)"
    using assms(2) unfolding loop_history_def Let_def by metis
  have "\<forall>e \<in> set (iteration_events h). ie_iteration e \<le> ls_iteration st"
    using assms(2) unfolding loop_history_def Let_def by blast
  then have "\<forall>i \<in> set (map ie_iteration (iteration_events h)). i \<le> ls_iteration st" by simp
  then have "\<forall>i \<in> set (map ir_iteration (ls_records st)). i \<le> ls_iteration st" unfolding eq .
  then have "loop_history st' (h @ t)"
    using assms(2) verdicts unfolding loop_history_def Let_def graded(5)
    by (auto simp: none ev same it sorted_wrt_append less_Suc_eq_le)
  then show ?thesis
    using should_continue_cases [OF graded(4)] blocked by (auto simp: gate_cleared_def)
qed

lemma loop_history_run:
  assumes "loop_from w ctx env st = (Inr st', t)" and "loop_history st h" and "ls_verdict st = Rejected"
  shows "loop_history st' (h @ t) \<and> loop_stopped w st'"
  using assms
proof (induction w ctx env st arbitrary: t h rule: loop_from.induct)
  case (1 w ctx env st)
  obtain st1 "next" t1 where rd: "round_of w ctx env st = (Inr (st1, next), t1)"
    using 1(2) by (auto simp: loop_from.simps [of w ctx env st] split: prod.splits sum.splits)
  note h = round_history [OF rd 1(3,4)]
  show ?case
  proof (cases "next = ToExecute")
    case False
    then show ?thesis using 1(2) h rd by (simp add: loop_from.simps [of w ctx env st])
  next
    case True
    obtain t2 where rec: "loop_from w ctx env st1 = (Inr st', t2)" "t = t1 @ t2"
      using 1(2) True rd
      by (cases "loop_from w ctx env st1") (auto simp: loop_from.simps [of w ctx env st])
    have "loop_history st' ((h @ t1) @ t2) \<and> loop_stopped w st'"
      by (rule 1(1) [OF rd [symmetric] refl refl _ rec(1)]) (use True h in auto)
    then show ?thesis unfolding rec(2) by simp
  qed
qed

text \<open>Claim C4. A run is reported accepted only on its last evaluation: each evaluation is recorded and
  emitted once, in order of its iteration; every one before the last was rejected; the run's verdict is
  the last one's, and when that clears the gate it is of the last iteration and is the receipt; and the
  loop stopped because of it, because the attempts were spent, or because it had plateaued.\<close>

theorem loop_accepts_only_its_last_evaluation:
  assumes "loop_from w ctx env initial_state = (Inr st, t)"
  shows "let events = iteration_events t in
    map ie_iteration events = map ir_iteration (ls_records st) \<and>
    sorted_wrt (<) (map ie_iteration events) \<and>
    (\<forall>e. e \<in> set (butlast events) \<longrightarrow> ie_verdict e = Rejected) \<and>
    ls_verdict st = (if events = [] then Rejected else ie_verdict (last events)) \<and>
    (gate_cleared (ls_verdict st) \<longrightarrow> ie_iteration (last events) = ls_iteration st \<and>
       outcome_event (ls_outcome st) = Some (EmittedIteration (last events))) \<and>
    loop_stopped w st"
proof -
  have "loop_history initial_state []" by (simp add: loop_history_def initial_state_def gate_cleared_def)
  moreover have "ls_verdict initial_state = Rejected" by (simp add: initial_state_def)
  ultimately show ?thesis
    using loop_history_run [OF assms, of "[]"] by (auto simp: loop_history_def Let_def)
qed


subsection \<open>The properties at a run\<close>

theorem passed_cross_off_is_demonstrated_witness:
  "\<exists>st t c. sample_round [] = (Inr st, t) \<and> c \<in> set (ls_standing st) \<and>
     ev_graded_sha (co_evidence c) = sample_head"
proof -
  obtain st t where run: "sample_round [] = (Inr st, t)"
      "map co_state (ls_standing st) = [Passed, Passed]"
    by (rule sample_round_passes) (rule that, assumption+)
  then obtain c where c: "c \<in> set (ls_standing st)" "co_state c = Passed"
    by (cases "ls_standing st") auto
  have "lc_native loop_context_sample" "distinct (map co_criterion (ls_standing (sample_executed [])))"
    by (simp_all add: loop_context_sample_def sample_executed_def)
  then have "ev_graded_sha (co_evidence c) = sample_head"
    using passed_cross_off_is_demonstrated [OF run(1) [unfolded sample_round_def] _ _ c]
    by (auto simp: sample_executed_def sample_evaluation_def resolve_def require_wired_def result_simps)
  then show ?thesis using run(1) c(1) by blast
qed

theorem lapse_keeps_the_gate_shut_witness:
  "\<exists>st t c. sample_round [sample_lapsed] = (Inr st, t) \<and> ls_verdict st = Rejected \<and>
     c \<in> set (ls_standing st) \<and> co_criterion c = ''AC-1'' \<and> co_state c = Lapsed"
proof -
  obtain st t where run: "sample_round [sample_lapsed] = (Inr st, t)"
      "graded_at (ls_outcome st) sample_roster sample_head ''loop''"
    by (rule sample_lapse_holds) (rule that, assumption+)
  have "co_criterion sample_lapsed \<in> set (map ec_id (outcome_criteria (ls_outcome st)))"
    using graded_at_criteria [OF run(2)] by (simp add: sample_roster_def sample_lapsed_def)
  then show ?thesis
    using lapse_keeps_the_gate_shut [OF run(1) [unfolded sample_round_def], of sample_lapsed] run(1)
    by (auto simp: loop_context_sample_def sample_executed_def sample_lapsed_def)
qed

theorem native_round_writes_its_decisions_witness:
  "\<exists>st t decided. sample_round [sample_lapsed] = (Inr st, t) \<and>
     length (ls_standing st) = 2 \<and>
     filter (\<lambda>e. \<exists>pairs. e = CrossOffsWritten pairs) t = [CrossOffsWritten decided]"
proof -
  obtain st t where run: "sample_round [sample_lapsed] = (Inr st, t)"
      "graded_at (ls_outcome st) sample_roster sample_head ''loop''"
    by (rule sample_lapse_holds) (rule that, assumption+)
  have "lc_native loop_context_sample" "distinct (map co_criterion (ls_standing (sample_executed [sample_lapsed])))"
    by (simp_all add: loop_context_sample_def sample_executed_def)
  then obtain roster decided where r: "outcome_criteria (ls_outcome st) = map Tracker roster"
      "map co_criterion (ls_standing st) = map tc_id roster"
      "filter (\<lambda>e. \<exists>pairs. e = CrossOffsWritten pairs) t = [CrossOffsWritten decided]"
    using native_round_writes_its_decisions [OF run(1) [unfolded sample_round_def]] by blast
  have "length (outcome_criteria (ls_outcome st)) = 2"
    using graded_at_criteria [OF run(2)] by (simp add: sample_roster_def)
  then have "length (ls_standing st) = 2"
    using r(1) arg_cong [OF r(2), of length] by simp
  then show ?thesis using run(1) r(3) by blast
qed

theorem loop_accepts_only_its_last_evaluation_witness:
  "\<exists>st t. loop_from loop_wiring_sample loop_context_sample sample_loop_env initial_state = (Inr st, t) \<and>
     ls_verdict st = Accepted \<and> iteration_events t \<noteq> [] \<and>
     ie_verdict (last (iteration_events t)) = Accepted"
proof -
  obtain st t where run: "sample_round [] = (Inr st, t)" "ls_verdict st = Accepted"
      "\<not> ls_amendment_blocked st"
    by (rule sample_round_passes) (rule that, assumption+)
  show ?thesis
    using loop_accepts_only_its_last_evaluation [OF sample_loop [OF run]] sample_loop [OF run] run(2)
    by (auto simp: Let_def split: if_splits)
qed


end
