(* ===== verification/Tracker.thy ===== *)
theory Tracker
  imports JobRegistry "HOL-Library.Multiset" "HOL-Library.Product_Lexorder" "HOL-Library.List_Lexorder"
    "HOL-Library.Char_ord"
begin

section \<open>Tracker vocabulary and the arithmetic of selection\<close>

text \<open>
  \<^verbatim>\<open>types/domain/tracker.py\<close> and \<^verbatim>\<open>domain/dispatch.py\<close>: issues as the
  tracker port reports them, the eligibility clauses, the rank key and the draw. A frozen set is a
  list in whatever order the interpreter iterates it.
\<close>

datatype issue_priority = Urgent | High | Medium | Low | NonePriority

definition PRIORITY_RANK_ORDER :: "issue_priority list" where
  "PRIORITY_RANK_ORDER = [Urgent, High, Medium, Low, NonePriority]"

fun index_of :: "'a \<Rightarrow> 'a list \<Rightarrow> nat" where
  "index_of x [] = 0"
| "index_of x (y # ys) = (if x = y then 0 else Suc (index_of x ys))"

definition priority_rank :: "issue_priority \<Rightarrow> nat" where
  "priority_rank p = index_of p PRIORITY_RANK_ORDER"

lemma priority_rank_inject: "priority_rank p = priority_rank q \<longleftrightarrow> p = q"
  by (cases p; cases q) (simp_all add: priority_rank_def PRIORITY_RANK_ORDER_def)

datatype workflow_state_kind =
  TriageState | BacklogState | UnstartedState | StartedState | CompletedState | CanceledState |
  DuplicateState

definition non_counting_state_kinds :: "workflow_state_kind list" where
  "non_counting_state_kinds = [CanceledState, DuplicateState]"

definition closed_state_kinds :: "workflow_state_kind list" where
  "closed_state_kinds = CompletedState # non_counting_state_kinds"

definition is_open :: "workflow_state_kind \<Rightarrow> bool" where
  "is_open kind \<longleftrightarrow> kind \<notin> set closed_state_kinds"

definition is_non_counting :: "workflow_state_kind \<Rightarrow> bool" where
  "is_non_counting kind \<longleftrightarrow> kind \<in> set non_counting_state_kinds"

datatype issue_relation_kind = BlockedBy | Blocks | Related | DuplicateRelation

datatype queue_state = TriageQueue | Proposed | Approved | Done | Decision

record issue_relation =
  ir_kind :: issue_relation_kind
  ir_issue_key :: string

record tracker_issue =
  ti_issue_key :: string
  ti_title :: string
  ti_body :: string
  ti_priority :: issue_priority
  ti_state_name :: string
  ti_state_kind :: workflow_state_kind
  ti_queue_states :: "queue_state list"
  ti_issue_labels :: "string list"
  ti_team_key :: "string option"
  ti_project :: "string option"
  ti_project_id :: "string option"
  ti_milestone_key :: "string option"
  ti_relations :: "issue_relation list"
  ti_parent_key :: "string option"
  ti_assignee_key :: "string option"
  ti_created_at :: instant
  ti_updated_at :: instant
  ti_url :: string

datatype claim_status = Granted | Lost | Contended

record claim_result =
  cr_issue_key :: string
  cr_status :: claim_status
  cr_holder :: string
  cr_expires_at :: instant
  cr_current_holder :: "string option"

subsection \<open>The eligibility clauses\<close>

definition clause_in_team :: "tracker_issue \<Rightarrow> string list \<Rightarrow> bool" where
  "clause_in_team issue team_keys \<longleftrightarrow>
     (case ti_team_key issue of None \<Rightarrow> False | Some team \<Rightarrow> team \<in> set team_keys)"

definition clause_in_scope :: "string list \<Rightarrow> string list \<Rightarrow> bool" where
  "clause_in_scope scope identifiers \<longleftrightarrow>
     scope = [] \<or> list_ex (\<lambda>identifier. identifier \<in> set scope) identifiers"

definition clause_recorded_repository :: "bool \<Rightarrow> string option \<Rightarrow> string \<Rightarrow> bool" where
  "clause_recorded_repository team_bound recorded repo_url \<longleftrightarrow> team_bound \<or> recorded = Some repo_url"

definition clause_approved :: "tracker_issue \<Rightarrow> bool" where
  "clause_approved issue \<longleftrightarrow> Approved \<in> set (ti_queue_states issue)"

definition clause_open :: "tracker_issue \<Rightarrow> bool" where
  "clause_open issue \<longleftrightarrow> is_open (ti_state_kind issue)"

definition blocker_keys :: "tracker_issue \<Rightarrow> string list" where
  "blocker_keys issue = map ir_issue_key (filter (\<lambda>r. ir_kind r = BlockedBy) (ti_relations issue))"

definition live_blocker :: "tracker_issue \<Rightarrow> (string \<Rightarrow> tracker_issue option) \<Rightarrow> string option" where
  "live_blocker issue blockers =
     find (\<lambda>key. case blockers key of None \<Rightarrow> False | Some blocker \<Rightarrow> clause_open blocker)
       (blocker_keys issue)"

definition clause_unclaimed :: "claim_result option \<Rightarrow> bool \<Rightarrow> bool" where
  "clause_unclaimed claim run_is_live \<longleftrightarrow> claim = None \<and> \<not> run_is_live"

definition clause_undelivered :: "bool \<Rightarrow> bool" where
  "clause_undelivered has_open_delivery \<longleftrightarrow> \<not> has_open_delivery"

subsection \<open>Ranking and the draw\<close>

type_synonym rank = "nat \<times> instant"

definition rank_key :: "tracker_issue \<Rightarrow> rank" where
  "rank_key issue = (priority_rank (ti_priority issue), ti_created_at issue)"

record selection =
  sel_winner_key :: string
  sel_tied :: "string list"

definition select_top_ranked ::
  "tracker_issue list \<Rightarrow> (string list \<Rightarrow> string) \<Rightarrow> selection option" where
  "select_top_ranked issues draw =
     (if issues = [] then None
      else
        let best = Min (set (map rank_key issues));
            tied = sort (map ti_issue_key (filter (\<lambda>issue. rank_key issue = best) issues)) in
        (case tied of
           [only] \<Rightarrow> Some \<lparr>sel_winner_key = only, sel_tied = tied\<rparr>
         | _ \<Rightarrow> Some \<lparr>sel_winner_key = draw tied, sel_tied = tied\<rparr>))"

definition ranked_order :: "tracker_issue list \<Rightarrow> string list" where
  "ranked_order issues =
     map ti_issue_key
       (sort_key (\<lambda>issue. (fst (rank_key issue), snd (rank_key issue), ti_issue_key issue)) issues)"

text \<open>The winner is one of the best ranked, and the tied set is all of them.\<close>

lemma select_top_ranked_spec:
  assumes "select_top_ranked issues draw = Some s"
    and "\<And>keys. keys \<noteq> [] \<Longrightarrow> draw keys \<in> set keys"
  shows "(\<exists>best \<in> set issues. ti_issue_key best = sel_winner_key s \<and>
      (\<forall>i \<in> set issues. rank_key best \<le> rank_key i)) \<and>
    mset (sel_tied s) = mset (map ti_issue_key
      (filter (\<lambda>i. \<forall>j \<in> set issues. rank_key i \<le> rank_key j) issues))"
proof -
  let ?best = "Min (set (map rank_key issues))"
  define tied where "tied = sort (map ti_issue_key (filter (\<lambda>i. rank_key i = ?best) issues))"
  have ne: "issues \<noteq> []" using assms(1) by (auto simp: select_top_ranked_def)
  have least: "rank_key i = ?best \<longleftrightarrow> (\<forall>j \<in> set issues. rank_key i \<le> rank_key j)" if "i \<in> set issues" for i
    using that ne by (auto simp: eq_commute [of "rank_key i"] Min_eq_iff)
  have "?best \<in> set (map rank_key issues)" by (rule Min_in) (use ne in auto)
  then obtain b where b: "b \<in> set issues" "rank_key b = ?best" by auto
  then have "ti_issue_key b \<in> set tied" by (simp add: tied_def)
  then have "tied \<noteq> []" by auto
  moreover have "select_top_ranked issues draw =
      (case tied of [only] \<Rightarrow> Some \<lparr>sel_winner_key = only, sel_tied = tied\<rparr>
       | _ \<Rightarrow> Some \<lparr>sel_winner_key = draw tied, sel_tied = tied\<rparr>)"
    unfolding select_top_ranked_def Let_def tied_def using ne by simp
  ultimately have s: "sel_tied s = tied" "sel_winner_key s \<in> set tied"
    using assms(1) assms(2) [of tied] by (auto split: list.splits)
  have "mset tied = mset (map ti_issue_key
      (filter (\<lambda>i. \<forall>j \<in> set issues. rank_key i \<le> rank_key j) issues))"
    unfolding tied_def using least by (simp cong: filter_cong)
  moreover have "\<exists>best \<in> set issues. ti_issue_key best = sel_winner_key s \<and>
      (\<forall>i \<in> set issues. rank_key best \<le> rank_key i)"
    using s(2) least unfolding tied_def by fastforce
  ultimately show ?thesis using s(1) by simp
qed

end
