(* ===== verification/Topology.thy ===== *)
theory Topology
  imports Tracker
begin

section \<open>The ready set of a dependency snapshot\<close>

text \<open>
  \<^verbatim>\<open>domain/topology.py\<close>: the depth-first order of prerequisites with its explicit
  stack, the priority that flows from dependents to what blocks them, and the ranking of the
  candidates with no open blocker. The path, the set of its members and the stack of child iterators
  grow and shrink together, so a frame holds a path entry with the children its iterator still owes;
  a key is visited exactly when it is in the order.
\<close>

type_synonym issue_graph = "(string, string list) pydict"

datatype topology_error =
  ScopeCycle "string list"
| DuplicateIssue string
| AbsentCandidates "string list"
| AbsentBlocking
| AbsentBlockers "string list"
| GraphKeyError string

subsection \<open>Prerequisites first\<close>

type_synonym frame = "string \<times> string list"

definition cycle_from :: "string \<Rightarrow> frame list \<Rightarrow> string list" where
  "cycle_from child frames = child # rev (takeWhile (\<lambda>k. k \<noteq> child) (map fst frames))"

definition unseen :: "issue_graph \<Rightarrow> frame list \<Rightarrow> string list \<Rightarrow> string set" where
  "unseen g frames ordered = set (dict_keys g) - set ordered - set (map fst frames)"

lemma unseen_push:
  assumes "map_of g c = Some children" and "c \<notin> set ordered" and "c \<notin> set (map fst frames)"
    and "map fst frames' = map fst frames"
  shows "card (unseen g ((c, children) # frames') ordered) < card (unseen g frames ordered)"
proof (rule psubset_card_mono)
  have "c \<in> unseen g frames ordered"
    using assms dict_get_keys [OF assms(1)] by (auto simp: unseen_def)
  moreover have "unseen g ((c, children) # frames') ordered = unseen g frames ordered - {c}"
    using assms(4) by (auto simp: unseen_def simp flip: set_map)
  ultimately show "unseen g ((c, children) # frames') ordered \<subset> unseen g frames ordered" by blast
qed (simp add: unseen_def)

function walk_frames ::
  "issue_graph \<Rightarrow> frame list \<Rightarrow> string list \<Rightarrow> topology_error + string list" where
  "walk_frames g [] ordered = Inr ordered"
| "walk_frames g ((key, []) # frames) ordered = walk_frames g frames (ordered @ [key])"
| "walk_frames g ((key, child # rest) # frames) ordered =
     (if child \<in> set (key # map fst frames)
      then Inl (ScopeCycle (cycle_from child ((key, rest) # frames)))
      else if child \<in> set ordered then walk_frames g ((key, rest) # frames) ordered
      else
        case map_of g child of
          None \<Rightarrow> Inl (GraphKeyError child)
        | Some children \<Rightarrow> walk_frames g ((child, children) # (key, rest) # frames) ordered)"
  by pat_completeness auto
termination
proof (relation "measures [\<lambda>(g, frames, ordered). card (unseen g frames ordered),
    \<lambda>(g, frames, ordered). \<Sum>(key, rest) \<leftarrow> frames. Suc (length rest)]")
  fix g :: issue_graph and key and frames :: "frame list" and ordered
  have "unseen g frames (ordered @ [key]) = unseen g ((key, []) # frames) ordered"
    by (auto simp: unseen_def)
  then show "((g, frames, ordered @ [key]), g, (key, []) # frames, ordered)
      \<in> measures [\<lambda>(g, frames, ordered). card (unseen g frames ordered),
        \<lambda>(g, frames, ordered). \<Sum>(key, rest) \<leftarrow> frames. Suc (length rest)]"
    by simp
next
  fix g :: issue_graph and key child rest and frames :: "frame list" and ordered
  have "unseen g ((key, rest) # frames) ordered = unseen g ((key, child # rest) # frames) ordered"
    by (auto simp: unseen_def)
  then show "((g, (key, rest) # frames, ordered), g, (key, child # rest) # frames, ordered)
      \<in> measures [\<lambda>(g, frames, ordered). card (unseen g frames ordered),
        \<lambda>(g, frames, ordered). \<Sum>(key, rest) \<leftarrow> frames. Suc (length rest)]"
    by simp
next
  fix g :: issue_graph and key child rest and frames :: "frame list" and ordered children
  assume "\<not> child \<in> set (key # map fst frames)" "child \<notin> set ordered"
    "map_of g child = Some children"
  then show "((g, (child, children) # (key, rest) # frames, ordered), g, (key, child # rest) # frames,
        ordered)
      \<in> measures [\<lambda>(g, frames, ordered). card (unseen g frames ordered),
        \<lambda>(g, frames, ordered). \<Sum>(key, rest) \<leftarrow> frames. Suc (length rest)]"
    using unseen_push [of g child children ordered "(key, child # rest) # frames" "(key, rest) # frames"]
    by simp
qed simp

fun visit_roots :: "issue_graph \<Rightarrow> frame list \<Rightarrow> string list \<Rightarrow> topology_error + string list" where
  "visit_roots g [] ordered = Inr ordered"
| "visit_roots g ((root, children) # roots) ordered =
     (if root \<in> set ordered then visit_roots g roots ordered
      else bind_sum (walk_frames g [(root, children)] ordered) (visit_roots g roots))"

definition acyclic_order :: "issue_graph \<Rightarrow> topology_error + string list" where
  "acyclic_order g = visit_roots g g []"

subsection \<open>What the order is\<close>

definition children :: "issue_graph \<Rightarrow> string \<Rightarrow> string list" where
  "children g key = (case map_of g key of None \<Rightarrow> [] | Some cs \<Rightarrow> cs)"

definition edges :: "issue_graph \<Rightarrow> (string \<times> string) set" where
  "edges g = {(key, child). child \<in> set (children g key)}"

definition closed_graph :: "issue_graph \<Rightarrow> bool" where
  "closed_graph g \<longleftrightarrow> wf_dict g \<and> (\<forall>key. set (children g key) \<subseteq> set (dict_keys g))"

definition prerequisites_first :: "issue_graph \<Rightarrow> string list \<Rightarrow> bool" where
  "prerequisites_first g xs \<longleftrightarrow> (\<forall>i < length xs. set (children g (xs ! i)) \<subseteq> set (take i xs))"

definition real_cycle :: "issue_graph \<Rightarrow> string list \<Rightarrow> bool" where
  "real_cycle g ks \<longleftrightarrow>
     ks \<noteq> [] \<and> distinct ks \<and> successively (\<lambda>a b. b \<in> set (children g a)) (ks @ [hd ks])"

lemma prerequisites_first_snoc:
  "prerequisites_first g (xs @ [k]) \<longleftrightarrow> prerequisites_first g xs \<and> set (children g k) \<subseteq> set xs"
  by (auto simp: prerequisites_first_def nth_append less_Suc_eq)

lemma prerequisites_first_index:
  assumes "prerequisites_first g xs" and "distinct xs" and "k \<in> set xs" and "c \<in> set (children g k)"
  shows "c \<in> set xs \<and> index_of c xs < index_of k xs"
proof -
  have index: "index_of x ys < length ys \<and> ys ! index_of x ys = x" if "x \<in> set ys" for x and ys :: "string list"
    using that by (induction ys) auto
  have before: "index_of x ys < n" if "x \<in> set (take n ys)" for x n and ys :: "string list"
    using that
  proof (induction ys arbitrary: n)
    case (Cons y ys)
    then show ?case by (cases n) (auto split: if_splits)
  qed simp
  have "set (children g (xs ! index_of k xs)) \<subseteq> set (take (index_of k xs) xs)"
    using assms(1) index [OF assms(3)] unfolding prerequisites_first_def by blast
  then have "c \<in> set (take (index_of k xs) xs)" using index [OF assms(3)] assms(4) by auto
  then show ?thesis using before by (auto dest: in_set_takeD)
qed

lemma ordered_acyclic:
  assumes "prerequisites_first g xs" and "distinct xs" and "set (dict_keys g) \<subseteq> set xs"
  shows "acyclic (edges g)"
proof -
  have less: "index_of c xs < index_of k xs" if "(k, c) \<in> edges g" for k c
  proof -
    have "k \<in> set (dict_keys g)"
      using that dict_get_None [of g k] by (cases "map_of g k") (simp_all add: edges_def children_def)
    then show ?thesis using prerequisites_first_index [OF assms(1,2)] assms(3) that by (auto simp: edges_def)
  qed
  have "(edges g)\<inverse> \<subseteq> measure (\<lambda>k. index_of k xs)"
    by (rule subrelI) (simp add: less)
  then have "wf ((edges g)\<inverse>)" by (rule wf_subset [OF wf_measure])
  then show ?thesis by (metis acyclic_converse wf_acyclic)
qed

lemma successively_trancl:
  "successively (\<lambda>a b. (a, b) \<in> r) (x # xs @ [y]) \<Longrightarrow> (x, y) \<in> r\<^sup>+"
  by (induction xs arbitrary: x) (auto intro: trancl_into_trancl2)

lemma real_cycle_cyclic:
  assumes "real_cycle g ks"
  shows "\<not> acyclic (edges g)"
proof -
  obtain x xs where ks: "ks = x # xs" using assms by (cases ks) (auto simp: real_cycle_def)
  have "(x, x) \<in> (edges g)\<^sup>+"
    by (rule successively_trancl [of "edges g" x xs x]) (use assms in \<open>simp add: real_cycle_def ks edges_def\<close>)
  then show ?thesis by (auto simp: acyclic_def)
qed

text \<open>The invariant of the walk: what is ordered is settled, and each frame's consumed children are
  ordered except the one its walk is inside of.\<close>

fun frames_hold :: "issue_graph \<Rightarrow> string list \<Rightarrow> string list \<Rightarrow> frame list \<Rightarrow> bool" where
  "frames_hold g ordered inside [] \<longleftrightarrow> True"
| "frames_hold g ordered inside ((key, rest) # frames) \<longleftrightarrow>
     set (children g key) \<subseteq> set rest \<union> set ordered \<union> set inside \<and>
     set rest \<union> set inside \<subseteq> set (children g key) \<and> frames_hold g ordered [key] frames"

definition walk_inv :: "issue_graph \<Rightarrow> frame list \<Rightarrow> string list \<Rightarrow> bool" where
  "walk_inv g frames ordered \<longleftrightarrow>
     distinct (map fst frames @ ordered) \<and> set (map fst frames @ ordered) \<subseteq> set (dict_keys g) \<and>
     prerequisites_first g ordered \<and> frames_hold g ordered [] frames"

lemma frames_hold_mono:
  "frames_hold g ordered inside frames \<Longrightarrow> set ordered \<subseteq> set ordered' \<Longrightarrow> frames_hold g ordered' inside frames"
proof (induction frames arbitrary: inside)
  case (Cons f frames)
  then show ?case by (cases f) (simp, blast)
qed simp

lemma frames_hold_popped:
  "frames_hold g ordered [key] frames \<Longrightarrow> frames_hold g (ordered @ [key]) [] frames"
  using frames_hold_mono [of g ordered _ _ "ordered @ [key]"]
  by (cases frames) (fastforce dest: frames_hold_mono [of g ordered _ _ "ordered @ [key]"])+

lemma frames_path:
  assumes "frames_hold g ordered inside frames" and "length inside \<le> 1"
  shows "successively (\<lambda>a b. a \<in> set (children g b)) (inside @ map fst frames)"
  using assms
proof (induction frames arbitrary: inside)
  case Nil
  then show ?case by (cases inside) auto
next
  case (Cons f frames)
  obtain key rest where f: "f = (key, rest)" by (cases f)
  show ?case
    using Cons.prems Cons.IH [of "[key]"] unfolding f by (cases inside) auto
qed

lemma cycle_found:
  assumes "walk_inv g ((key, child # rest) # frames) ordered" and "child \<in> set (key # map fst frames)"
  shows "real_cycle g (cycle_from child ((key, rest) # frames))"
proof -
  let ?path = "key # map fst frames"
  have d: "distinct ?path" and h: "frames_hold g ordered [] ((key, child # rest) # frames)"
    using assms(1) by (auto simp: walk_inv_def)
  obtain pre post where split: "?path = pre @ child # post" "child \<notin> set pre"
    using split_list_first [OF assms(2)] by blast
  have cyc: "cycle_from child ((key, rest) # frames) = child # rev pre"
    using split by (auto simp: cycle_from_def takeWhile_append)
  have "successively (\<lambda>a b. a \<in> set (children g b)) ?path" using frames_path [OF h] by simp
  then have "successively (\<lambda>a b. a \<in> set (children g b)) (child # ?path)" using h by simp
  then have "successively (\<lambda>a b. a \<in> set (children g b)) ((child # pre @ [child]) @ post)"
    unfolding split(1) by simp
  then have "successively (\<lambda>a b. a \<in> set (children g b)) (child # pre @ [child])"
    by (metis successively_append_iff)
  then have "successively (\<lambda>a b. b \<in> set (children g a)) (rev (child # pre @ [child]))"
    by (simp only: successively_rev)
  then show ?thesis using d split unfolding cyc real_cycle_def by simp
qed

lemma walk_result:
  assumes "closed_graph g" and "walk_inv g frames ordered"
  shows "case walk_frames g frames ordered of
      Inr out \<Rightarrow> walk_inv g [] out \<and> set (map fst frames @ ordered) \<subseteq> set out
    | Inl e \<Rightarrow> \<exists>ks. e = ScopeCycle ks \<and> real_cycle g ks"
  using assms
proof (induction g frames ordered rule: walk_frames.induct)
  case (1 g ordered)
  then show ?case by simp
next
  case (2 g key frames ordered)
  have "walk_inv g frames (ordered @ [key])"
    using 2(3) frames_hold_popped [of g ordered key frames]
    by (auto simp: walk_inv_def prerequisites_first_snoc)
  then show ?case using 2(1,2) by (auto split: sum.splits)
next
  case (3 g key child rest frames ordered)
  show ?case
  proof (cases "child \<in> set (key # map fst frames)")
    case True
    then show ?thesis using cycle_found [OF 3(4) True] by auto
  next
    case new: False
    show ?thesis
    proof (cases "child \<in> set ordered")
      case True
      then have "walk_inv g ((key, rest) # frames) ordered" using 3(4) by (auto simp: walk_inv_def)
      then show ?thesis using 3(1,3) new True by (auto split: sum.splits)
    next
      case False
      have c: "child \<in> set (children g key)" using 3(4) by (auto simp: walk_inv_def)
      then have "child \<in> set (dict_keys g)" using 3(3) unfolding closed_graph_def by blast
      then obtain cs where cs: "map_of g child = Some cs"
        using dict_get_None [of g child] by (cases "map_of g child") auto
      then have "children g child = cs" by (simp add: children_def)
      then have "walk_inv g ((child, cs) # (key, rest) # frames) ordered"
        using 3(4) new False \<open>child \<in> set (dict_keys g)\<close> by (auto simp: walk_inv_def)
      then show ?thesis using 3(2,3) new False cs by (auto split: sum.splits)
    qed
  qed
qed

lemma visit_roots_result:
  assumes "closed_graph g" and "walk_inv g [] ordered" and "set roots \<subseteq> set g"
  shows "case visit_roots g roots ordered of
      Inr out \<Rightarrow> walk_inv g [] out \<and> set (map fst roots) \<union> set ordered \<subseteq> set out
    | Inl e \<Rightarrow> \<exists>ks. e = ScopeCycle ks \<and> real_cycle g ks"
  using assms
proof (induction g roots ordered rule: visit_roots.induct)
  case (1 g ordered)
  then show ?case by simp
next
  case (2 g root cs roots ordered)
  show ?case
  proof (cases "root \<in> set ordered")
    case True
    then show ?thesis using 2 by (auto split: sum.splits)
  next
    case False
    have "map_of g root = Some cs" using 2(3,5) by (simp add: closed_graph_def)
    then have "children g root = cs" "root \<in> set (dict_keys g)"
      using 2(5) by (auto simp: children_def dest: dict_get_keys)
    then have "walk_inv g [(root, cs)] ordered" using 2(4) False by (auto simp: walk_inv_def)
    then have w: "case walk_frames g [(root, cs)] ordered of
        Inr out \<Rightarrow> walk_inv g [] out \<and> set (root # ordered) \<subseteq> set out
      | Inl e \<Rightarrow> \<exists>ks. e = ScopeCycle ks \<and> real_cycle g ks"
      using walk_result [of g "[(root, cs)]" ordered] 2(3) by (auto split: sum.splits)
    show ?thesis
    proof (cases "walk_frames g [(root, cs)] ordered")
      case (Inl e)
      then show ?thesis using w False by simp
    next
      case (Inr out)
      then show ?thesis using w False 2(2) [OF False, of out] 2(3,5) by (auto split: sum.splits)
    qed
  qed
qed

lemma acyclic_order_result:
  assumes "closed_graph g"
  shows "case acyclic_order g of
      Inr ordered \<Rightarrow> distinct ordered \<and> set ordered = set (dict_keys g) \<and> prerequisites_first g ordered
    | Inl e \<Rightarrow> \<exists>ks. e = ScopeCycle ks \<and> real_cycle g ks"
proof -
  have "walk_inv g [] []" by (simp add: walk_inv_def prerequisites_first_def)
  then show ?thesis
    using visit_roots_result [OF assms, of "[]" g]
    by (auto simp: acyclic_order_def walk_inv_def split: sum.splits)
qed

lemma acyclic_order_ok_iff:
  assumes "closed_graph g"
  shows "is_ok (acyclic_order g) \<longleftrightarrow> acyclic (edges g)"
proof (cases "acyclic_order g")
  case (Inl e)
  then show ?thesis using acyclic_order_result [OF assms] real_cycle_cyclic by auto
next
  case (Inr ordered)
  then show ?thesis using acyclic_order_result [OF assms] ordered_acyclic [of g ordered] by auto
qed

subsection \<open>Ranking a snapshot\<close>

definition lookup :: "(string, 'v) pydict \<Rightarrow> string \<Rightarrow> topology_error + 'v" where
  "lookup d key = (case map_of d key of None \<Rightarrow> Inl (GraphKeyError key) | Some v \<Rightarrow> Inr v)"

lemma lookup_Inr [result_simps]: "lookup d key = Inr v \<longleftrightarrow> map_of d key = Some v"
  by (auto simp: lookup_def split: option.splits)

record ready_issue =
  ri_issue :: tracker_issue
  ri_effective_priority :: issue_priority

record blocked_issue =
  bi_issue_key :: string
  bi_blocker_keys :: "string list"

record topology_plan =
  tp_ready :: "ready_issue list"
  tp_blocked :: "blocked_issue list"

fun index_issues ::
  "(string, tracker_issue) pydict \<Rightarrow> tracker_issue list
     \<Rightarrow> topology_error + (string, tracker_issue) pydict" where
  "index_issues by_key [] = Inr by_key"
| "index_issues by_key (issue # issues) =
     (if ti_issue_key issue \<in> set (dict_keys by_key) then Inl (DuplicateIssue (ti_issue_key issue))
      else index_issues (AList.update (ti_issue_key issue) issue by_key) issues)"

definition min_priority :: "issue_priority \<Rightarrow> issue_priority \<Rightarrow> issue_priority" where
  "min_priority p q = (if priority_rank q < priority_rank p then q else p)"

type_synonym priorities = "(string, issue_priority) pydict"

fun relax :: "string \<Rightarrow> string list \<Rightarrow> priorities \<Rightarrow> topology_error + priorities" where
  "relax key [] effective = Inr effective"
| "relax key (blocker # blockers) effective =
     bind_sum (lookup effective blocker) (\<lambda>p.
     bind_sum (lookup effective key) (\<lambda>q.
     relax key blockers (AList.update blocker (min_priority p q) effective)))"

fun propagate :: "issue_graph \<Rightarrow> string list \<Rightarrow> priorities \<Rightarrow> topology_error + priorities" where
  "propagate g [] effective = Inr effective"
| "propagate g (key # keys) effective =
     bind_sum (lookup g key) (\<lambda>blockers.
     bind_sum (relax key blockers effective) (propagate g keys))"

fun live_among ::
  "(string, tracker_issue) pydict \<Rightarrow> string list option \<Rightarrow> string list \<Rightarrow> topology_error + string list"
  where
  "live_among by_key blocking [] = Inr []"
| "live_among by_key blocking (blocker # blockers) =
     bind_sum (case blocking of
         None \<Rightarrow> bind_sum (lookup by_key blocker) (\<lambda>issue. Inr (is_open (ti_state_kind issue)))
       | Some keys \<Rightarrow> Inr (blocker \<in> set keys)) (\<lambda>live.
     bind_sum (live_among by_key blocking blockers) (\<lambda>rest.
     Inr (if live then blocker # rest else rest)))"

fun split_candidates ::
  "(string, tracker_issue) pydict \<Rightarrow> issue_graph \<Rightarrow> priorities \<Rightarrow> string list \<Rightarrow> string list option
     \<Rightarrow> (string, tracker_issue) pydict \<Rightarrow> topology_error + ready_issue list \<times> blocked_issue list" where
  "split_candidates by_key g effective candidates blocking [] = Inr ([], [])"
| "split_candidates by_key g effective candidates blocking ((key, issue) # rest) =
     (if key \<notin> set candidates then split_candidates by_key g effective candidates blocking rest
      else
        bind_sum (lookup g key) (\<lambda>blockers.
        bind_sum (live_among by_key blocking blockers) (\<lambda>live.
        if live = [] then
          bind_sum (lookup effective key) (\<lambda>p.
          bind_sum (split_candidates by_key g effective candidates blocking rest) (\<lambda>(ready, blocked).
          Inr (\<lparr>ri_issue = issue, ri_effective_priority = p\<rparr> # ready, blocked)))
        else
          bind_sum (split_candidates by_key g effective candidates blocking rest) (\<lambda>(ready, blocked).
          Inr (ready, \<lparr>bi_issue_key = key, bi_blocker_keys = live\<rparr> # blocked)))))"

definition dependency_graph :: "(string, tracker_issue) pydict \<Rightarrow> issue_graph" where
  "dependency_graph by_key = map (\<lambda>(key, issue). (key, fromkeys (blocker_keys issue))) by_key"

definition ready_rank :: "ready_issue \<Rightarrow> rank" where
  "ready_rank entry = (priority_rank (ri_effective_priority entry), ti_created_at (ri_issue entry))"

definition absent :: "string list \<Rightarrow> (string, 'v) pydict \<Rightarrow> string list" where
  "absent keys d = sort (remdups (filter (\<lambda>key. key \<notin> set (dict_keys d)) keys))"

definition plan_topology ::
  "tracker_issue list \<Rightarrow> string list \<Rightarrow> string list option \<Rightarrow> topology_error + topology_plan" where
  "plan_topology issues candidates blocking =
     bind_sum (index_issues [] issues) (\<lambda>by_key.
     let g = dependency_graph by_key in
     if absent candidates by_key \<noteq> [] then Inl (AbsentCandidates (absent candidates by_key))
     else if (case blocking of None \<Rightarrow> False | Some keys \<Rightarrow> absent keys by_key \<noteq> []) then Inl AbsentBlocking
     else if absent (concat (map snd g)) by_key \<noteq> []
       then Inl (AbsentBlockers (absent (concat (map snd g)) by_key))
     else
       bind_sum (acyclic_order g) (\<lambda>ordered.
       bind_sum (propagate g (rev ordered) (map (\<lambda>(key, issue). (key, ti_priority issue)) by_key))
         (\<lambda>effective.
       bind_sum (split_candidates by_key g effective candidates blocking by_key) (\<lambda>(ready, blocked).
       Inr \<lparr>tp_ready = sort_key ready_rank ready, tp_blocked = blocked\<rparr>))))"

subsection \<open>What is computed over the snapshot\<close>

lemma relax_spec:
  assumes "set (key # blockers) \<subseteq> set (dict_keys effective)" and "key \<notin> set blockers"
  shows "\<exists>out. relax key blockers effective = Inr out \<and> set (dict_keys out) = set (dict_keys effective) \<and>
    (\<forall>k. k \<in> set (dict_keys effective) \<longrightarrow> the (map_of out k) =
       (if k \<in> set blockers then min_priority (the (map_of effective k)) (the (map_of effective key))
        else the (map_of effective k)))"
  using assms
proof (induction key blockers effective rule: relax.induct)
  case (1 key effective)
  then show ?case by simp
next
  case (2 key blocker blockers effective)
  obtain p where p: "map_of effective blocker = Some p"
    using 2(2) dict_get_None [of effective blocker] by (cases "map_of effective blocker") auto
  obtain q where q: "map_of effective key = Some q"
    using 2(2) dict_get_None [of effective key] by (cases "map_of effective key") auto
  note pq = p q
  let ?step = "AList.update blocker (min_priority p q) effective"
  have same: "set (dict_keys ?step) = set (dict_keys effective)" using 2(2) by (auto simp: dict_keys_image)
  obtain out where out: "relax key blockers ?step = Inr out" "set (dict_keys out) = set (dict_keys effective)"
      "\<forall>k. k \<in> set (dict_keys effective) \<longrightarrow> the (map_of out k) =
         (if k \<in> set blockers then min_priority (the (map_of ?step k)) (the (map_of ?step key))
          else the (map_of ?step k))"
    using 2(1) [of p q] 2(2,3) pq same by (auto simp: lookup_def)
  then have "relax key (blocker # blockers) effective = Inr out" using pq by (simp add: lookup_def)
  moreover have "the (map_of out k) = (if k \<in> set (blocker # blockers)
      then min_priority (the (map_of effective k)) (the (map_of effective key)) else the (map_of effective k))"
    if "k \<in> set (dict_keys effective)" for k
    using out(3) that pq 2(3) by (auto simp: dict_get_set min_priority_def)
  ultimately show ?case using out(2) by blast
qed

definition propagated :: "issue_graph \<Rightarrow> priorities \<Rightarrow> string list \<Rightarrow> priorities \<Rightarrow> bool" where
  "propagated g start done effective \<longleftrightarrow>
     set (dict_keys effective) = set (dict_keys g) \<and>
     (\<forall>k. k \<in> set (dict_keys g) \<longrightarrow> (\<exists>d. d \<in> set (dict_keys g) \<and> (d, k) \<in> (edges g)\<^sup>* \<and>
          the (map_of effective k) = the (map_of start d)) \<and>
        priority_rank (the (map_of effective k)) \<le> priority_rank (the (map_of start k))) \<and>
     (\<forall>p \<in> set done. \<forall>c \<in> set (children g p).
        priority_rank (the (map_of effective c)) \<le> priority_rank (the (map_of effective p)))"

lemma propagate_step:
  assumes "closed_graph g" and "propagated g start done effective" and "map_of g key = Some blockers"
    and "key \<notin> set blockers" and "set blockers \<inter> set done = {}"
  shows "\<exists>out. relax key blockers effective = Inr out \<and> propagated g start (key # done) out"
proof -
  have ch: "children g key = blockers" using assms(3) by (simp add: children_def)
  have keys: "set (dict_keys effective) = set (dict_keys g)" using assms(2) by (simp add: propagated_def)
  have sub: "set (key # blockers) \<subseteq> set (dict_keys effective)"
    using assms(1) ch dict_get_keys [OF assms(3)] unfolding closed_graph_def keys by auto
  obtain out where out: "relax key blockers effective = Inr out"
      "set (dict_keys out) = set (dict_keys effective)"
      "\<forall>k. k \<in> set (dict_keys effective) \<longrightarrow> the (map_of out k) =
         (if k \<in> set blockers then min_priority (the (map_of effective k)) (the (map_of effective key))
          else the (map_of effective k))"
    using relax_spec [OF sub assms(4)] by blast
  have less: "priority_rank (the (map_of out k)) \<le> priority_rank (the (map_of effective k))"
    if "k \<in> set (dict_keys g)" for k
    using out(3) that keys by (simp add: min_priority_def)
  have from_key: "(d, k) \<in> (edges g)\<^sup>*" if "k \<in> set blockers" "(d, key) \<in> (edges g)\<^sup>*" for d k
    using that ch by (auto simp: edges_def intro: rtrancl_into_rtrancl)
  have "\<exists>d. d \<in> set (dict_keys g) \<and> (d, k) \<in> (edges g)\<^sup>* \<and> the (map_of out k) = the (map_of start d)"
    if "k \<in> set (dict_keys g)" for k
    using assms(2) that out(3) keys sub from_key unfolding propagated_def min_priority_def
    by (metis insertI1 list.simps(15) subsetD)
  moreover have "priority_rank (the (map_of out k)) \<le> priority_rank (the (map_of start k))"
    if "k \<in> set (dict_keys g)" for k
    using assms(2) that less [OF that] by (fastforce simp: propagated_def)
  moreover have "priority_rank (the (map_of out c)) \<le> priority_rank (the (map_of out p))"
    if p: "p \<in> set (key # done)" and c: "c \<in> set (children g p)" for p c
  proof -
    have in_g: "p \<in> set (dict_keys g)" "c \<in> set (dict_keys g)"
      using c assms(1) dict_get_None [of g p] unfolding closed_graph_def
      by (cases "map_of g p"; auto simp: children_def)+
    show ?thesis
    proof (cases "p = key")
      case True
      then show ?thesis using c ch out(3) in_g keys assms(4) by (auto simp: min_priority_def)
    next
      case False
      then have "p \<notin> set blockers" "p \<in> set done" using p assms(5) by auto
      then have "the (map_of out p) = the (map_of effective p)"
          "priority_rank (the (map_of effective c)) \<le> priority_rank (the (map_of effective p))"
        using out(3) in_g keys assms(2) c by (auto simp: propagated_def)
      then show ?thesis using less [OF in_g(2)] by simp
    qed
  qed
  ultimately show ?thesis using out(1,2) keys unfolding propagated_def by auto
qed

lemma prerequisites_first_at:
  assumes "prerequisites_first g (xs @ k # ys)"
  shows "set (children g k) \<subseteq> set xs"
proof -
  have "set (children g ((xs @ k # ys) ! length xs)) \<subseteq> set (take (length xs) (xs @ k # ys))"
    using assms unfolding prerequisites_first_def by (rule allE [of _ "length xs"]) simp
  then show ?thesis by simp
qed

lemma propagate_rest:
  assumes "closed_graph g" and "distinct (rev todo @ done)" and "prerequisites_first g (rev todo @ done)"
    and "set todo \<subseteq> set (dict_keys g)" and "propagated g start done effective"
  shows "\<exists>out. propagate g todo effective = Inr out \<and> propagated g start (rev todo @ done) out"
  using assms
proof (induction todo arbitrary: "done" effective)
  case Nil
  then show ?case by simp
next
  case (Cons key todo)
  obtain blockers where b: "map_of g key = Some blockers"
    using Cons.prems(4) dict_get_None [of g key] by (cases "map_of g key") auto
  have sub: "set blockers \<subseteq> set (rev todo)"
    using prerequisites_first_at [of g "rev todo" key "done"] Cons.prems(3) b by (simp add: children_def)
  have "key \<notin> set blockers" "set blockers \<inter> set done = {}" using sub Cons.prems(2) by auto
  then obtain mid where mid: "relax key blockers effective = Inr mid" "propagated g start (key # done) mid"
    using propagate_step [OF Cons.prems(1,5) b] by blast
  obtain out where "propagate g todo mid = Inr out" "propagated g start (rev todo @ key # done) out"
    using Cons.IH [of "key # done" mid] Cons.prems(1-4) mid(2) by auto
  then show ?case using mid(1) b by (auto simp: lookup_def)
qed

definition best_reaching :: "issue_graph \<Rightarrow> priorities \<Rightarrow> string \<Rightarrow> issue_priority \<Rightarrow> bool" where
  "best_reaching g start k p \<longleftrightarrow>
     (\<exists>d. d \<in> set (dict_keys g) \<and> (d, k) \<in> (edges g)\<^sup>* \<and> map_of start d = Some p) \<and>
     (\<forall>d q. (d, k) \<in> (edges g)\<^sup>* \<and> map_of start d = Some q \<longrightarrow> priority_rank p \<le> priority_rank q)"

lemma propagate_result:
  assumes "closed_graph g" and "distinct ordered" and "set ordered = set (dict_keys g)"
    and "prerequisites_first g ordered" and "set (dict_keys start) = set (dict_keys g)"
  shows "\<exists>out. propagate g (rev ordered) start = Inr out \<and>
    (\<forall>k. k \<in> set (dict_keys g) \<longrightarrow> (\<exists>p. map_of out k = Some p \<and> best_reaching g start k p))"
proof -
  have "propagated g start [] start" using assms(5) by (auto simp: propagated_def)
  then obtain out where out: "propagate g (rev ordered) start = Inr out" "propagated g start ordered out"
    using propagate_rest [OF assms(1), of "rev ordered" "[]" start start] assms(2-4) by auto
  have some: "map_of d k = Some (the (map_of d k))" if "set (dict_keys d) = set (dict_keys g)"
      "k \<in> set (dict_keys g)" for d :: priorities and k
    using that dict_get_None [of d k] by (cases "map_of d k") auto
  have keys: "set (dict_keys out) = set (dict_keys g)" using out(2) by (simp add: propagated_def)
  have edge: "priority_rank (the (map_of out c)) \<le> priority_rank (the (map_of out p))"
    if "(p, c) \<in> edges g" for p c
  proof -
    have "p \<in> set (dict_keys g)"
      using that dict_get_None [of g p] by (cases "map_of g p") (auto simp: edges_def children_def)
    then show ?thesis using out(2) that assms(3) by (auto simp: propagated_def edges_def)
  qed
  have path: "priority_rank (the (map_of out k)) \<le> priority_rank (the (map_of out d))"
    if "(d, k) \<in> (edges g)\<^sup>*" for d k
    using that by (induction rule: rtrancl_induct) (use edge order_trans in blast)+
  have "best_reaching g start k (the (map_of out k))" if k: "k \<in> set (dict_keys g)" for k
    unfolding best_reaching_def
  proof (intro conjI allI impI)
    show "\<exists>d. d \<in> set (dict_keys g) \<and> (d, k) \<in> (edges g)\<^sup>* \<and> map_of start d = Some (the (map_of out k))"
      using out(2) k some [OF assms(5)] unfolding propagated_def by metis
    fix d q
    assume d: "(d, k) \<in> (edges g)\<^sup>* \<and> map_of start d = Some q"
    then have "d \<in> set (dict_keys g)" using assms(5) dict_get_keys by metis
    then have "priority_rank (the (map_of out d)) \<le> priority_rank q"
      using out(2) d unfolding propagated_def by (metis option.sel)
    then show "priority_rank (the (map_of out k)) \<le> priority_rank q" using path d order_trans by blast
  qed
  then show ?thesis using out(1) some [OF keys] by blast
qed

lemma index_issues_result:
  assumes "distinct (dict_keys by_key @ map ti_issue_key issues)"
  shows "index_issues by_key issues = Inr (by_key @ map (\<lambda>i. (ti_issue_key i, i)) issues)"
  using assms
proof (induction issues arbitrary: by_key)
  case (Cons i issues)
  have "AList.update (ti_issue_key i) i by_key = by_key @ [(ti_issue_key i, i)]"
    by (rule dict_update_keys_new) (use Cons.prems in auto)
  then show ?case using Cons by simp
qed simp

lemma index_issues_duplicate:
  assumes "distinct (dict_keys by_key)" and "\<not> distinct (dict_keys by_key @ map ti_issue_key issues)"
  shows "\<exists>k. index_issues by_key issues = Inl (DuplicateIssue k)"
  using assms
proof (induction issues arbitrary: by_key)
  case (Cons i issues)
  show ?case
  proof (cases "ti_issue_key i \<in> set (dict_keys by_key)")
    case False
    then have "AList.update (ti_issue_key i) i by_key = by_key @ [(ti_issue_key i, i)]"
      by (rule dict_update_keys_new)
    then show ?thesis using Cons False by auto
  qed simp
qed simp

definition snapshot_edges :: "tracker_issue list \<Rightarrow> (string \<times> string) set" where
  "snapshot_edges issues =
     {(k, b). \<exists>i. i \<in> set issues \<and> ti_issue_key i = k \<and> b \<in> set (blocker_keys i)}"

definition complete_snapshot :: "tracker_issue list \<Rightarrow> bool" where
  "complete_snapshot issues \<longleftrightarrow>
     distinct (map ti_issue_key issues) \<and>
     (\<forall>i \<in> set issues. set (blocker_keys i) \<subseteq> set (map ti_issue_key issues))"

abbreviation keyed :: "tracker_issue list \<Rightarrow> (string, tracker_issue) pydict" where
  "keyed issues \<equiv> map (\<lambda>i. (ti_issue_key i, i)) issues"

lemma keyed_get:
  assumes "distinct (map ti_issue_key issues)"
  shows "map_of (keyed issues) k = Some i \<longleftrightarrow> i \<in> set issues \<and> ti_issue_key i = k"
proof -
  have "wf_dict (keyed issues)" using assms by (simp add: comp_def)
  then show ?thesis by (auto simp flip: dict_item_iff)
qed

lemma graph_children:
  assumes "distinct (map ti_issue_key issues)"
  shows "c \<in> set (children (dependency_graph (keyed issues)) k) \<longleftrightarrow> (k, c) \<in> snapshot_edges issues"
proof -
  have "map_of (dependency_graph (keyed issues)) k =
      map_option (\<lambda>i. fromkeys (blocker_keys i)) (map_of (keyed issues) k)"
    unfolding dependency_graph_def by (induction issues) auto
  then have ch: "children (dependency_graph (keyed issues)) k =
      (case map_of (keyed issues) k of None \<Rightarrow> [] | Some i \<Rightarrow> fromkeys (blocker_keys i))"
    by (simp add: children_def split: option.splits)
  show ?thesis
  proof (cases "map_of (keyed issues) k")
    case None
    then have "k \<notin> set (map ti_issue_key issues)" by (simp add: map_of_eq_None_iff comp_def image_image)
    then show ?thesis using None ch by (auto simp: snapshot_edges_def)
  next
    case (Some a)
    then have only: "i \<in> set issues \<Longrightarrow> ti_issue_key i = k \<Longrightarrow> i = a" for i
      using keyed_get [OF assms, of k i] by simp
    have "a \<in> set issues" "ti_issue_key a = k" using keyed_get [OF assms, of k a] Some by simp_all
    then have "(k, c) \<in> snapshot_edges issues \<longleftrightarrow> c \<in> set (blocker_keys a)"
      unfolding snapshot_edges_def using only by blast
    then show ?thesis using Some ch by simp
  qed
qed

lemma graph_edges:
  "distinct (map ti_issue_key issues) \<Longrightarrow>
     edges (dependency_graph (keyed issues)) = snapshot_edges issues"
  by (auto simp: edges_def graph_children)

lemma graph_keys: "dict_keys (dependency_graph (keyed issues)) = map ti_issue_key issues"
  by (simp add: dependency_graph_def)

lemma absent_Nil: "absent keys d = [] \<longleftrightarrow> set keys \<subseteq> set (dict_keys d)"
proof -
  have "absent keys d = [] \<longleftrightarrow> set (absent keys d) = {}" by simp
  then show ?thesis by (auto simp: absent_def)
qed

lemma graph_blockers:
  "set (concat (map snd (dependency_graph (keyed issues)))) = (\<Union>i \<in> set issues. set (blocker_keys i))"
  by (auto simp: dependency_graph_def)

lemma complete_closed:
  assumes "complete_snapshot issues"
  shows "closed_graph (dependency_graph (keyed issues))"
  using assms graph_children [of issues]
  unfolding closed_graph_def graph_keys complete_snapshot_def by (fastforce simp: snapshot_edges_def)

definition effective_in :: "tracker_issue list \<Rightarrow> string \<Rightarrow> issue_priority \<Rightarrow> bool" where
  "effective_in issues k p \<longleftrightarrow>
     (\<exists>d. d \<in> set issues \<and> (ti_issue_key d, k) \<in> (snapshot_edges issues)\<^sup>* \<and> ti_priority d = p) \<and>
     (\<forall>d. d \<in> set issues \<and> (ti_issue_key d, k) \<in> (snapshot_edges issues)\<^sup>* \<longrightarrow>
        priority_rank p \<le> priority_rank (ti_priority d))"

lemma best_effective:
  assumes "complete_snapshot issues"
    and "best_reaching (dependency_graph (keyed issues)) (map (\<lambda>(key, issue). (key, ti_priority issue)) (keyed issues)) k p"
  shows "effective_in issues k p"
proof -
  have d: "distinct (map ti_issue_key issues)" using assms(1) by (simp add: complete_snapshot_def)
  have get: "map_of (map (\<lambda>(key, issue). (key, ti_priority issue)) (keyed issues)) x = Some q \<longleftrightarrow>
      (\<exists>i. i \<in> set issues \<and> ti_issue_key i = x \<and> ti_priority i = q)" for x q
  proof -
    have "map_of (map (\<lambda>(key, issue). (key, ti_priority issue)) (keyed issues)) x =
        map_option ti_priority (map_of (keyed issues) x)"
      by (induction issues) auto
    then show ?thesis using keyed_get [OF d, of x] by auto
  qed
  show ?thesis
    using assms(2) unfolding best_reaching_def effective_in_def get graph_edges [OF d] by blast
qed

definition live_in :: "tracker_issue list \<Rightarrow> string list option \<Rightarrow> string \<Rightarrow> bool" where
  "live_in issues blocking b \<longleftrightarrow>
     (case blocking of
        None \<Rightarrow> list_ex (\<lambda>i. ti_issue_key i = b \<and> is_open (ti_state_kind i)) issues
      | Some keys \<Rightarrow> b \<in> set keys)"

definition live_blockers_of :: "tracker_issue list \<Rightarrow> string list option \<Rightarrow> tracker_issue \<Rightarrow> string list"
  where
  "live_blockers_of issues blocking i = filter (live_in issues blocking) (fromkeys (blocker_keys i))"

lemma live_among_issues:
  assumes "distinct (map ti_issue_key issues)" and "set blockers \<subseteq> set (map ti_issue_key issues)"
  shows "live_among (keyed issues) blocking blockers = Inr (filter (live_in issues blocking) blockers)"
  using assms(2)
proof (induction blockers)
  case (Cons b blockers)
  then obtain i where i: "i \<in> set issues" "ti_issue_key i = b" by auto
  then have get: "map_of (keyed issues) b = Some i" using keyed_get [OF assms(1), of b i] by simp
  have only: "j = i" if "j \<in> set issues" "ti_issue_key j = b" for j
    using keyed_get [OF assms(1), of b j] that get by simp
  have "list_ex (\<lambda>i. ti_issue_key i = b \<and> is_open (ti_state_kind i)) issues \<longleftrightarrow>
      is_open (ti_state_kind i)"
    unfolding list_ex_iff using i only by blast
  then have state: "blocking = None \<Longrightarrow> live_in issues blocking b \<longleftrightarrow> is_open (ti_state_kind i)"
    by (simp add: live_in_def)
  have "set blockers \<subseteq> set (map ti_issue_key issues)" using Cons.prems by simp
  note ih = Cons.IH [OF this]
  show ?case
  proof (cases blocking)
    case None
    show ?thesis using ih get state [OF None] unfolding None by (simp add: lookup_def)
  next
    case (Some keys)
    show ?thesis using ih unfolding Some by (simp add: live_in_def)
  qed
qed simp

lemma split_candidates_ok:
  assumes "set rest \<subseteq> set issues" and "complete_snapshot issues"
    and "\<forall>k. k \<in> set (map ti_issue_key issues) \<longrightarrow> map_of effective k = Some (eff k)"
  shows "split_candidates (keyed issues) (dependency_graph (keyed issues)) effective candidates blocking
      (keyed rest) =
    Inr (map (\<lambda>i. \<lparr>ri_issue = i, ri_effective_priority = eff (ti_issue_key i)\<rparr>)
           (filter (\<lambda>i. ti_issue_key i \<in> set candidates \<and> live_blockers_of issues blocking i = []) rest),
         map (\<lambda>i. \<lparr>bi_issue_key = ti_issue_key i, bi_blocker_keys = live_blockers_of issues blocking i\<rparr>)
           (filter (\<lambda>i. ti_issue_key i \<in> set candidates \<and> live_blockers_of issues blocking i \<noteq> []) rest))"
  using assms(1)
proof (induction rest)
  case (Cons i rest)
  have d: "distinct (map ti_issue_key issues)" using assms(2) by (simp add: complete_snapshot_def)
  have i: "i \<in> set issues" using Cons.prems by simp
  have "map_of (dependency_graph (keyed issues)) k = map_option (\<lambda>i. fromkeys (blocker_keys i))
      (map_of (keyed issues) k)" for k
    unfolding dependency_graph_def by (induction issues) auto
  then have g: "map_of (dependency_graph (keyed issues)) (ti_issue_key i) = Some (fromkeys (blocker_keys i))"
    using i keyed_get [OF d, of "ti_issue_key i" i] by simp
  have "set (blocker_keys i) \<subseteq> set (map ti_issue_key issues)"
    using assms(2) i by (simp add: complete_snapshot_def)
  then have live: "live_among (keyed issues) blocking (fromkeys (blocker_keys i)) =
      Inr (live_blockers_of issues blocking i)"
    using live_among_issues [OF d, of "fromkeys (blocker_keys i)" blocking]
    by (simp add: live_blockers_of_def)
  have "map_of effective (ti_issue_key i) = Some (eff (ti_issue_key i))" using assms(3) i by simp
  moreover have "set rest \<subseteq> set issues" using Cons.prems by simp
  note Cons.IH [OF this]
  ultimately show ?case using g live by (simp add: lookup_def)
qed simp

definition blocking_known :: "tracker_issue list \<Rightarrow> string list option \<Rightarrow> bool" where
  "blocking_known issues blocking \<longleftrightarrow>
     (case blocking of None \<Rightarrow> True | Some keys \<Rightarrow> set keys \<subseteq> set (map ti_issue_key issues))"

lemma plan_admitted:
  assumes "complete_snapshot issues" and "set candidates \<subseteq> set (map ti_issue_key issues)"
    and "blocking_known issues blocking"
  shows "plan_topology issues candidates blocking =
     bind_sum (acyclic_order (dependency_graph (keyed issues))) (\<lambda>ordered.
     bind_sum (propagate (dependency_graph (keyed issues)) (rev ordered)
         (map (\<lambda>(key, issue). (key, ti_priority issue)) (keyed issues))) (\<lambda>effective.
     bind_sum (split_candidates (keyed issues) (dependency_graph (keyed issues)) effective candidates
         blocking (keyed issues)) (\<lambda>(ready, blocked).
     Inr \<lparr>tp_ready = sort_key ready_rank ready, tp_blocked = blocked\<rparr>)))"
proof -
  have "index_issues [] issues = Inr (keyed issues)"
    using index_issues_result [of "[]" issues] assms(1) by (simp add: complete_snapshot_def)
  moreover have "absent candidates (keyed issues) = []"
    using assms(2) by (simp add: absent_Nil comp_def)
  moreover have "absent (concat (map snd (dependency_graph (keyed issues)))) (keyed issues) = []"
    using assms(1) unfolding absent_Nil graph_blockers by (auto simp: complete_snapshot_def)
  moreover have "\<not> (case blocking of None \<Rightarrow> False | Some keys \<Rightarrow> absent keys (keyed issues) \<noteq> [])"
    using assms(3) by (simp add: blocking_known_def absent_Nil comp_def split: option.splits)
  ultimately show ?thesis by (simp add: plan_topology_def Let_def)
qed

lemma plan_ranked:
  assumes "complete_snapshot issues" and "set candidates \<subseteq> set (map ti_issue_key issues)"
    and "blocking_known issues blocking"
    and "acyclic (snapshot_edges issues)"
  shows "\<exists>eff. plan_topology issues candidates blocking = Inr
      \<lparr>tp_ready = sort_key ready_rank
         (map (\<lambda>i. \<lparr>ri_issue = i, ri_effective_priority = eff (ti_issue_key i)\<rparr>)
           (filter (\<lambda>i. ti_issue_key i \<in> set candidates \<and> live_blockers_of issues blocking i = []) issues)),
       tp_blocked = map (\<lambda>i. \<lparr>bi_issue_key = ti_issue_key i, bi_blocker_keys = live_blockers_of issues blocking i\<rparr>)
         (filter (\<lambda>i. ti_issue_key i \<in> set candidates \<and> live_blockers_of issues blocking i \<noteq> []) issues)\<rparr>
    \<and> (\<forall>k. k \<in> set (map ti_issue_key issues) \<longrightarrow> effective_in issues k (eff k))"
proof -
  let ?g = "dependency_graph (keyed issues)"
  let ?start = "map (\<lambda>(key, issue). (key, ti_priority issue)) (keyed issues)"
  have d: "distinct (map ti_issue_key issues)" using assms(1) by (simp add: complete_snapshot_def)
  have closed: "closed_graph ?g" using assms(1) by (rule complete_closed)
  have "is_ok (acyclic_order ?g)"
    using acyclic_order_ok_iff [OF closed] assms(4) graph_edges [OF d] by simp
  then obtain ordered where o: "acyclic_order ?g = Inr ordered" by (cases "acyclic_order ?g") auto
  then have order: "distinct ordered" "set ordered = set (dict_keys ?g)" "prerequisites_first ?g ordered"
    using acyclic_order_result [OF closed] by simp_all
  have "set (dict_keys ?start) = set (dict_keys ?g)"
    unfolding graph_keys by (simp add: image_image)
  then obtain out where out: "propagate ?g (rev ordered) ?start = Inr out"
    and best: "\<forall>k. k \<in> set (dict_keys ?g) \<longrightarrow>
      (\<exists>p. map_of out k = Some p \<and> best_reaching ?g ?start k p)"
    using propagate_result [OF closed order] by blast
  define eff where "eff k = the (map_of out k)" for k
  have known: "map_of out k = Some (eff k)" and reach: "effective_in issues k (eff k)"
    if "k \<in> set (map ti_issue_key issues)" for k
    using best that best_effective [OF assms(1), of k] unfolding graph_keys eff_def by fastforce+
  note split = split_candidates_ok [OF subset_refl assms(1), of out eff candidates blocking]
  have "\<forall>k. k \<in> set (map ti_issue_key issues) \<longrightarrow> map_of out k = Some (eff k)" using known by blast
  from split [OF this] show ?thesis
    unfolding plan_admitted [OF assms(1-3)] o using out reach by auto
qed

lemma plan_refused:
  assumes "\<not> (complete_snapshot issues \<and> set candidates \<subseteq> set (map ti_issue_key issues) \<and>
    blocking_known issues blocking)"
  shows "\<exists>e. plan_topology issues candidates blocking = Inl e \<and> (\<forall>ks. e \<noteq> ScopeCycle ks) \<and>
    (\<forall>k. e \<noteq> GraphKeyError k)"
proof (cases "distinct (map ti_issue_key issues)")
  case False
  then show ?thesis using index_issues_duplicate [of "[]" issues] by (auto simp: plan_topology_def)
next
  case True
  then have "index_issues [] issues = Inr (keyed issues)"
    using index_issues_result [of "[]" issues] by simp
  then show ?thesis
    using assms True graph_blockers [of issues]
    by (auto simp: plan_topology_def Let_def absent_Nil blocking_known_def complete_snapshot_def
        comp_def split: option.splits)
qed

lemma plan_cycle:
  assumes "complete_snapshot issues" and "set candidates \<subseteq> set (map ti_issue_key issues)"
    and "blocking_known issues blocking" and "\<not> acyclic (snapshot_edges issues)"
  shows "\<exists>ks. plan_topology issues candidates blocking = Inl (ScopeCycle ks) \<and>
    real_cycle (dependency_graph (keyed issues)) ks"
proof -
  let ?g = "dependency_graph (keyed issues)"
  have d: "distinct (map ti_issue_key issues)" using assms(1) by (simp add: complete_snapshot_def)
  have closed: "closed_graph ?g" using assms(1) by (rule complete_closed)
  have "\<not> is_ok (acyclic_order ?g)"
    using acyclic_order_ok_iff [OF closed] assms(4) graph_edges [OF d] by simp
  then obtain e where "acyclic_order ?g = Inl e" by (cases "acyclic_order ?g") auto
  then show ?thesis
    using acyclic_order_result [OF closed] unfolding plan_admitted [OF assms(1-3)] by auto
qed

text \<open>Claim C31. A snapshot is planned exactly when no issue appears twice, every candidate, every named
  blocking issue and every blocker is one of its issues, and the blocker relation has no cycle; a cycle is
  refused with a closed walk of that very relation, without repetition; no lookup the planner makes can
  fail.\<close>

theorem plan_topology_refuses_exactly:
  "(is_ok (plan_topology issues candidates blocking) \<longleftrightarrow>
      complete_snapshot issues \<and> set candidates \<subseteq> set (map ti_issue_key issues) \<and>
      blocking_known issues blocking \<and> acyclic (snapshot_edges issues)) \<and>
   (\<forall>ks. plan_topology issues candidates blocking = Inl (ScopeCycle ks) \<longrightarrow>
      ks \<noteq> [] \<and> distinct ks \<and>
      successively (\<lambda>a b. (a, b) \<in> snapshot_edges issues) (ks @ [hd ks])) \<and>
   (\<forall>k. plan_topology issues candidates blocking \<noteq> Inl (GraphKeyError k))"
proof (cases "complete_snapshot issues \<and> set candidates \<subseteq> set (map ti_issue_key issues) \<and>
    blocking_known issues blocking")
  case False
  then show ?thesis using plan_refused [OF False] by auto
next
  case True
  then have d: "distinct (map ti_issue_key issues)" by (simp add: complete_snapshot_def)
  show ?thesis
  proof (cases "acyclic (snapshot_edges issues)")
    case True
    then show ?thesis
      using plan_ranked [of issues candidates blocking] \<open>complete_snapshot issues \<and> _\<close> by auto
  next
    case False
    then show ?thesis
      using plan_cycle [of issues candidates blocking] \<open>complete_snapshot issues \<and> _\<close>
      by (auto simp: real_cycle_def graph_children [OF d])
  qed
qed

text \<open>A lane of three: the second waits for the first, which is open, and lifts its priority; the third
  waits for itself in the cyclic variant.\<close>

definition sample_issue ::
  "string \<Rightarrow> issue_priority \<Rightarrow> workflow_state_kind \<Rightarrow> string list \<Rightarrow> instant \<Rightarrow> tracker_issue" where
  "sample_issue key priority state blockers created =
     \<lparr>ti_issue_key = key, ti_title = key, ti_body = '''', ti_priority = priority, ti_state_name = '''',
      ti_state_kind = state, ti_queue_states = [], ti_issue_labels = [], ti_team_key = None,
      ti_project = None, ti_project_id = None, ti_milestone_key = None,
      ti_relations = map (\<lambda>b. \<lparr>ir_kind = BlockedBy, ir_issue_key = b\<rparr>) blockers,
      ti_parent_key = None, ti_assignee_key = None, ti_created_at = created, ti_updated_at = created,
      ti_url = ''''\<rparr>"

definition sample_snapshot :: "tracker_issue list" where
  "sample_snapshot =
     [sample_issue ''a'' Low UnstartedState [] 1, sample_issue ''b'' Urgent UnstartedState [''a''] 2,
      sample_issue ''c'' High UnstartedState [] 3]"

definition sample_ring :: "tracker_issue list" where
  "sample_ring =
     [sample_issue ''a'' Low UnstartedState [''b''] 1, sample_issue ''b'' Urgent UnstartedState [''a''] 2]"

lemma plan_topology_refuses_exactly_witness:
  "is_ok (plan_topology sample_snapshot [''a'', ''b'', ''c''] None) \<and>
   acyclic (snapshot_edges sample_snapshot) \<and>
   plan_topology sample_ring [''a''] None = Inl (ScopeCycle [''a'', ''b'']) \<and>
   \<not> acyclic (snapshot_edges sample_ring)"
proof -
  have "is_ok (plan_topology sample_snapshot [''a'', ''b'', ''c''] None)" by code_simp
  moreover have "plan_topology sample_ring [''a''] None = Inl (ScopeCycle [''a'', ''b''])" by code_simp
  moreover have "complete_snapshot sample_ring" "set [''a''] \<subseteq> set (map ti_issue_key sample_ring)"
    "blocking_known sample_ring None" by code_simp+
  ultimately show ?thesis
    using plan_topology_refuses_exactly [of sample_snapshot "[''a'', ''b'', ''c'']" None]
      plan_topology_refuses_exactly [of sample_ring "[''a'']" None] by simp
qed

text \<open>Claim C13. A plan ranks exactly the candidates none of whose blockers is live, by effective priority and
  then age with ties in snapshot order, each with the most urgent priority among the issues it transitively
  blocks and itself; the other candidates are listed with exactly their live blockers.\<close>

theorem plan_topology_ranks:
  assumes "plan_topology issues candidates blocking = Inr p"
  shows "\<exists>eff.
    tp_ready p = sort_key ready_rank
      (map (\<lambda>i. \<lparr>ri_issue = i, ri_effective_priority = eff (ti_issue_key i)\<rparr>)
        (filter (\<lambda>i. ti_issue_key i \<in> set candidates \<and> live_blockers_of issues blocking i = []) issues)) \<and>
    tp_blocked p =
      map (\<lambda>i. \<lparr>bi_issue_key = ti_issue_key i, bi_blocker_keys = live_blockers_of issues blocking i\<rparr>)
        (filter (\<lambda>i. ti_issue_key i \<in> set candidates \<and> live_blockers_of issues blocking i \<noteq> []) issues) \<and>
    (\<forall>k. k \<in> set (map ti_issue_key issues) \<longrightarrow> effective_in issues k (eff k))"
proof -
  have admitted: "complete_snapshot issues" "set candidates \<subseteq> set (map ti_issue_key issues)"
    "blocking_known issues blocking"
    using assms plan_refused [of issues candidates blocking] by auto
  have "acyclic (snapshot_edges issues)"
    using assms plan_cycle [OF admitted] by auto
  then show ?thesis using plan_ranked [OF admitted] assms by auto
qed

lemma plan_topology_ranks_witness:
  "\<exists>p. plan_topology sample_snapshot [''b'', ''a'', ''c''] None = Inr p \<and>
     map (ti_issue_key \<circ> ri_issue) (tp_ready p) = [''a'', ''c''] \<and>
     map ri_effective_priority (tp_ready p) = [Urgent, High] \<and>
     (\<exists>eff. effective_in sample_snapshot ''a'' (eff ''a'')) \<and>
     tp_blocked p = [\<lparr>bi_issue_key = ''b'', bi_blocker_keys = [''a'']\<rparr>]"
proof -
  let ?plan = "plan_topology sample_snapshot [''b'', ''a'', ''c''] None"
  have shape: "case ?plan of Inl _ \<Rightarrow> False | Inr p \<Rightarrow>
      map (ti_issue_key \<circ> ri_issue) (tp_ready p) = [''a'', ''c''] \<and>
      map ri_effective_priority (tp_ready p) = [Urgent, High] \<and>
      tp_blocked p = [\<lparr>bi_issue_key = ''b'', bi_blocker_keys = [''a'']\<rparr>]"
    by code_simp
  then obtain p where p: "?plan = Inr p" by (cases ?plan) auto
  have "''a'' \<in> set (map ti_issue_key sample_snapshot)" by code_simp
  then show ?thesis using plan_topology_ranks [OF p] shape p by auto
qed

end
