(* ===== verification/BaseResolution.thy ===== *)
theory BaseResolution
  imports Tracker
begin

section \<open>The base a lane is dispatched on\<close>

text \<open>
  \<^verbatim>\<open>types/domain/branch.py\<close>, \<^verbatim>\<open>domain/base_resolution.py\<close>,
  \<^verbatim>\<open>domain/base_staleness.py\<close> and \<^verbatim>\<open>services/base_resolver.py\<close>: the refs an issue
  carries, the rule from the blockers' deliverable refs to one base, and the service that reads the
  graph, asks git which refs contain which and builds the integration ref. The tracker is a finite
  board of issues (reading an absent one raises), the recorded refs and git are functions of the
  caller; SHA-256 is a parameter.
\<close>

subsection \<open>Refs and bases\<close>

datatype work_ref_role = DeliverableRef | IterationRef | RecoveryRef | BestIterationRef | IntegrationRef

datatype branch_role = DeliverableBranch | LoopBranch | RecoveryBranch

record branch_association =
  ba_branch :: string
  ba_role :: branch_role
  ba_derived_from :: "string option"
  ba_run_id :: string

definition valid_association :: "branch_association \<Rightarrow> bool" where
  "valid_association a \<longleftrightarrow>
     ba_branch a \<noteq> [] \<and> ba_derived_from a \<noteq> Some [] \<and> ba_run_id a \<noteq> []"

datatype work_ref_landing = Landed | NotLanded | LandingUnknown

record work_ref =
  wr_issue_id :: string
  wr_role :: work_ref_role
  wr_branch :: string
  wr_pushed_head_sha :: "string option"
  wr_landing :: work_ref_landing
  wr_recorded_at :: instant

definition work_ref_identity ::
  "work_ref \<Rightarrow> string \<times> work_ref_role \<times> string \<times> string option \<times> work_ref_landing" where
  "work_ref_identity r =
     (wr_issue_id r, wr_role r, wr_branch r, wr_pushed_head_sha r, wr_landing r)"

record base_input =
  bin_blocker_issue_id :: string
  bin_branch :: string
  bin_sha :: string

record base_spec =
  bs_inputs :: "base_input list"
  bs_base_branch :: string
  bs_base_role :: "work_ref_role option"

definition trunk_base :: "string \<Rightarrow> base_spec" where
  "trunk_base branch = \<lparr>bs_inputs = [], bs_base_branch = branch, bs_base_role = None\<rparr>"

fun join :: "string \<Rightarrow> string list \<Rightarrow> string" where
  "join sep [] = []"
| "join sep [x] = x"
| "join sep (x # xs) = x @ sep @ join sep xs"

definition newline :: string where "newline = [CHR 0x0A]"

definition tab :: string where "tab = [CHR 0x09]"

definition digest_of :: "(string \<Rightarrow> string) \<Rightarrow> base_input list \<Rightarrow> string" where
  "digest_of sha256 inputs =
     sha256 (join newline (map (\<lambda>i. bin_blocker_issue_id i @ tab @ bin_branch i @ tab @ bin_sha i) inputs))"

definition integration_branch_name :: "(string \<Rightarrow> string) \<Rightarrow> string \<Rightarrow> base_input list \<Rightarrow> string" where
  "integration_branch_name sha256 issue_id inputs =
     issue_id @ ''-integration-'' @ digest_of sha256 inputs"

definition is_base_stale :: "base_spec \<Rightarrow> base_spec \<Rightarrow> bool" where
  "is_base_stale recorded implied \<longleftrightarrow> recorded \<noteq> implied"

subsection \<open>The rule\<close>

record base_plan =
  bp_spec :: base_spec
  bp_branch_point :: "string option"
  bp_merge_inputs :: "string list"

definition requires_construction :: "base_plan \<Rightarrow> bool" where
  "requires_construction p \<longleftrightarrow> bp_branch_point p \<noteq> None"

fun setdefaults :: "(string, base_input) pydict \<Rightarrow> base_input list \<Rightarrow> (string, base_input) pydict" where
  "setdefaults by_branch [] = by_branch"
| "setdefaults by_branch (item # items) =
     setdefaults
       (if bin_branch item \<in> set (dict_keys by_branch) then by_branch
        else AList.update (bin_branch item) item by_branch) items"

definition deduped :: "base_input list \<Rightarrow> base_input list" where
  "deduped blocker_inputs =
     sort_key bin_blocker_issue_id
       (dict_values (setdefaults [] (sort_key bin_blocker_issue_id blocker_inputs)))"

definition frontier :: "base_input list \<Rightarrow> (string \<times> string) list \<Rightarrow> base_input list" where
  "frontier ordered containment =
     filter (\<lambda>item. \<not> list_ex (\<lambda>other. bin_branch other \<noteq> bin_branch item \<and>
       (bin_branch item, bin_branch other) \<in> set containment) ordered) ordered"

definition combine :: "(string \<Rightarrow> string) \<Rightarrow> string \<Rightarrow> base_input list \<Rightarrow> string \<Rightarrow> base_plan" where
  "combine sha256 issue_id inputs trunk =
     (case inputs of
        [] \<Rightarrow>
          \<lparr>bp_spec = \<lparr>bs_inputs = [], bs_base_branch = trunk, bs_base_role = None\<rparr>,
           bp_branch_point = None, bp_merge_inputs = []\<rparr>
      | [head] \<Rightarrow>
          \<lparr>bp_spec = \<lparr>bs_inputs = inputs, bs_base_branch = bin_branch head,
                     bs_base_role = Some DeliverableRef\<rparr>,
           bp_branch_point = None, bp_merge_inputs = []\<rparr>
      | head # tail \<Rightarrow>
          \<lparr>bp_spec = \<lparr>bs_inputs = inputs,
                     bs_base_branch = integration_branch_name sha256 issue_id inputs,
                     bs_base_role = Some IntegrationRef\<rparr>,
           bp_branch_point = Some (bin_branch head), bp_merge_inputs = map bin_branch tail\<rparr>)"

definition resolve_base ::
  "(string \<Rightarrow> string) \<Rightarrow> string \<Rightarrow> base_input list \<Rightarrow> (string \<times> string) list \<Rightarrow> string \<Rightarrow> base_plan" where
  "resolve_base sha256 issue_id blocker_inputs containment trunk =
     combine sha256 issue_id (frontier (deduped blocker_inputs) containment) trunk"

subsection \<open>What the rule keeps\<close>

lemma setdefaults_get:
  "map_of (setdefaults d items) b =
     (case map_of d b of Some i \<Rightarrow> Some i | None \<Rightarrow> find (\<lambda>i. bin_branch i = b) items)"
proof (induction items arbitrary: d)
  case (Cons i items)
  show ?case
  proof (cases "bin_branch i \<in> set (dict_keys d)")
    case True
    then have "map_of d b = None \<Longrightarrow> bin_branch i \<noteq> b" by (auto simp: dict_get_None)
    then show ?thesis using True by (simp add: Cons split: option.splits)
  next
    case False
    then have "map_of d (bin_branch i) = None" by (simp add: dict_get_None)
    then show ?thesis using False
      by (simp add: Cons update_conv' fun_upd_def split: option.splits)
  qed
qed (simp split: option.splits)

lemma wf_setdefaults: "wf_dict d \<Longrightarrow> wf_dict (setdefaults d items)"
  by (induction items arbitrary: d) (simp_all add: dict_simps)

lemma setdefaults_values:
  "i \<in> set (dict_values (setdefaults [] items)) \<longleftrightarrow> find (\<lambda>j. bin_branch j = bin_branch i) items = Some i"
proof -
  let ?d = "setdefaults [] items"
  have wf: "wf_dict ?d" by (rule wf_setdefaults) simp
  have get: "map_of ?d b = find (\<lambda>j. bin_branch j = b) items" for b
    using setdefaults_get [of "[]" items b] by simp
  have "i \<in> set (dict_values ?d) \<longleftrightarrow> (\<exists>b. map_of ?d b = Some i)"
    by (rule dict_values_iff [OF wf])
  then show ?thesis unfolding get by (auto simp: find_Some_iff)
qed

lemma find_sorted_key:
  assumes "sorted (map f xs)"
  shows "find P xs = Some i \<Longrightarrow> i \<in> set xs \<and> P i \<and> (\<forall>j \<in> set xs. P j \<longrightarrow> f i \<le> f j)"
proof -
  assume "find P xs = Some i"
  then obtain n where n: "n < length xs" "P (xs ! n)" "i = xs ! n" "\<And>m. m < n \<Longrightarrow> \<not> P (xs ! m)"
    by (auto simp: find_Some_iff)
  have "f i \<le> f j" if j: "j \<in> set xs" "P j" for j
  proof -
    obtain m where m: "m < length xs" "j = xs ! m" using j(1) by (auto simp: in_set_conv_nth)
    then have "n \<le> m" using n(4) j(2) by (meson not_le_imp_less)
    then show ?thesis using sorted_nth_mono [OF assms, of n m] n m by simp
  qed
  then show ?thesis using n by auto
qed

lemma deduped_branches:
  "bin_branch ` set (deduped inputs) = bin_branch ` set inputs"
  "set (deduped inputs) \<subseteq> set inputs"
  "inj_on bin_branch (set (deduped inputs))"
proof -
  have in_deduped: "i \<in> set (deduped inputs) \<longleftrightarrow>
      find (\<lambda>j. bin_branch j = bin_branch i) (sort_key bin_blocker_issue_id inputs) = Some i" for i
    unfolding deduped_def set_sort setdefaults_values by simp
  show sub: "set (deduped inputs) \<subseteq> set inputs"
    using in_deduped by (metis find_Some_iff nth_mem set_sort subsetI)
  show "inj_on bin_branch (set (deduped inputs))"
    by (rule inj_onI) (metis in_deduped option.sel)
  show "bin_branch ` set (deduped inputs) = bin_branch ` set inputs"
  proof (intro subset_antisym subsetI)
    fix b assume "b \<in> bin_branch ` set inputs"
    then have "find (\<lambda>j. bin_branch j = b) (sort_key bin_blocker_issue_id inputs) \<noteq> None"
      unfolding find_None_iff_all by auto
    then obtain i where i: "find (\<lambda>j. bin_branch j = b) (sort_key bin_blocker_issue_id inputs) = Some i"
      by blast
    then have "bin_branch i = b" by (auto simp: find_Some_iff)
    moreover from this i have "i \<in> set (deduped inputs)" unfolding in_deduped by simp
    ultimately show "b \<in> bin_branch ` set (deduped inputs)" by blast
  qed (use sub in auto)
qed

definition one_ref_each :: "base_input list \<Rightarrow> bool" where
  "one_ref_each inputs \<longleftrightarrow>
     (\<forall>i \<in> set inputs. \<forall>j \<in> set inputs. bin_blocker_issue_id i = bin_blocker_issue_id j \<longrightarrow> i = j)"

lemma deduped_least:
  assumes "one_ref_each inputs"
  shows "set (deduped inputs) = {i \<in> set inputs.
    \<forall>j \<in> set inputs. bin_branch j = bin_branch i \<longrightarrow> bin_blocker_issue_id i \<le> bin_blocker_issue_id j}"
proof -
  let ?xs = "sort_key bin_blocker_issue_id inputs"
  have in_deduped: "i \<in> set (deduped inputs) \<longleftrightarrow> find (\<lambda>j. bin_branch j = bin_branch i) ?xs = Some i" for i
    unfolding deduped_def set_sort setdefaults_values by simp
  note first = find_sorted_key [of bin_blocker_issue_id ?xs]
  have "find (\<lambda>j. bin_branch j = bin_branch i) ?xs = Some i"
    if i: "i \<in> set inputs" and least: "\<forall>j \<in> set inputs. bin_branch j = bin_branch i \<longrightarrow>
      bin_blocker_issue_id i \<le> bin_blocker_issue_id j" for i
  proof -
    have "find (\<lambda>j. bin_branch j = bin_branch i) ?xs \<noteq> None" using i by (auto simp: find_None_iff_all)
    then obtain k where k: "find (\<lambda>j. bin_branch j = bin_branch i) ?xs = Some k" by blast
    then have "k \<in> set inputs" "bin_branch k = bin_branch i"
      "bin_blocker_issue_id k \<le> bin_blocker_issue_id i" using first [OF _ k] i by auto
    then show ?thesis using least k assms i by (metis one_ref_each_def order_antisym)
  qed
  moreover have "i \<in> set inputs \<and> (\<forall>j \<in> set inputs. bin_branch j = bin_branch i \<longrightarrow>
      bin_blocker_issue_id i \<le> bin_blocker_issue_id j)"
    if "find (\<lambda>j. bin_branch j = bin_branch i) ?xs = Some i" for i
    using first [OF _ that] by simp
  ultimately show ?thesis unfolding set_eq_iff in_deduped by blast
qed

lemma deduped_order:
  "sorted (map bin_blocker_issue_id (deduped inputs))" "distinct (deduped inputs)"
proof -
  let ?d = "setdefaults [] (sort_key bin_blocker_issue_id inputs)"
  have wf: "wf_dict ?d" by (rule wf_setdefaults) simp
  have key: "bin_branch i = b" if "(b, i) \<in> set ?d" for b i
  proof -
    have "map_of ?d b = Some i" using dict_item_iff [OF wf] that by blast
    then show ?thesis unfolding setdefaults_get by (auto simp: find_Some_iff)
  qed
  have "inj_on snd (set ?d)"
  proof (rule inj_onI)
    fix x y assume xy: "x \<in> set ?d" "y \<in> set ?d" "snd x = snd y"
    then have "bin_branch (snd x) = fst x" "bin_branch (snd y) = fst y" by (metis key prod.collapse)+
    then show "x = y" using xy(3) by (simp add: prod_eq_iff)
  qed
  then have "distinct (dict_values ?d)" using wf by (simp add: distinct_map)
  then show "distinct (deduped inputs)" by (simp add: deduped_def)
qed (simp add: deduped_def)

lemma deduped_set_determines:
  assumes "one_ref_each inputs" and "set inputs' = set inputs"
  shows "deduped inputs' = deduped inputs"
proof -
  have each: "one_ref_each inputs'" using assms by (simp add: one_ref_each_def)
  have same: "set (deduped inputs') = set (deduped inputs)"
    unfolding deduped_least [OF assms(1)] deduped_least [OF each] assms(2) ..
  have "inj_on bin_blocker_issue_id (set (deduped inputs))"
    using assms(1) deduped_branches(2) [of inputs] unfolding one_ref_each_def inj_on_def by blast
  then show ?thesis
    using deduped_order [of inputs] deduped_order [of inputs'] same
    by (intro map_sorted_distinct_set_unique [of bin_blocker_issue_id]) (simp_all add: distinct_map)
qed

definition shadowed :: "base_input list \<Rightarrow> (string \<times> string) list \<Rightarrow> base_input \<Rightarrow> bool" where
  "shadowed inputs containment i \<longleftrightarrow>
     (\<exists>j \<in> set inputs. bin_branch j \<noteq> bin_branch i \<and> (bin_branch i, bin_branch j) \<in> set containment)"

lemma deduped_ex: "(\<exists>j \<in> set (deduped inputs). P (bin_branch j)) \<longleftrightarrow> (\<exists>j \<in> set inputs. P (bin_branch j))"
proof -
  have "(\<exists>b \<in> bin_branch ` set (deduped inputs). P b) \<longleftrightarrow> (\<exists>b \<in> bin_branch ` set inputs. P b)"
    unfolding deduped_branches(1) ..
  then show ?thesis by simp
qed

lemma frontier_set:
  "set (frontier (deduped inputs) containment) =
     {i \<in> set (deduped inputs). \<not> shadowed inputs containment i}"
  unfolding frontier_def list_ex_iff shadowed_def set_filter
    deduped_ex [of inputs "\<lambda>b. b \<noteq> bin_branch _ \<and> (bin_branch _, b) \<in> set containment"] ..

lemma frontier_Nil:
  "frontier (deduped inputs) containment = [] \<longleftrightarrow> (\<forall>i \<in> set inputs. shadowed inputs containment i)"
proof -
  have "frontier (deduped inputs) containment = [] \<longleftrightarrow> (\<forall>i \<in> set (deduped inputs). shadowed inputs containment i)"
    unfolding set_empty [symmetric] frontier_set by blast
  also have "\<dots> \<longleftrightarrow> \<not> (\<exists>i \<in> set (deduped inputs). \<not> shadowed inputs containment i)" by blast
  also have "\<dots> \<longleftrightarrow> \<not> (\<exists>i \<in> set inputs. \<not> shadowed inputs containment i)"
    unfolding shadowed_def by (simp only: deduped_ex [of inputs "\<lambda>b. \<not> (\<exists>j \<in> set inputs.
      bin_branch j \<noteq> b \<and> (b, bin_branch j) \<in> set containment)"])
  finally show ?thesis by blast
qed

lemma combine_spec:
  "bs_inputs (bp_spec (combine sha256 issue_id inputs trunk)) = inputs"
  "bp_spec (combine sha256 issue_id inputs trunk) = trunk_base trunk \<longleftrightarrow> inputs = []"
  "requires_construction (combine sha256 issue_id inputs trunk) \<longleftrightarrow> 1 < length inputs"
  by (auto simp: combine_def trunk_base_def requires_construction_def split: list.splits)

text \<open>Claim C32. The base is the trunk exactly when every recorded ref is contained in another of them:
  besides the lane without blockers that is every set of distinct refs at one commit, each of which git
  reports as contained in the other.\<close>

theorem trunk_base_iff_all_shadowed:
  "bp_spec (resolve_base sha256 issue_id inputs containment trunk) = trunk_base trunk \<longleftrightarrow>
     (\<forall>i \<in> set inputs. \<exists>j \<in> set inputs.
        bin_branch j \<noteq> bin_branch i \<and> (bin_branch i, bin_branch j) \<in> set containment)"
  unfolding resolve_base_def combine_spec frontier_Nil shadowed_def ..

theorem trunk_base_iff_all_shadowed_witness:
  "bp_spec (resolve_base (\<lambda>s. s) ''K-9''
      [\<lparr>bin_blocker_issue_id = ''K-1'', bin_branch = ''kodezart/K-1'', bin_sha = ''c0ffee''\<rparr>,
       \<lparr>bin_blocker_issue_id = ''K-2'', bin_branch = ''kodezart/K-2'', bin_sha = ''c0ffee''\<rparr>]
      [(''kodezart/K-1'', ''kodezart/K-2''), (''kodezart/K-2'', ''kodezart/K-1'')] ''main'') =
    trunk_base ''main''"
  unfolding trunk_base_iff_all_shadowed by simp

definition strict_containment :: "(string \<times> string) list \<Rightarrow> bool" where
  "strict_containment containment \<longleftrightarrow>
     (\<forall>a b. (a, b) \<in> set containment \<longrightarrow> a \<noteq> b \<longrightarrow> (b, a) \<notin> set containment) \<and>
     (\<forall>a b c. (a, b) \<in> set containment \<longrightarrow> (b, c) \<in> set containment \<longrightarrow> (a, c) \<in> set containment)"

lemma frontier_covers:
  assumes "strict_containment containment" and "i \<in> set inputs"
  shows "\<exists>f \<in> set (frontier (deduped inputs) containment).
    bin_branch f = bin_branch i \<or> (bin_branch i, bin_branch f) \<in> set containment"
proof -
  define R where "R = {(b, a). (a, b) \<in> set containment \<and> a \<noteq> b}"
  have "trans R" "irrefl R"
    using assms(1) unfolding R_def strict_containment_def trans_def irrefl_def by blast+
  then have "acyclic R" by (simp add: acyclic_irrefl)
  moreover have "finite R"
    by (rule finite_subset [of _ "(\<lambda>(a, b). (b, a)) ` set containment"]) (auto simp: R_def)
  ultimately have "wf R" by (rule finite_acyclic_wf [rotated])
  then show ?thesis
    using assms(2)
  proof (induction "bin_branch i" arbitrary: i rule: wf_induct_rule)
    case less
    show ?case
    proof (cases "shadowed inputs containment i")
      case True
      then obtain j where j: "j \<in> set inputs" "(bin_branch j, bin_branch i) \<in> R"
        by (auto simp: shadowed_def R_def)
      obtain f where f: "f \<in> set (frontier (deduped inputs) containment)"
        "bin_branch f = bin_branch j \<or> (bin_branch j, bin_branch f) \<in> set containment"
        using less(1) [OF j(2) j(1)] by blast
      have ij: "(bin_branch i, bin_branch j) \<in> set containment" using j(2) by (simp add: R_def)
      then have "bin_branch f = bin_branch j \<Longrightarrow> (bin_branch i, bin_branch f) \<in> set containment" by simp
      moreover have "(bin_branch j, bin_branch f) \<in> set containment \<Longrightarrow>
          (bin_branch i, bin_branch f) \<in> set containment"
        using assms(1) ij unfolding strict_containment_def by blast
      ultimately show ?thesis using f by blast
    next
      case False
      obtain f where f: "f \<in> set (deduped inputs)" "bin_branch f = bin_branch i"
        using deduped_ex [of inputs "\<lambda>b. b = bin_branch i"] less(2) by blast
      then have "\<not> shadowed inputs containment f" using False by (simp add: shadowed_def)
      then show ?thesis using f frontier_set by blast
    qed
  qed
qed

text \<open>The base is a function of the set of contributions: neither the order the graph was read in
  nor a blocker named twice changes it.\<close>

lemma base_ignores_read_order:
  assumes "one_ref_each inputs" and "set inputs' = set inputs"
  shows "resolve_base sha256 issue_id inputs' containment trunk =
    resolve_base sha256 issue_id inputs containment trunk"
  by (simp only: resolve_base_def deduped_set_determines [OF assms])

lemma base_ignores_read_order_witness:
  "resolve_base (\<lambda>s. s) ''K-9''
      [\<lparr>bin_blocker_issue_id = ''K-2'', bin_branch = ''b'', bin_sha = ''2''\<rparr>,
       \<lparr>bin_blocker_issue_id = ''K-1'', bin_branch = ''a'', bin_sha = ''1''\<rparr>,
       \<lparr>bin_blocker_issue_id = ''K-2'', bin_branch = ''b'', bin_sha = ''2''\<rparr>] [] ''main'' =
    resolve_base (\<lambda>s. s) ''K-9''
      [\<lparr>bin_blocker_issue_id = ''K-1'', bin_branch = ''a'', bin_sha = ''1''\<rparr>,
       \<lparr>bin_blocker_issue_id = ''K-2'', bin_branch = ''b'', bin_sha = ''2''\<rparr>] [] ''main''"
  by (rule base_ignores_read_order) (auto simp: one_ref_each_def)

text \<open>Claim C20. When containment is strict (no two distinct refs at one commit) nothing a blocker delivered
  is lost: every contribution is an input of the base or contained in one, the inputs are ordered by
  blocker, distinct and pairwise uncontained, the trunk is used only without blockers and a ref is built
  exactly when two inputs remain.\<close>

theorem base_covers_every_premise:
  assumes "strict_containment containment"
  shows "(let spec = bp_spec (resolve_base sha256 issue_id inputs containment trunk) in
     (\<forall>i \<in> set inputs. \<exists>f \<in> set (bs_inputs spec).
        bin_branch f = bin_branch i \<or> (bin_branch i, bin_branch f) \<in> set containment) \<and>
     set (bs_inputs spec) \<subseteq> set inputs \<and>
     sorted (map bin_blocker_issue_id (bs_inputs spec)) \<and>
     distinct (map bin_branch (bs_inputs spec)) \<and>
     (\<forall>f \<in> set (bs_inputs spec). \<forall>h \<in> set (bs_inputs spec).
        bin_branch f \<noteq> bin_branch h \<longrightarrow> (bin_branch f, bin_branch h) \<notin> set containment) \<and>
     (spec = trunk_base trunk \<longleftrightarrow> inputs = []) \<and>
     (requires_construction (resolve_base sha256 issue_id inputs containment trunk) \<longleftrightarrow>
        1 < length (bs_inputs spec)))"
proof -
  let ?f = "frontier (deduped inputs) containment"
  have sub: "set ?f \<subseteq> set inputs"
    using deduped_branches(2) [of inputs] unfolding frontier_set by blast
  have uncontained: "(bin_branch f, bin_branch h) \<notin> set containment"
    if "f \<in> set ?f" "h \<in> set ?f" "bin_branch f \<noteq> bin_branch h" for f h
  proof -
    have "\<not> shadowed inputs containment f" using that(1) unfolding frontier_set by blast
    moreover have "h \<in> set inputs" using that(2) sub by blast
    ultimately show ?thesis using that(3) unfolding shadowed_def by metis
  qed
  have "inj_on bin_branch (set ?f)"
    using deduped_branches(3) [of inputs] by (rule inj_on_subset) (auto simp: frontier_def)
  moreover have "distinct ?f" using deduped_order(2) [of inputs] by (simp add: frontier_def)
  ultimately have dist: "distinct (map bin_branch ?f)" by (simp add: distinct_map)
  have sorted: "sorted (map bin_blocker_issue_id ?f)"
    using deduped_order(1) [of inputs] by (simp add: frontier_def sorted_filter)
  have "?f = [] \<longleftrightarrow> inputs = []"
  proof
    assume "?f = []"
    then have "i \<notin> set inputs" for i using frontier_covers [OF assms, of i inputs] by auto
    then show "inputs = []" by (cases inputs) auto
  qed (simp add: frontier_def deduped_def)
  then show ?thesis
    using frontier_covers [OF assms] sub sorted dist uncontained
    unfolding Let_def resolve_base_def combine_spec by blast
qed

lemma base_covers_every_premise_witness:
  "bs_inputs (bp_spec (resolve_base (\<lambda>s. s) ''K-9''
      [\<lparr>bin_blocker_issue_id = ''K-2'', bin_branch = ''b'', bin_sha = ''2''\<rparr>,
       \<lparr>bin_blocker_issue_id = ''K-1'', bin_branch = ''a'', bin_sha = ''1''\<rparr>] [(''a'', ''b'')] ''main'')) =
     [\<lparr>bin_blocker_issue_id = ''K-2'', bin_branch = ''b'', bin_sha = ''2''\<rparr>] \<and>
   bp_spec (resolve_base (\<lambda>s. s) ''K-9''
      [\<lparr>bin_blocker_issue_id = ''K-2'', bin_branch = ''b'', bin_sha = ''2''\<rparr>,
       \<lparr>bin_blocker_issue_id = ''K-1'', bin_branch = ''a'', bin_sha = ''1''\<rparr>] [(''a'', ''b'')] ''main'')
     \<noteq> trunk_base ''main''"
proof
  show "bp_spec (resolve_base (\<lambda>s. s) ''K-9''
      [\<lparr>bin_blocker_issue_id = ''K-2'', bin_branch = ''b'', bin_sha = ''2''\<rparr>,
       \<lparr>bin_blocker_issue_id = ''K-1'', bin_branch = ''a'', bin_sha = ''1''\<rparr>] [(''a'', ''b'')] ''main'')
     \<noteq> trunk_base ''main''"
    using base_covers_every_premise [of "[(''a'', ''b'')]" "\<lambda>s. s" "''K-9''"
      "[\<lparr>bin_blocker_issue_id = ''K-2'', bin_branch = ''b'', bin_sha = ''2''\<rparr>,
       \<lparr>bin_blocker_issue_id = ''K-1'', bin_branch = ''a'', bin_sha = ''1''\<rparr>]" "''main''"]
    by (simp add: strict_containment_def Let_def)
qed code_simp

subsection \<open>The service\<close>

datatype base_error =
  IssueUnreadable string
| CallFailed string
| NoDeliverableRef string
| ManyDeliverableRefs string string "string list"
| RefNeverPushed string string
| RefAbsentFromRemote string string
| IntegrationConflict "string list" "string list"

datatype merge_answer = Merged | MergeConflict "string list" | MergeFailed base_error

record base_world =
  bw_board :: "(string, tracker_issue) pydict"
  bw_work_refs :: "string \<Rightarrow> base_error + work_ref list"
  bw_remote_branch_sha :: "string \<Rightarrow> base_error + string option"
  bw_is_ancestor :: "string \<Rightarrow> string \<Rightarrow> base_error + bool"
  bw_create_worktree :: "base_error + unit"
  bw_merge_branch :: "string \<Rightarrow> merge_answer"
  bw_remove_worktree :: "base_error + unit"
  bw_push :: "base_error + unit"
  bw_current_sha :: "base_error + string"
  bw_record_work_ref :: "base_error + unit"

definition read_issue :: "base_world \<Rightarrow> string \<Rightarrow> base_error + tracker_issue" where
  "read_issue w key =
     (case map_of (bw_board w) key of None \<Rightarrow> Inl (IssueUnreadable key) | Some issue \<Rightarrow> Inr issue)"

definition is_deliverable :: "work_ref \<Rightarrow> bool" where
  "is_deliverable ref \<longleftrightarrow> wr_role ref = DeliverableRef"

function nearest_ref_from ::
  "base_world \<Rightarrow> string \<Rightarrow> string list \<Rightarrow> string \<Rightarrow> base_error + work_ref option" where
  "nearest_ref_from w blocker seen cursor =
     (if cursor \<in> set seen then Inr None
      else
        bind_sum (bw_work_refs w cursor) (\<lambda>refs.
        case filter is_deliverable refs of
          ref # other # others \<Rightarrow>
            Inl (ManyDeliverableRefs cursor blocker (map wr_branch (ref # other # others)))
        | [ref] \<Rightarrow> Inr (Some ref)
        | [] \<Rightarrow>
            (case map_of (bw_board w) cursor of
               None \<Rightarrow> Inl (IssueUnreadable cursor)
             | Some issue \<Rightarrow>
                 (case ti_parent_key issue of
                    None \<Rightarrow> Inr None
                  | Some parent \<Rightarrow> nearest_ref_from w blocker (cursor # seen) parent))))"
  by pat_completeness auto
termination
proof (relation "measure (\<lambda>(w, blocker, seen, cursor). card (set (dict_keys (bw_board w)) - set seen))")
  fix w :: base_world and blocker :: string and seen cursor refs issue parent
  assume "cursor \<notin> set seen" and "map_of (bw_board w) cursor = Some issue"
  moreover from this have "cursor \<in> set (dict_keys (bw_board w))" using dict_get_keys by metis
  ultimately have "set (dict_keys (bw_board w)) - set (cursor # seen) \<subset>
      set (dict_keys (bw_board w)) - set seen" by auto
  then show "((w, blocker, cursor # seen, parent), w, blocker, seen, cursor)
      \<in> measure (\<lambda>(w, blocker, seen, cursor). card (set (dict_keys (bw_board w)) - set seen))"
    by (simp add: psubset_card_mono)
qed simp

definition nearest_deliverable_ref :: "base_world \<Rightarrow> string \<Rightarrow> base_error + work_ref option" where
  "nearest_deliverable_ref w blocker = nearest_ref_from w blocker [] blocker"

definition resolver_blocker_keys :: "base_world \<Rightarrow> string \<Rightarrow> base_error + string list" where
  "resolver_blocker_keys w issue_key =
     bind_sum (read_issue w issue_key) (\<lambda>issue.
     Inr (map ir_issue_key (filter (\<lambda>r. ir_kind r = BlockedBy) (ti_relations issue))))"

definition input_for :: "base_world \<Rightarrow> string \<Rightarrow> base_error + base_input option" where
  "input_for w blocker =
     bind_sum (nearest_deliverable_ref w blocker) (\<lambda>found.
     case found of
       None \<Rightarrow>
         bind_sum (read_issue w blocker) (\<lambda>issue.
         if \<not> is_open (ti_state_kind issue) then Inr None else Inl (NoDeliverableRef blocker))
     | Some ref \<Rightarrow>
         (case wr_landing ref of
            Landed \<Rightarrow> Inr None
          | _ \<Rightarrow>
              (case wr_pushed_head_sha ref of
                 None \<Rightarrow> Inl (RefNeverPushed blocker (wr_branch ref))
               | Some sha \<Rightarrow>
                   Inr (Some \<lparr>bin_blocker_issue_id = blocker, bin_branch = wr_branch ref,
                              bin_sha = sha\<rparr>))))"

fun inputs_for :: "base_world \<Rightarrow> string list \<Rightarrow> base_error + base_input list" where
  "inputs_for w [] = Inr []"
| "inputs_for w (blocker # blockers) =
     bind_sum (input_for w blocker) (\<lambda>found.
     bind_sum (inputs_for w blockers) (\<lambda>rest.
     Inr (case found of None \<Rightarrow> rest | Some item \<Rightarrow> item # rest)))"

fun require_present :: "base_world \<Rightarrow> base_input list \<Rightarrow> base_error + unit" where
  "require_present w [] = Inr ()"
| "require_present w (item # items) =
     bind_sum (bw_remote_branch_sha w (bin_branch item)) (\<lambda>sha.
     if sha = None then Inl (RefAbsentFromRemote (bin_blocker_issue_id item) (bin_branch item))
     else require_present w items)"

fun contained_pairs ::
  "base_world \<Rightarrow> (string \<times> string) list \<Rightarrow> base_error + (string \<times> string) list" where
  "contained_pairs w [] = Inr []"
| "contained_pairs w ((inner, outer) # pairs) =
     (if inner = outer then contained_pairs w pairs
      else
        bind_sum (bw_is_ancestor w inner outer) (\<lambda>yes.
        bind_sum (contained_pairs w pairs) (\<lambda>rest.
        Inr (if yes then (inner, outer) # rest else rest))))"

definition containment_of :: "base_world \<Rightarrow> base_input list \<Rightarrow> base_error + (string \<times> string) list" where
  "containment_of w inputs =
     (let branches = sort (remdups (map bin_branch inputs)) in
      contained_pairs w (List.product branches branches))"

datatype base_act =
  WorktreeCut string string
| SourceMerged string
| BranchPushed string
| WorktreeRemoved
| RefRecorded work_ref

fun merge_sources ::
  "base_world \<Rightarrow> base_spec \<Rightarrow> string list \<Rightarrow> (base_error + unit) \<times> base_act list" where
  "merge_sources w spec [] = (Inr (), [])"
| "merge_sources w spec (source # sources) =
     (case bw_merge_branch w source of
        Merged \<Rightarrow>
          then_do (Inr (), [SourceMerged source]) (\<lambda>_. merge_sources w spec sources)
      | MergeConflict paths \<Rightarrow>
          then_do (bw_remove_worktree w, case bw_remove_worktree w of Inr _ \<Rightarrow> [WorktreeRemoved] | Inl _ \<Rightarrow> [])
            (\<lambda>_. (Inl (IntegrationConflict (map bin_branch (bs_inputs spec)) paths), []))
      | MergeFailed e \<Rightarrow> (Inl e, []))"

definition answered :: "base_error + 'a \<Rightarrow> base_act \<Rightarrow> (base_error + 'a) \<times> base_act list" where
  "answered answer act = (answer, case answer of Inr _ \<Rightarrow> [act] | Inl _ \<Rightarrow> [])"

definition construct ::
  "base_world \<Rightarrow> string \<Rightarrow> base_plan \<Rightarrow> instant \<Rightarrow> (base_error + unit) \<times> base_act list" where
  "construct w issue_key plan now =
     (let branch = bs_base_branch (bp_spec plan) in
      then_do (answered (bw_create_worktree w) (WorktreeCut (the (bp_branch_point plan)) branch)) (\<lambda>_.
      then_do (merge_sources w (bp_spec plan) (bp_merge_inputs plan)) (\<lambda>_.
      then_do (answered (bw_push w) (BranchPushed branch)) (\<lambda>_.
      then_do (bw_current_sha w, []) (\<lambda>sha.
      then_do (answered (bw_remove_worktree w) WorktreeRemoved) (\<lambda>_.
      answered (bw_record_work_ref w)
        (RefRecorded \<lparr>wr_issue_id = issue_key, wr_role = IntegrationRef, wr_branch = branch,
                      wr_pushed_head_sha = Some sha, wr_landing = LandingUnknown,
                      wr_recorded_at = now\<rparr>)))))))"

definition resolve_lane_base ::
  "(string \<Rightarrow> string) \<Rightarrow> base_world \<Rightarrow> string \<Rightarrow> string \<Rightarrow> instant
     \<Rightarrow> (base_error + base_spec) \<times> base_act list" where
  "resolve_lane_base sha256 w issue_key trunk now =
     then_do (resolver_blocker_keys w issue_key, []) (\<lambda>blockers.
     then_do (inputs_for w blockers, []) (\<lambda>inputs.
     then_do (require_present w inputs, []) (\<lambda>_.
     then_do (containment_of w inputs, []) (\<lambda>containment.
     let plan = resolve_base sha256 issue_key inputs containment trunk in
     then_do (if requires_construction plan then construct w issue_key plan now else (Inr (), [])) (\<lambda>_.
     (Inr (bp_spec plan), []))))))"

fun unrecorded_closed_from ::
  "base_world \<Rightarrow> string list \<Rightarrow> string list \<Rightarrow> base_error + string list" where
  "unrecorded_closed_from w seen [] = Inr []"
| "unrecorded_closed_from w seen (blocker # blockers) =
     (if blocker \<in> set seen then unrecorded_closed_from w seen blockers
      else
        bind_sum (nearest_deliverable_ref w blocker) (\<lambda>found.
        if found \<noteq> None then unrecorded_closed_from w (blocker # seen) blockers
        else
          bind_sum (read_issue w blocker) (\<lambda>issue.
          bind_sum (unrecorded_closed_from w (blocker # seen) blockers) (\<lambda>rest.
          Inr (if is_open (ti_state_kind issue) then rest else blocker # rest)))))"

definition unrecorded_closed_blockers :: "base_world \<Rightarrow> string \<Rightarrow> base_error + string list" where
  "unrecorded_closed_blockers w issue_key =
     bind_sum (resolver_blocker_keys w issue_key) (unrecorded_closed_from w [])"

subsection \<open>What the service guarantees\<close>

definition parents :: "base_world \<Rightarrow> (string \<times> string) set" where
  "parents w = {(c, p). \<exists>issue. map_of (bw_board w) c = Some issue \<and> ti_parent_key issue = Some p}"

definition recorded_on :: "base_world \<Rightarrow> string \<Rightarrow> work_ref \<Rightarrow> bool" where
  "recorded_on w key ref \<longleftrightarrow>
     (\<exists>refs. bw_work_refs w key = Inr refs \<and> filter is_deliverable refs = [ref])"

declare nearest_ref_from.simps [simp del]

lemma nearest_ref_from_on_chain:
  assumes "nearest_ref_from w blocker seen cursor = Inr (Some ref)"
  shows "\<exists>k. (cursor, k) \<in> (parents w)\<^sup>* \<and> recorded_on w k ref"
  using assms
proof (induction w blocker seen cursor rule: nearest_ref_from.induct)
  case (1 w blocker seen cursor)
  from 1(2) obtain refs where refs: "cursor \<notin> set seen" "bw_work_refs w cursor = Inr refs"
    by (subst (asm) nearest_ref_from.simps) (auto simp: bind_sum_Inr split: if_splits)
  show ?case
  proof (cases "filter is_deliverable refs")
    case Nil
    then obtain issue parent where up: "map_of (bw_board w) cursor = Some issue"
      "ti_parent_key issue = Some parent" "nearest_ref_from w blocker (cursor # seen) parent = Inr (Some ref)"
      using 1(2) refs by (subst (asm) nearest_ref_from.simps) (auto split: option.splits)
    then obtain k where "(parent, k) \<in> (parents w)\<^sup>*" "recorded_on w k ref"
      using 1(1) [OF refs(1) Nil up] by blast
    moreover have "(cursor, parent) \<in> parents w" using up by (auto simp: parents_def)
    ultimately show ?thesis by (meson converse_rtrancl_into_rtrancl)
  next
    case (Cons r rs)
    then have "rs = [] \<and> r = ref"
      using 1(2) refs by (subst (asm) nearest_ref_from.simps) (auto split: list.splits)
    then have "recorded_on w cursor ref" using refs Cons by (simp add: recorded_on_def)
    then show ?thesis by blast
  qed
qed

lemma inputs_for_members:
  assumes "inputs_for w blockers = Inr inputs"
  shows "(\<forall>b \<in> set blockers. input_for w b = Inr None \<or> (\<exists>i \<in> set inputs. input_for w b = Inr (Some i))) \<and>
    (\<forall>i \<in> set inputs. \<exists>b \<in> set blockers. input_for w b = Inr (Some i))"
  using assms
proof (induction blockers arbitrary: inputs)
  case (Cons b blockers)
  then obtain found rest where "input_for w b = Inr found" "inputs_for w blockers = Inr rest"
    "inputs = (case found of None \<Rightarrow> rest | Some item \<Rightarrow> item # rest)"
    by (auto simp: bind_sum_Inr)
  then show ?case using Cons.IH [of rest] by (cases found) auto
qed simp

lemma input_for_cases:
  assumes "input_for w b = Inr found"
  shows "(\<exists>ref. nearest_deliverable_ref w b = Inr (Some ref) \<and>
      (wr_landing ref = Landed \<and> found = None \<or>
       (\<exists>sha. wr_landing ref \<noteq> Landed \<and> wr_pushed_head_sha ref = Some sha \<and>
          found = Some \<lparr>bin_blocker_issue_id = b, bin_branch = wr_branch ref, bin_sha = sha\<rparr>))) \<or>
    (nearest_deliverable_ref w b = Inr None \<and> found = None \<and>
      (\<exists>issue. read_issue w b = Inr issue \<and> \<not> is_open (ti_state_kind issue)))"
proof -
  obtain near where near: "nearest_deliverable_ref w b = Inr near"
    using assms by (auto simp: input_for_def bind_sum_Inr)
  show ?thesis
  proof (cases near)
    case None
    then show ?thesis using assms near by (auto simp: input_for_def bind_sum_Inr split: if_splits)
  next
    case (Some ref)
    then show ?thesis using assms near
      by (cases "wr_landing ref"; cases "wr_pushed_head_sha ref") (simp_all add: input_for_def)
  qed
qed

lemma require_present_members:
  "require_present w items = Inr u \<Longrightarrow> i \<in> set items \<Longrightarrow>
     \<exists>sha. bw_remote_branch_sha w (bin_branch i) = Inr (Some sha)"
  by (induction items) (auto simp: bind_sum_Inr split: if_splits)

lemma contained_pairs_members:
  assumes "contained_pairs w pairs = Inr out"
  shows "(a, b) \<in> set out \<longleftrightarrow> (a, b) \<in> set pairs \<and> a \<noteq> b \<and> bw_is_ancestor w a b = Inr True"
  using assms
proof (induction pairs arbitrary: out)
  case (Cons p pairs)
  then show ?case by (cases p) (auto simp: bind_sum_Inr split: if_splits)
qed simp

lemma containment_of_members:
  assumes "containment_of w inputs = Inr out"
  shows "(a, b) \<in> set out \<longleftrightarrow> a \<in> bin_branch ` set inputs \<and> b \<in> bin_branch ` set inputs \<and> a \<noteq> b \<and>
    bw_is_ancestor w a b = Inr True"
  using contained_pairs_members [OF assms [unfolded containment_of_def Let_def], of a b] by auto

definition premise_settled :: "base_world \<Rightarrow> base_input list \<Rightarrow> string \<Rightarrow> bool" where
  "premise_settled w inputs b \<longleftrightarrow>
     (\<exists>ref. nearest_deliverable_ref w b = Inr (Some ref) \<and>
        (wr_landing ref = Landed \<or>
         (\<exists>sha. wr_pushed_head_sha ref = Some sha \<and>
            \<lparr>bin_blocker_issue_id = b, bin_branch = wr_branch ref, bin_sha = sha\<rparr> \<in> set inputs))) \<or>
     (nearest_deliverable_ref w b = Inr None \<and>
        (\<exists>issue. read_issue w b = Inr issue \<and> \<not> is_open (ti_state_kind issue)))"

lemma resolve_lane_base_steps:
  assumes "resolve_lane_base sha256 w issue_key trunk now = (Inr spec, acts)"
  obtains blockers inputs containment where "resolver_blocker_keys w issue_key = Inr blockers"
    and "inputs_for w blockers = Inr inputs" and "require_present w inputs = Inr ()"
    and "containment_of w inputs = Inr containment"
    and "spec = bp_spec (resolve_base sha256 issue_key inputs containment trunk)"
    and "if requires_construction (resolve_base sha256 issue_key inputs containment trunk)
      then construct w issue_key (resolve_base sha256 issue_key inputs containment trunk) now = (Inr (), acts)
      else acts = []"
  using assms unfolding resolve_lane_base_def Let_def then_do_Inr
  by (auto split: if_splits)

text \<open>Claim C8. A base is resolved only when every blocker is settled: its nearest deliverable ref, its own
  or that of an ancestor, landed or is an input present on the remote, or no ancestor carries one and the
  blocker is closed. The spec is that of the rule over exactly these inputs and git's answers.\<close>

theorem resolved_base_settles_every_blocker:
  assumes "resolve_lane_base sha256 w issue_key trunk now = (Inr spec, acts)"
  shows "\<exists>blockers inputs containment. resolver_blocker_keys w issue_key = Inr blockers \<and>
    (\<forall>b \<in> set blockers. premise_settled w inputs b) \<and>
    (\<forall>i \<in> set inputs. bin_blocker_issue_id i \<in> set blockers \<and>
       (\<exists>k ref. (bin_blocker_issue_id i, k) \<in> (parents w)\<^sup>* \<and> recorded_on w k ref \<and>
          wr_branch ref = bin_branch i) \<and>
       (\<exists>sha. bw_remote_branch_sha w (bin_branch i) = Inr (Some sha))) \<and>
    (\<forall>a b. (a, b) \<in> set containment \<longleftrightarrow> a \<in> bin_branch ` set inputs \<and> b \<in> bin_branch ` set inputs \<and>
       a \<noteq> b \<and> bw_is_ancestor w a b = Inr True) \<and>
    spec = bp_spec (resolve_base sha256 issue_key inputs containment trunk)"
proof -
  obtain blockers inputs containment where steps: "resolver_blocker_keys w issue_key = Inr blockers"
    "inputs_for w blockers = Inr inputs" "require_present w inputs = Inr ()"
    "containment_of w inputs = Inr containment"
    "spec = bp_spec (resolve_base sha256 issue_key inputs containment trunk)"
    by (rule resolve_lane_base_steps [OF assms]) (rule that)
  have "premise_settled w inputs b" if b: "b \<in> set blockers" for b
  proof -
    obtain found where found: "input_for w b = Inr found" "found = None \<or> (\<exists>i \<in> set inputs. found = Some i)"
      using inputs_for_members [OF steps(2)] b by blast
    show ?thesis using input_for_cases [OF found(1)] found(2) unfolding premise_settled_def by blast
  qed
  moreover have "bin_blocker_issue_id i \<in> set blockers \<and>
      (\<exists>k ref. (bin_blocker_issue_id i, k) \<in> (parents w)\<^sup>* \<and> recorded_on w k ref \<and>
        wr_branch ref = bin_branch i)" if i: "i \<in> set inputs" for i
  proof -
    obtain b where b: "b \<in> set blockers" "input_for w b = Inr (Some i)"
      using inputs_for_members [OF steps(2)] i by blast
    then obtain ref where ref: "nearest_deliverable_ref w b = Inr (Some ref)"
      "bin_blocker_issue_id i = b" "bin_branch i = wr_branch ref"
      using input_for_cases [OF b(2)] by auto
    then show ?thesis
      using b(1) nearest_ref_from_on_chain [OF ref(1) [unfolded nearest_deliverable_ref_def]] by auto
  qed
  moreover note require_present_members [OF steps(3)] containment_of_members [OF steps(4)]
  ultimately show ?thesis
    by (intro exI [of _ blockers] exI [of _ inputs] exI [of _ containment] conjI ballI allI steps(1,5)) blast+
qed

definition sample_board_issue :: "string \<Rightarrow> workflow_state_kind \<Rightarrow> string list \<Rightarrow> string option \<Rightarrow> tracker_issue"
  where
  "sample_board_issue key state blockers parent =
     \<lparr>ti_issue_key = key, ti_title = key, ti_body = '''', ti_priority = High, ti_state_name = '''',
      ti_state_kind = state, ti_queue_states = [], ti_issue_labels = [], ti_team_key = None,
      ti_project = None, ti_project_id = None, ti_milestone_key = None,
      ti_relations = map (\<lambda>b. \<lparr>ir_kind = BlockedBy, ir_issue_key = b\<rparr>) blockers,
      ti_parent_key = parent, ti_assignee_key = None, ti_created_at = 0, ti_updated_at = 0, ti_url = ''''\<rparr>"

text \<open>K-2 rides the pull request of its parent K-1, and K-3 was finished elsewhere.\<close>

definition sample_world :: base_world where
  "sample_world =
     \<lparr>bw_board = map (\<lambda>i. (ti_issue_key i, i))
        [sample_board_issue ''K-9'' UnstartedState [''K-2'', ''K-3'', ''K-4''] None,
         sample_board_issue ''K-1'' StartedState [] None,
         sample_board_issue ''K-2'' CompletedState [] (Some ''K-1''),
         sample_board_issue ''K-3'' CompletedState [] None,
         sample_board_issue ''K-4'' CompletedState [] None],
      bw_work_refs = (\<lambda>k. Inr (if k = ''K-1'' \<or> k = ''K-4'' then
        [\<lparr>wr_issue_id = k, wr_role = DeliverableRef, wr_branch = k, wr_pushed_head_sha = Some ''f00'',
          wr_landing = NotLanded, wr_recorded_at = 0\<rparr>] else [])),
      bw_remote_branch_sha = (\<lambda>_. Inr (Some ''f00'')), bw_is_ancestor = (\<lambda>a b. Inr False),
      bw_create_worktree = Inr (), bw_merge_branch = (\<lambda>_. Merged), bw_remove_worktree = Inr (),
      bw_push = Inr (), bw_current_sha = Inr ''beef'', bw_record_work_ref = Inr ()\<rparr>"

lemma resolved_base_settles_every_blocker_witness:
  "\<exists>spec acts inputs. resolve_lane_base (\<lambda>s. ''d'') sample_world ''K-9'' ''main'' 7 = (Inr spec, acts) \<and>
     premise_settled sample_world inputs ''K-2'' \<and>
     bs_base_branch spec = ''K-9-integration-d'' \<and>
     acts = [WorktreeCut ''K-1'' ''K-9-integration-d'', SourceMerged ''K-4'', BranchPushed ''K-9-integration-d'',
       WorktreeRemoved, RefRecorded \<lparr>wr_issue_id = ''K-9'', wr_role = IntegrationRef,
         wr_branch = ''K-9-integration-d'', wr_pushed_head_sha = Some ''beef'', wr_landing = LandingUnknown,
         wr_recorded_at = 7\<rparr>]"
proof -
  let ?run = "resolve_lane_base (\<lambda>s. ''d'') sample_world ''K-9'' ''main'' 7"
  have shape: "case ?run of (Inl _, _) \<Rightarrow> False | (Inr spec, acts) \<Rightarrow>
     bs_base_branch spec = ''K-9-integration-d'' \<and>
     acts = [WorktreeCut ''K-1'' ''K-9-integration-d'', SourceMerged ''K-4'', BranchPushed ''K-9-integration-d'',
       WorktreeRemoved, RefRecorded \<lparr>wr_issue_id = ''K-9'', wr_role = IntegrationRef,
         wr_branch = ''K-9-integration-d'', wr_pushed_head_sha = Some ''beef'', wr_landing = LandingUnknown,
         wr_recorded_at = 7\<rparr>]"
    by code_simp
  then obtain spec acts where run: "?run = (Inr spec, acts)" by (cases ?run; cases "fst ?run") auto
  have "resolver_blocker_keys sample_world ''K-9'' = Inr [''K-2'', ''K-3'', ''K-4'']" by code_simp
  then show ?thesis using resolved_base_settles_every_blocker [OF run] shape run by auto
qed

subsection \<open>Building the integration ref\<close>

lemma merge_sources_trace:
  "(fst (merge_sources w spec sources) = Inr () \<and> snd (merge_sources w spec sources) = map SourceMerged sources) \<or>
   (\<exists>e n. fst (merge_sources w spec sources) = Inl e \<and> n < length sources \<and>
      (snd (merge_sources w spec sources) = map SourceMerged (take n sources) \<or>
       snd (merge_sources w spec sources) = map SourceMerged (take n sources) @ [WorktreeRemoved]))"
proof (induction sources)
  case (Cons source sources)
  show ?case
  proof (cases "bw_merge_branch w source")
    case Merged
    consider (all) "merge_sources w spec sources = (Inr (), map SourceMerged sources)"
      | (some) e n tail where "merge_sources w spec sources = (Inl e, map SourceMerged (take n sources) @ tail)"
          "n < length sources" "tail = [] \<or> tail = [WorktreeRemoved]"
      using Cons by (metis append_Nil2 prod.collapse)
    then show ?thesis
    proof cases
      case some
      have "fst (merge_sources w spec (source # sources)) = Inl e"
        "snd (merge_sources w spec (source # sources)) = map SourceMerged (take (Suc n) (source # sources)) @ tail"
        using Merged some(1) by simp_all
      then show ?thesis using some(2,3) by (metis Suc_less_eq append_Nil2 length_Cons)
    qed (simp add: Merged)
  next
    case (MergeConflict paths)
    then show ?thesis by (cases "bw_remove_worktree w") (auto intro!: exI [of _ 0])
  qed (auto intro!: exI [of _ 0])
qed simp

lemma merge_sources_all:
  "is_ok (fst (merge_sources w spec sources)) \<longleftrightarrow> (\<forall>s \<in> set sources. bw_merge_branch w s = Merged)"
proof (induction sources)
  case (Cons source sources)
  then show ?case
    by (cases "bw_merge_branch w source"; cases "bw_remove_worktree w"; cases "merge_sources w spec sources") auto
qed simp

text \<open>Claim C33. The integration ref is pushed only after every further input was merged in order onto the
  first, recorded only after it was pushed, with the sha read back; whatever fails before that, nothing is
  pushed.\<close>

theorem integration_ref_is_whole:
  "(\<forall>b. BranchPushed b \<in> set (snd (construct w issue_key plan now)) \<longrightarrow>
      b = bs_base_branch (bp_spec plan) \<and>
      (\<exists>rest. snd (construct w issue_key plan now) =
        WorktreeCut (the (bp_branch_point plan)) b # map SourceMerged (bp_merge_inputs plan) @ BranchPushed b # rest)) \<and>
   (\<forall>ref. RefRecorded ref \<in> set (snd (construct w issue_key plan now)) \<longrightarrow>
      fst (construct w issue_key plan now) = Inr () \<and>
      snd (construct w issue_key plan now) =
        WorktreeCut (the (bp_branch_point plan)) (wr_branch ref) # map SourceMerged (bp_merge_inputs plan) @
          [BranchPushed (wr_branch ref), WorktreeRemoved, RefRecorded ref] \<and>
      Inr (the (wr_pushed_head_sha ref)) = bw_current_sha w \<and> wr_role ref = IntegrationRef) \<and>
   (\<forall>source paths. bw_create_worktree w = Inr () \<longrightarrow> source \<in> set (bp_merge_inputs plan) \<longrightarrow>
      bw_merge_branch w source \<noteq> Merged \<longrightarrow>
      \<not> is_ok (fst (construct w issue_key plan now)) \<and>
      (\<forall>b. BranchPushed b \<notin> set (snd (construct w issue_key plan now))))"
proof (cases "bw_create_worktree w")
  case (Inl e)
  then show ?thesis by (simp add: construct_def Let_def answered_def)
next
  case cut: (Inr u)
  let ?m = "merge_sources w (bp_spec plan) (bp_merge_inputs plan)"
  have merged: "is_ok (fst ?m) \<longleftrightarrow> (\<forall>s \<in> set (bp_merge_inputs plan). bw_merge_branch w s = Merged)"
    using merge_sources_all by blast
  consider (all) "?m = (Inr (), map SourceMerged (bp_merge_inputs plan))"
    | (some) e acts where "?m = (Inl e, acts)" "\<forall>b. BranchPushed b \<notin> set acts" "\<forall>ref. RefRecorded ref \<notin> set acts"
    using merge_sources_trace [of w "bp_spec plan" "bp_merge_inputs plan"] by (cases ?m) fastforce
  then show ?thesis
  proof cases
    case all
    then have all_merged: "\<forall>s \<in> set (bp_merge_inputs plan). bw_merge_branch w s = Merged" using merged by simp
    show ?thesis
      using all all_merged cut
      by (cases "bw_push w"; cases "bw_current_sha w"; cases "bw_remove_worktree w"; cases "bw_record_work_ref w")
        (auto simp: construct_def Let_def answered_def)
  next
    case some
    then show ?thesis using cut by (auto simp: construct_def Let_def answered_def)
  qed
qed

definition sample_plan :: base_plan where
  "sample_plan = resolve_base (\<lambda>s. ''d'') ''K-9''
     [\<lparr>bin_blocker_issue_id = ''K-2'', bin_branch = ''K-1'', bin_sha = ''f00''\<rparr>,
      \<lparr>bin_blocker_issue_id = ''K-4'', bin_branch = ''K-4'', bin_sha = ''f00''\<rparr>] [] ''main''"

lemma integration_ref_is_whole_witness:
  "BranchPushed ''K-9-integration-d'' \<in> set (snd (construct sample_world ''K-9'' sample_plan 7)) \<and>
   (\<exists>rest. snd (construct sample_world ''K-9'' sample_plan 7) =
      [WorktreeCut ''K-1'' ''K-9-integration-d'', SourceMerged ''K-4'', BranchPushed ''K-9-integration-d''] @ rest) \<and>
   snd (construct (sample_world\<lparr>bw_merge_branch := \<lambda>_. MergeConflict [''f'']\<rparr>) ''K-9'' sample_plan 7) =
     [WorktreeCut ''K-1'' ''K-9-integration-d'', WorktreeRemoved] \<and>
   (\<forall>b. BranchPushed b \<notin>
      set (snd (construct (sample_world\<lparr>bw_merge_branch := \<lambda>_. MergeConflict [''f'']\<rparr>) ''K-9'' sample_plan 7)))"
proof -
  let ?w = "sample_world\<lparr>bw_merge_branch := \<lambda>_. MergeConflict [''f'']\<rparr>"
  have plan: "bp_merge_inputs sample_plan = [''K-4'']" "the (bp_branch_point sample_plan) = ''K-1''" by code_simp+
  have pushed: "BranchPushed ''K-9-integration-d'' \<in> set (snd (construct sample_world ''K-9'' sample_plan 7))"
    by code_simp
  have cut: "bw_create_worktree ?w = Inr ()" by code_simp
  have conflict: "''K-4'' \<in> set (bp_merge_inputs sample_plan)" "bw_merge_branch ?w ''K-4'' \<noteq> Merged"
    by (simp_all add: plan)
  have "\<forall>b. BranchPushed b \<notin> set (snd (construct ?w ''K-9'' sample_plan 7))"
    using integration_ref_is_whole [of ?w "''K-9''" sample_plan 7,
        THEN conjunct2, THEN conjunct2, rule_format, OF cut conflict] by simp
  moreover have "\<exists>rest. snd (construct sample_world ''K-9'' sample_plan 7) =
      [WorktreeCut ''K-1'' ''K-9-integration-d'', SourceMerged ''K-4'', BranchPushed ''K-9-integration-d''] @ rest"
    using integration_ref_is_whole [of sample_world "''K-9''" sample_plan 7,
        THEN conjunct1, rule_format, OF pushed] by (auto simp: plan)
  moreover have "snd (construct ?w ''K-9'' sample_plan 7) =
      [WorktreeCut ''K-1'' ''K-9-integration-d'', WorktreeRemoved]" by code_simp
  ultimately show ?thesis using pushed by blast
qed

end
