(* ===== verification/FireDispatch.thy ===== *)
theory FireDispatch
  imports BaseResolution Outbound
begin

section \<open>The dispatch pass\<close>

text \<open>
  \<^verbatim>\<open>services/fire_dispatcher.py\<close> with the report of \<^verbatim>\<open>types/domain/dispatch.py\<close> and
  the team bindings of \<^verbatim>\<open>types/domain/operation.py\<close>: one pass scans, excludes, ranks, claims,
  resolves the base and enqueues one fire. A method is a step on the dispatcher's state that may
  raise; the acts it had on the tracker and the queue are recorded in order. What the tracker, the
  queue, the delivery probe and the clock answer is given by an environment, and the shared cooldown
  is part of the state.
\<close>

subsection \<open>Team bindings\<close>

record team_entry =
  te_repository :: "string option"
  te_scope :: "string list"
  te_visibility :: "repo_visibility option"

record operation =
  op_teams :: "(string, team_entry) pydict"
  op_repos :: "string list"

datatype dispatch_error = NoScannedTeam string | CallRaised string

definition binds_implicitly :: "operation \<Rightarrow> string \<Rightarrow> bool" where
  "binds_implicitly operation repo_url \<longleftrightarrow> op_repos operation = [repo_url]"

definition teams_bound_to :: "operation \<Rightarrow> string \<Rightarrow> string list" where
  "teams_bound_to operation repo_url =
     map fst (filter (\<lambda>(key, entry). te_repository entry = Some repo_url \<or>
       te_repository entry = None \<and> binds_implicitly operation repo_url) (op_teams operation))"

definition teams_scanned_by :: "operation \<Rightarrow> string \<Rightarrow> string list" where
  "teams_scanned_by operation repo_url =
     (if length (op_repos operation) \<le> 1 then teams_bound_to operation repo_url
      else map fst (filter (\<lambda>(key, entry). key \<in> set (teams_bound_to operation repo_url) \<or>
        te_repository entry = None) (op_teams operation)))"

definition team_keys_for_repo :: "operation \<Rightarrow> string \<Rightarrow> dispatch_error + string list" where
  "team_keys_for_repo operation repo_url =
     (let scanned = teams_scanned_by operation repo_url in
      if scanned = [] then Inl (NoScannedTeam repo_url) else Inr scanned)"

definition board_visibility :: "operation \<Rightarrow> string option \<Rightarrow> repo_visibility" where
  "board_visibility operation team_key =
     (case (case team_key of None \<Rightarrow> None | Some key \<Rightarrow> map_of (op_teams operation) key) of
        None \<Rightarrow> Public
      | Some entry \<Rightarrow> if te_visibility entry = Some Private then Private else Public)"

subsection \<open>The report\<close>

datatype dispatch_outcome = FireEnqueued | ClaimLost | EmptyEligibleSet | BaseUnresolvedOutcome | WinnerBlocked

datatype exclusion_clause =
  OutsideTeam | BaseUnresolved | RunFailed | LaneBackoff | OutOfScope | NoRecordedRepository |
  RecordedElsewhere | NotApproved | NotOpen | LiveBlocker | ClaimedOrInFlight | OpenDelivery

record issue_snapshot =
  is_issue_key :: string
  is_priority :: issue_priority
  is_state_name :: string
  is_created_at :: instant

record issue_exclusion =
  ix_issue_key :: string
  ix_clause :: exclusion_clause
  ix_detail :: string

record dispatch_report =
  dr_outcome :: dispatch_outcome
  dr_snapshot :: "issue_snapshot list"
  dr_exclusions :: "issue_exclusion list"
  dr_eligible :: "string list"
  dr_tied_candidates :: "string list"
  dr_claimed_issue_key :: "string option"
  dr_claimed_state_name :: "string option"
  dr_claimed_visibility :: repo_visibility
  dr_job_id :: "string option"
  dr_base :: "base_spec option"
  dr_criterion_keys :: "string list"
  dr_superseded_base :: "base_spec option"

subsection \<open>State, environment, steps\<close>

record remembered_exclusion =
  rm_updated_at :: instant
  rm_clause :: exclusion_clause
  rm_detail :: string

record lane_backoff =
  lk_until :: instant
  lk_failure_class :: string

record fire_request =
  fq_prompt :: string
  fq_issue_key :: string
  fq_repo_url :: string
  fq_base_spec :: base_spec
  fq_implied_base :: base_spec

datatype dispatch_act =
  Claimed string claim_status
| Released string
| BaseSpecRecorded string base_spec
| Submitted string fire_request

record dispatcher =
  ds_jobs_by_issue :: "(string, string) pydict"
  ds_remembered :: "(string, remembered_exclusion) pydict"
  ds_initiatives :: "(string, string list) pydict"
  ds_backoff :: "lane_backoff option"
  ds_acts :: "dispatch_act list"

definition new_dispatcher :: dispatcher where
  "new_dispatcher = \<lparr>ds_jobs_by_issue = [], ds_remembered = [], ds_initiatives = [], ds_backoff = None, ds_acts = []\<rparr>"

datatype base_answer = BaseResolved base_spec | BaseRefused string

record dispatch_env =
  de_operation :: operation
  de_repo_url :: string
  de_lane :: string
  de_holder :: string
  de_cooldown_seconds :: duration
  de_draw :: "string list \<Rightarrow> string"
  de_clock :: "string \<Rightarrow> instant"
  de_scan :: "string \<Rightarrow> dispatch_error + tracker_issue list"
  de_read_issue :: "string \<Rightarrow> dispatch_error + tracker_issue"
  de_refreshed :: "string \<Rightarrow> dispatch_error + tracker_issue"
  de_recorded_repository :: "string \<Rightarrow> dispatch_error + string option"
  de_initiatives :: "string \<Rightarrow> dispatch_error + string list"
  de_active_claim :: "string \<Rightarrow> dispatch_error + claim_result option"
  de_job_state :: "string \<Rightarrow> dispatch_error + job_state option"
  de_open_delivery :: "string \<Rightarrow> dispatch_error + bool"
  de_claim :: "string \<Rightarrow> dispatch_error + claim_result"
  de_release :: "string \<Rightarrow> dispatch_error + unit"
  de_resolve :: "string \<Rightarrow> dispatch_error + base_answer"
  de_assemble :: "string \<Rightarrow> string \<Rightarrow> dispatch_error + string"
  de_recorded_base :: "string \<Rightarrow> dispatch_error + base_spec option"
  de_record_base :: "string \<Rightarrow> dispatch_error + unit"
  de_submit :: "string \<Rightarrow> dispatch_error + string"

type_synonym 'a step = "dispatcher \<Rightarrow> (dispatch_error + 'a) \<times> dispatcher"

definition done_with :: "'a \<Rightarrow> 'a step" where
  "done_with x s = (Inr x, s)"

definition call :: "dispatch_error + 'a \<Rightarrow> 'a step" where
  "call answer s = (answer, s)"

definition act_call :: "dispatch_error + 'a \<Rightarrow> ('a \<Rightarrow> dispatch_act) \<Rightarrow> 'a step" where
  "act_call answer act s =
     (case answer of Inl e \<Rightarrow> (Inl e, s) | Inr x \<Rightarrow> (Inr x, s\<lparr>ds_acts := ds_acts s @ [act x]\<rparr>))"

definition update_state :: "(dispatcher \<Rightarrow> dispatcher) \<Rightarrow> unit step" where
  "update_state f s = (Inr (), f s)"

definition and_then :: "'a step \<Rightarrow> ('a \<Rightarrow> 'b step) \<Rightarrow> 'b step" where
  "and_then m f s = (case m s of (Inl e, s') \<Rightarrow> (Inl e, s') | (Inr x, s') \<Rightarrow> f x s')"

fun first_of :: "'a option step list \<Rightarrow> 'a option step" where
  "first_of [] = done_with None"
| "first_of (clause # clauses) =
     and_then clause (\<lambda>found. case found of None \<Rightarrow> first_of clauses | Some x \<Rightarrow> done_with (Some x))"

fun each_of :: "('a \<Rightarrow> 'b step) \<Rightarrow> 'a list \<Rightarrow> 'b list step" where
  "each_of f [] = done_with []"
| "each_of f (x # xs) =
     and_then (f x) (\<lambda>y. and_then (each_of f xs) (\<lambda>ys. done_with (y # ys)))"

subsection \<open>The cooldown\<close>

definition cooldown_begin :: "dispatch_env \<Rightarrow> string \<Rightarrow> string \<Rightarrow> unit step" where
  "cooldown_begin env asked failure_class =
     update_state (\<lambda>s. s\<lparr>ds_backoff :=
       Some \<lparr>lk_until = de_clock env asked + de_cooldown_seconds env, lk_failure_class = failure_class\<rparr>\<rparr>)"

definition cooldown_holding :: "dispatch_env \<Rightarrow> string \<Rightarrow> string option step" where
  "cooldown_holding env asked s =
     (case ds_backoff s of
        None \<Rightarrow> (Inr None, s)
      | Some backoff \<Rightarrow>
          if de_clock env asked < lk_until backoff then (Inr (Some (lk_failure_class backoff)), s)
          else (Inr None, s\<lparr>ds_backoff := None\<rparr>))"

subsection \<open>The clauses\<close>

definition excluded :: "tracker_issue \<Rightarrow> exclusion_clause \<Rightarrow> string \<Rightarrow> issue_exclusion" where
  "excluded issue clause detail =
     \<lparr>ix_issue_key = ti_issue_key issue, ix_clause = clause, ix_detail = detail\<rparr>"

definition or_empty :: "string option \<Rightarrow> string" where
  "or_empty v = (case v of None \<Rightarrow> [] | Some x \<Rightarrow> x)"

definition team_exclusion :: "string list \<Rightarrow> tracker_issue \<Rightarrow> issue_exclusion option step" where
  "team_exclusion team_keys issue =
     done_with (if clause_in_team issue team_keys then None
                else Some (excluded issue OutsideTeam (or_empty (ti_team_key issue))))"

definition still_stands :: "dispatch_env \<Rightarrow> remembered_exclusion \<Rightarrow> bool step" where
  "still_stands env remembered =
     (if rm_clause remembered \<noteq> LiveBlocker then done_with True
      else and_then (call (de_read_issue env (rm_detail remembered))) (\<lambda>blocker.
           done_with (clause_open blocker)))"

definition forget_memory :: "string \<Rightarrow> unit step" where
  "forget_memory key = update_state (\<lambda>s. s\<lparr>ds_remembered := AList.delete key (ds_remembered s)\<rparr>)"

definition memory_exclusion :: "dispatch_env \<Rightarrow> tracker_issue \<Rightarrow> issue_exclusion option step" where
  "memory_exclusion env issue s =
     (case map_of (ds_remembered s) (ti_issue_key issue) of
        None \<Rightarrow> (Inr None, s)
      | Some remembered \<Rightarrow>
          and_then
            (if ti_updated_at issue \<le> rm_updated_at remembered then still_stands env remembered
             else done_with False)
            (\<lambda>stands.
               if stands then done_with (Some (excluded issue (rm_clause remembered) (rm_detail remembered)))
               else and_then (forget_memory (ti_issue_key issue)) (\<lambda>_. done_with None)) s)"

definition backoff_exclusion :: "dispatch_env \<Rightarrow> tracker_issue \<Rightarrow> issue_exclusion option step" where
  "backoff_exclusion env issue =
     and_then (cooldown_holding env (ti_issue_key issue)) (\<lambda>holding.
     done_with (map_option (excluded issue LaneBackoff) holding))"

definition initiatives_for :: "dispatch_env \<Rightarrow> string \<Rightarrow> string list step" where
  "initiatives_for env project_id s =
     (case map_of (ds_initiatives s) project_id of
        Some cached \<Rightarrow> (Inr cached, s)
      | None \<Rightarrow>
          and_then (call (de_initiatives env project_id)) (\<lambda>found.
          and_then (update_state (\<lambda>s. s\<lparr>ds_initiatives := AList.update project_id found (ds_initiatives s)\<rparr>))
            (\<lambda>_. done_with found)) s)"

definition team_scope :: "operation \<Rightarrow> string option \<Rightarrow> string list" where
  "team_scope operation team_key =
     (case (case team_key of None \<Rightarrow> None | Some key \<Rightarrow> map_of (op_teams operation) key) of
        None \<Rightarrow> [] | Some entry \<Rightarrow> te_scope entry)"

definition own_identifiers :: "tracker_issue \<Rightarrow> string list" where
  "own_identifiers issue = List.map_filter id [ti_project issue, ti_project_id issue]"

definition scope_exclusion :: "dispatch_env \<Rightarrow> tracker_issue \<Rightarrow> issue_exclusion option step" where
  "scope_exclusion env issue =
     (let scope = team_scope (de_operation env) (ti_team_key issue) in
      if scope = [] then done_with None
      else
        and_then
          (case ti_project_id issue of
             Some project_id \<Rightarrow>
               if \<not> clause_in_scope scope (own_identifiers issue)
               then and_then (initiatives_for env project_id) (\<lambda>more. done_with (own_identifiers issue @ more))
               else done_with (own_identifiers issue)
           | None \<Rightarrow> done_with (own_identifiers issue))
          (\<lambda>identifiers.
             done_with (if clause_in_scope scope identifiers then None
               else Some (excluded issue OutOfScope
                 (case ti_project issue of Some project \<Rightarrow> project
                  | None \<Rightarrow> ''the issue belongs to no project'')))))"

definition route_exclusion :: "dispatch_env \<Rightarrow> tracker_issue \<Rightarrow> issue_exclusion option step" where
  "route_exclusion env issue =
     (if (case ti_team_key issue of None \<Rightarrow> False
          | Some team \<Rightarrow> team \<in> set (teams_bound_to (de_operation env) (de_repo_url env)))
      then done_with None
      else
        and_then (call (de_recorded_repository env (ti_issue_key issue))) (\<lambda>recorded.
        done_with
          (if clause_recorded_repository False recorded (de_repo_url env) then None
           else case recorded of
               None \<Rightarrow> Some (excluded issue NoRecordedRepository [])
             | Some elsewhere \<Rightarrow> Some (excluded issue RecordedElsewhere elsewhere))))"

definition approval_exclusion :: "tracker_issue \<Rightarrow> issue_exclusion option step" where
  "approval_exclusion issue =
     done_with (if clause_approved issue then None else Some (excluded issue NotApproved []))"

definition open_exclusion :: "tracker_issue \<Rightarrow> issue_exclusion option step" where
  "open_exclusion issue =
     done_with (if clause_open issue then None else Some (excluded issue NotOpen (ti_state_name issue)))"

definition live_blocker_of :: "dispatch_env \<Rightarrow> tracker_issue \<Rightarrow> string option step" where
  "live_blocker_of env issue =
     and_then (each_of (\<lambda>key. and_then (call (de_read_issue env key)) (\<lambda>found. done_with (key, found)))
                 (blocker_keys issue)) (\<lambda>blockers.
     done_with (live_blocker issue (map_of (rev blockers))))"

definition blocker_exclusion :: "dispatch_env \<Rightarrow> tracker_issue \<Rightarrow> issue_exclusion option step" where
  "blocker_exclusion env issue =
     and_then (live_blocker_of env issue) (\<lambda>blocking.
     done_with (map_option (excluded issue LiveBlocker) blocking))"

definition run_is_live :: "dispatch_env \<Rightarrow> string \<Rightarrow> bool step" where
  "run_is_live env issue_key s =
     (case map_of (ds_jobs_by_issue s) issue_key of
        None \<Rightarrow> (Inr False, s)
      | Some job_id \<Rightarrow>
          and_then (call (de_job_state env job_id)) (\<lambda>state.
          done_with (state \<noteq> None \<and> state \<noteq> Some TERMINAL)) s)"

definition in_flight_exclusion :: "dispatch_env \<Rightarrow> tracker_issue \<Rightarrow> issue_exclusion option step" where
  "in_flight_exclusion env issue =
     and_then (call (de_active_claim env (ti_issue_key issue))) (\<lambda>claim.
     and_then (run_is_live env (ti_issue_key issue)) (\<lambda>live.
     done_with (if clause_unclaimed claim live then None
       else Some (excluded issue ClaimedOrInFlight
         (case claim of None \<Rightarrow> [] | Some c \<Rightarrow> cr_holder c)))))"

definition delivery_exclusion :: "dispatch_env \<Rightarrow> tracker_issue \<Rightarrow> issue_exclusion option step" where
  "delivery_exclusion env issue =
     and_then (call (de_open_delivery env (ti_issue_key issue))) (\<lambda>delivered.
     done_with (if clause_undelivered delivered then None else Some (excluded issue OpenDelivery [])))"

definition exclude :: "dispatch_env \<Rightarrow> string list \<Rightarrow> tracker_issue \<Rightarrow> issue_exclusion option step" where
  "exclude env team_keys issue =
     first_of
       [team_exclusion team_keys issue, memory_exclusion env issue, backoff_exclusion env issue,
        scope_exclusion env issue, route_exclusion env issue, approval_exclusion issue,
        open_exclusion issue, blocker_exclusion env issue, in_flight_exclusion env issue,
        delivery_exclusion env issue]"

definition standing_exclusion :: "dispatch_env \<Rightarrow> tracker_issue \<Rightarrow> issue_exclusion option step" where
  "standing_exclusion env issue =
     and_then (call (team_keys_for_repo (de_operation env) (de_repo_url env))) (\<lambda>team_keys.
     first_of
       [team_exclusion team_keys issue, route_exclusion env issue, memory_exclusion env issue,
        backoff_exclusion env issue, in_flight_exclusion env issue, delivery_exclusion env issue])"

subsection \<open>Claiming and enqueueing\<close>

definition remember :: "string \<Rightarrow> instant \<Rightarrow> exclusion_clause \<Rightarrow> string \<Rightarrow> unit step" where
  "remember key updated_at clause detail =
     update_state (\<lambda>s. s\<lparr>ds_remembered := AList.update key
       \<lparr>rm_updated_at = updated_at, rm_clause = clause, rm_detail = detail\<rparr> (ds_remembered s)\<rparr>)"

definition idle_report ::
  "dispatch_outcome \<Rightarrow> issue_snapshot list \<Rightarrow> issue_exclusion list \<Rightarrow> string list \<Rightarrow> string list
     \<Rightarrow> string option \<Rightarrow> string list \<Rightarrow> dispatch_report" where
  "idle_report outcome rows exclusions eligible tied claimed criterion_keys =
     \<lparr>dr_outcome = outcome, dr_snapshot = rows, dr_exclusions = exclusions, dr_eligible = eligible,
      dr_tied_candidates = tied, dr_claimed_issue_key = claimed, dr_claimed_state_name = None,
      dr_claimed_visibility = Public, dr_job_id = None, dr_base = None,
      dr_criterion_keys = criterion_keys, dr_superseded_base = None\<rparr>"

definition launch ::
  "dispatch_env \<Rightarrow> tracker_issue \<Rightarrow> issue_snapshot list \<Rightarrow> issue_exclusion list \<Rightarrow> string list
     \<Rightarrow> string list \<Rightarrow> string list \<Rightarrow> dispatch_report step" where
  "launch env winner rows exclusions eligible_keys tied criterion_keys =
     (let key = ti_issue_key winner in
      and_then (act_call (de_claim env key) (\<lambda>claim. Claimed key (cr_status claim))) (\<lambda>claim.
      if cr_status claim \<noteq> Granted
      then done_with (idle_report ClaimLost rows exclusions eligible_keys tied None criterion_keys)
      else
        and_then (call (de_resolve env key)) (\<lambda>answer.
        case answer of
          BaseRefused reason \<Rightarrow>
            and_then (act_call (de_release env key) (\<lambda>_. Released key)) (\<lambda>_.
            and_then (call (de_refreshed env key)) (\<lambda>refreshed.
            and_then (remember key (ti_updated_at refreshed) BaseUnresolved reason) (\<lambda>_.
            done_with (idle_report BaseUnresolvedOutcome rows exclusions eligible_keys tied (Some key)
              criterion_keys))))
        | BaseResolved spec \<Rightarrow>
            and_then (call (de_assemble env key (ti_body winner))) (\<lambda>prompt.
            and_then (call (de_recorded_base env key)) (\<lambda>recorded.
            let superseded = (case recorded of None \<Rightarrow> None
                              | Some old \<Rightarrow> if is_base_stale old spec then Some old else None) in
            and_then (act_call (de_record_base env key) (\<lambda>_. BaseSpecRecorded key spec)) (\<lambda>_.
            let request = \<lparr>fq_prompt = prompt, fq_issue_key = key, fq_repo_url = de_repo_url env,
                           fq_base_spec = spec, fq_implied_base = spec\<rparr> in
            and_then (act_call (de_submit env key) (\<lambda>job_id. Submitted job_id request)) (\<lambda>job_id.
            and_then (update_state (\<lambda>s. s\<lparr>ds_jobs_by_issue :=
                AList.update key job_id (ds_jobs_by_issue s)\<rparr>)) (\<lambda>_.
            done_with
              \<lparr>dr_outcome = FireEnqueued, dr_snapshot = rows, dr_exclusions = exclusions,
               dr_eligible = eligible_keys, dr_tied_candidates = tied, dr_claimed_issue_key = Some key,
               dr_claimed_state_name = Some (ti_state_name winner),
               dr_claimed_visibility = board_visibility (de_operation env) (ti_team_key winner),
               dr_job_id = Some job_id, dr_base = Some spec, dr_criterion_keys = criterion_keys,
               dr_superseded_base = superseded\<rparr>))))))))"

definition claim_and_enqueue ::
  "dispatch_env \<Rightarrow> selection \<Rightarrow> tracker_issue list \<Rightarrow> issue_snapshot list \<Rightarrow> issue_exclusion list
     \<Rightarrow> dispatch_report step" where
  "claim_and_enqueue env selection eligible rows exclusions =
     (let eligible_keys = map ti_issue_key eligible in
      and_then (call (de_read_issue env (sel_winner_key selection))) (\<lambda>winner.
      and_then (live_blocker_of env winner) (\<lambda>blocking.
      case blocking of
        Some blocker \<Rightarrow>
          and_then (remember (ti_issue_key winner) (ti_updated_at winner) LiveBlocker blocker) (\<lambda>_.
          done_with (idle_report WinnerBlocked rows (exclusions @ [excluded winner LiveBlocker blocker])
            eligible_keys (sel_tied selection) None []))
      | None \<Rightarrow> launch env winner rows exclusions eligible_keys (sel_tied selection) [])))"

definition snapshot_row :: "tracker_issue \<Rightarrow> issue_snapshot" where
  "snapshot_row issue =
     \<lparr>is_issue_key = ti_issue_key issue, is_priority = ti_priority issue,
      is_state_name = ti_state_name issue, is_created_at = ti_created_at issue\<rparr>"

definition run_pass :: "dispatch_env \<Rightarrow> dispatch_report step" where
  "run_pass env =
     and_then (call (team_keys_for_repo (de_operation env) (de_repo_url env))) (\<lambda>team_keys.
     and_then (each_of (\<lambda>team. call (de_scan env team)) team_keys) (\<lambda>scans.
     let snapshot = concat scans; rows = map snapshot_row snapshot in
     and_then (each_of (exclude env team_keys) snapshot) (\<lambda>answers.
     let decided = zip snapshot answers;
         eligible = map fst (filter (\<lambda>(_, answer). answer = None) decided);
         exclusions = List.map_filter snd decided in
     case select_top_ranked eligible (de_draw env) of
       None \<Rightarrow> done_with (idle_report EmptyEligibleSet rows exclusions [] [] None [])
     | Some selection \<Rightarrow> claim_and_enqueue env selection eligible rows exclusions)))"

datatype run_outcome = RunCompleted | RunFailedOutcome | RunTimedOut | RunNeverStarted

fun run_outcome_value :: "run_outcome \<Rightarrow> string" where
  "run_outcome_value RunCompleted = ''completed''"
| "run_outcome_value RunFailedOutcome = ''failed''"
| "run_outcome_value RunTimedOut = ''timed_out''"
| "run_outcome_value RunNeverStarted = ''never_started''"

definition RATE_LIMITED :: string where "RATE_LIMITED = ''RateLimitedSoftFailureError''"

definition record_run_outcome ::
  "dispatch_env \<Rightarrow> string \<Rightarrow> run_outcome \<Rightarrow> string option \<Rightarrow> unit step" where
  "record_run_outcome env issue_key outcome failure_class =
     (if outcome = RunCompleted then done_with ()
      else
        and_then
          (case failure_class of
             Some failure \<Rightarrow>
               if failure = RATE_LIMITED then cooldown_begin env issue_key failure else done_with ()
           | None \<Rightarrow> done_with ())
          (\<lambda>_ s.
             if issue_key \<notin> set (dict_keys (ds_jobs_by_issue s)) then (Inr (), s)
             else
               and_then (call (de_refreshed env issue_key)) (\<lambda>refreshed.
                 remember issue_key (ti_updated_at refreshed) RunFailed
                   (case failure_class of None \<Rightarrow> run_outcome_value outcome | Some failure \<Rightarrow> failure)) s))"

subsection \<open>Steps that write nothing\<close>

lemma and_then_Inr [result_simps]:
  "and_then m f s = (Inr y, s') \<longleftrightarrow> (\<exists>x s1. m s = (Inr x, s1) \<and> f x s1 = (Inr y, s'))"
  by (auto simp: and_then_def split: prod.splits sum.splits)

lemma step_Inr [result_simps]:
  "done_with x s = (Inr y, s') \<longleftrightarrow> y = x \<and> s' = s"
  "call answer s = (Inr y, s') \<longleftrightarrow> answer = Inr y \<and> s' = s"
  "update_state f s = (Inr u, s') \<longleftrightarrow> s' = f s"
  by (auto simp: done_with_def call_def update_state_def)

lemma act_call_Inr [result_simps]:
  "act_call answer act s = (Inr y, s') \<longleftrightarrow> answer = Inr y \<and> s' = s\<lparr>ds_acts := ds_acts s @ [act y]\<rparr>"
  by (auto simp: act_call_def split: sum.splits)

definition keeps :: "(dispatcher \<Rightarrow> bool) \<Rightarrow> 'a step \<Rightarrow> bool" where
  "keeps P m \<longleftrightarrow> (\<forall>s. P s \<longrightarrow> P (snd (m s)))"

named_theorems keeps_rules

lemma keeps_basic [keeps_rules]: "keeps P (done_with x)" "keeps P (call answer)"
  by (simp_all add: keeps_def done_with_def call_def)

lemma keeps_update: "(\<And>s. P s \<Longrightarrow> P (f s)) \<Longrightarrow> keeps P (update_state f)"
  by (simp add: keeps_def update_state_def)

lemma keeps_and_then [keeps_rules]: "keeps P m \<Longrightarrow> (\<And>x. keeps P (f x)) \<Longrightarrow> keeps P (and_then m f)"
  unfolding keeps_def and_then_def by (auto split: prod.splits sum.splits)

lemma keeps_each_of [keeps_rules]: "(\<And>x. keeps P (f x)) \<Longrightarrow> keeps P (each_of f xs)"
  by (induction xs) (auto intro: keeps_rules)

lemma keeps_first_of: "(\<And>c. c \<in> set cs \<Longrightarrow> keeps P c) \<Longrightarrow> keeps P (first_of cs)"
  by (induction cs) (auto intro!: keeps_rules split: option.splits)

lemma keeps_local: "(\<And>s. keeps P (g s)) \<Longrightarrow> keeps P (\<lambda>s. g s s)"
  unfolding keeps_def by blast

lemma keeps_at: "keeps P m \<Longrightarrow> m s = (r, s') \<Longrightarrow> P s \<Longrightarrow> P s'"
  unfolding keeps_def by (metis snd_conv)

text \<open>The clauses of one issue write nothing, start nothing, keep the initiative cache true to the tracker,
  and touch no memory but that issue's.\<close>

definition coherent :: "dispatch_env \<Rightarrow> dispatcher \<Rightarrow> bool" where
  "coherent env s \<longleftrightarrow> (\<forall>p v. map_of (ds_initiatives s) p = Some v \<longrightarrow> de_initiatives env p = Inr v)"

definition idle_in :: "dispatch_env \<Rightarrow> dispatch_act list \<Rightarrow> (string, string) pydict \<Rightarrow> dispatcher \<Rightarrow> bool" where
  "idle_in env acts jobs s \<longleftrightarrow> ds_acts s = acts \<and> ds_jobs_by_issue s = jobs \<and> coherent env s"

definition remembers :: "string \<Rightarrow> remembered_exclusion \<Rightarrow> dispatcher \<Rightarrow> bool" where
  "remembers k r s \<longleftrightarrow> map_of (ds_remembered s) k = Some r"

lemma keeps_cooldown [keeps_rules]:
  "(\<And>s b. P s \<Longrightarrow> P (s\<lparr>ds_backoff := b\<rparr>)) \<Longrightarrow> keeps P (cooldown_holding env asked)"
  by (simp add: keeps_def cooldown_holding_def split: option.splits)

lemma frames_backoff [simp]:
  "idle_in env acts jobs (s\<lparr>ds_backoff := b\<rparr>) = idle_in env acts jobs s"
  "remembers k r (s\<lparr>ds_backoff := b\<rparr>) = remembers k r s"
  by (simp_all add: idle_in_def remembers_def coherent_def)

lemma memory_exclusion_local:
  "memory_exclusion env issue = (\<lambda>s. (\<lambda>s0. case map_of (ds_remembered s0) (ti_issue_key issue) of
      None \<Rightarrow> done_with None
    | Some remembered \<Rightarrow>
        and_then (if ti_updated_at issue \<le> rm_updated_at remembered then still_stands env remembered
          else done_with False)
        (\<lambda>stands. if stands then done_with (Some (excluded issue (rm_clause remembered) (rm_detail remembered)))
          else and_then (forget_memory (ti_issue_key issue)) (\<lambda>_. done_with None))) s s)"
  by (simp add: fun_eq_iff memory_exclusion_def done_with_def split: option.splits)

lemma run_is_live_local:
  "run_is_live env issue_key = (\<lambda>s. (\<lambda>s0. case map_of (ds_jobs_by_issue s0) issue_key of
      None \<Rightarrow> done_with False
    | Some job_id \<Rightarrow> and_then (call (de_job_state env job_id)) (\<lambda>state.
        done_with (state \<noteq> None \<and> state \<noteq> Some TERMINAL))) s s)"
  by (simp add: fun_eq_iff run_is_live_def done_with_def split: option.splits)

lemma keeps_run_is_live [keeps_rules]: "keeps P (run_is_live env issue_key)"
  unfolding run_is_live_local by (rule keeps_local) (auto intro!: keeps_rules split: option.splits)

lemma keeps_initiatives [keeps_rules]:
  assumes "\<And>s p v. P s \<Longrightarrow> map_of (ds_initiatives s) p = None \<Longrightarrow> de_initiatives env p = Inr v \<Longrightarrow>
    P (s\<lparr>ds_initiatives := AList.update p v (ds_initiatives s)\<rparr>)"
  shows "keeps P (initiatives_for env project_id)"
  unfolding keeps_def
proof (intro allI impI)
  fix s assume "P s"
  then show "P (snd (initiatives_for env project_id s))"
    using assms [of s project_id]
    by (cases "map_of (ds_initiatives s) project_id"; cases "de_initiatives env project_id")
      (simp_all add: initiatives_for_def and_then_def call_def update_state_def done_with_def)
qed

lemma keeps_memory [keeps_rules]:
  assumes "\<And>s. P s \<Longrightarrow> P (s\<lparr>ds_remembered := AList.delete (ti_issue_key issue) (ds_remembered s)\<rparr>)"
  shows "keeps P (memory_exclusion env issue)"
  unfolding memory_exclusion_local
  by (rule keeps_local)
    (auto intro!: keeps_rules keeps_update assms simp: still_stands_def forget_memory_def split: option.splits)

lemma keeps_exclude:
  assumes "\<And>s b. P s \<Longrightarrow> P (s\<lparr>ds_backoff := b\<rparr>)"
    and "\<And>s p v. P s \<Longrightarrow> map_of (ds_initiatives s) p = None \<Longrightarrow> de_initiatives env p = Inr v \<Longrightarrow>
      P (s\<lparr>ds_initiatives := AList.update p v (ds_initiatives s)\<rparr>)"
    and "\<And>s. P s \<Longrightarrow> P (s\<lparr>ds_remembered := AList.delete (ti_issue_key issue) (ds_remembered s)\<rparr>)"
  shows "keeps P (exclude env team_keys issue)"
proof -
  have "keeps P (team_exclusion team_keys issue)" "keeps P (memory_exclusion env issue)"
    "keeps P (backoff_exclusion env issue)" "keeps P (scope_exclusion env issue)"
    "keeps P (route_exclusion env issue)" "keeps P (approval_exclusion issue)" "keeps P (open_exclusion issue)"
    "keeps P (blocker_exclusion env issue)" "keeps P (in_flight_exclusion env issue)"
    "keeps P (delivery_exclusion env issue)"
    unfolding team_exclusion_def backoff_exclusion_def scope_exclusion_def Let_def route_exclusion_def
      approval_exclusion_def open_exclusion_def blocker_exclusion_def live_blocker_of_def
      in_flight_exclusion_def delivery_exclusion_def
    by (auto intro!: keeps_and_then keeps_basic keeps_each_of keeps_run_is_live keeps_cooldown
        keeps_initiatives keeps_memory assms split: option.splits)
  then show ?thesis unfolding exclude_def by (intro keeps_first_of) auto
qed

lemma exclude_idle: "keeps (idle_in env acts jobs) (exclude env team_keys issue)"
  by (rule keeps_exclude) (auto simp: idle_in_def coherent_def dict_simps)

lemma exclude_remembers:
  "ti_issue_key issue \<noteq> k \<Longrightarrow> keeps (remembers k r) (exclude env team_keys issue)"
  by (rule keeps_exclude) (auto simp: remembers_def dict_simps)

lemma live_blocker_of_state: "live_blocker_of env issue s = (Inr b, s') \<Longrightarrow> s' = s"
proof -
  assume run: "live_blocker_of env issue s = (Inr b, s')"
  have "keeps (\<lambda>t. t = s) (live_blocker_of env issue)"
    unfolding live_blocker_of_def by (auto intro!: keeps_rules)
  from keeps_at [OF this run] show ?thesis by simp
qed

subsection \<open>What an issue without an exclusion satisfies\<close>

lemma first_of_None:
  assumes "first_of (c # cs) s = (Inr None, s')"
  obtains s1 where "c s = (Inr None, s1)" and "first_of cs s1 = (Inr None, s')"
  using assms by (auto simp: and_then_Inr step_Inr split: option.splits)

definition in_scope :: "dispatch_env \<Rightarrow> tracker_issue \<Rightarrow> bool" where
  "in_scope env issue \<longleftrightarrow>
     (let scope = team_scope (de_operation env) (ti_team_key issue) in
      scope = [] \<or> clause_in_scope scope (own_identifiers issue) \<or>
      (case ti_project_id issue of None \<Rightarrow> False
       | Some p \<Rightarrow> (case de_initiatives env p of Inl _ \<Rightarrow> False
                    | Inr ids \<Rightarrow> clause_in_scope scope (own_identifiers issue @ ids))))"

definition routed :: "dispatch_env \<Rightarrow> tracker_issue \<Rightarrow> bool" where
  "routed env issue \<longleftrightarrow>
     (case ti_team_key issue of None \<Rightarrow> False
      | Some team \<Rightarrow> team \<in> set (teams_bound_to (de_operation env) (de_repo_url env))) \<or>
     de_recorded_repository env (ti_issue_key issue) = Inr (Some (de_repo_url env))"

definition blockers_delivered :: "dispatch_env \<Rightarrow> tracker_issue \<Rightarrow> bool" where
  "blockers_delivered env issue \<longleftrightarrow>
     (\<forall>b \<in> set (blocker_keys issue). \<exists>i. de_read_issue env b = Inr i \<and> \<not> clause_open i)"

definition idle_run :: "dispatch_env \<Rightarrow> (string, string) pydict \<Rightarrow> string \<Rightarrow> bool" where
  "idle_run env jobs key \<longleftrightarrow>
     (case map_of jobs key of None \<Rightarrow> True
      | Some job \<Rightarrow> de_job_state env job = Inr None \<or> de_job_state env job = Inr (Some TERMINAL))"

definition eligible_now :: "dispatch_env \<Rightarrow> string list \<Rightarrow> (string, string) pydict \<Rightarrow> tracker_issue \<Rightarrow> bool" where
  "eligible_now env team_keys jobs issue \<longleftrightarrow>
     clause_in_team issue team_keys \<and> in_scope env issue \<and> routed env issue \<and> clause_approved issue \<and>
     clause_open issue \<and> blockers_delivered env issue \<and>
     de_active_claim env (ti_issue_key issue) = Inr None \<and> idle_run env jobs (ti_issue_key issue) \<and>
     de_open_delivery env (ti_issue_key issue) = Inr False"

lemma each_of_read:
  assumes "each_of (\<lambda>key. and_then (call (read key)) (\<lambda>found. done_with (key, found))) keys s = (Inr out, s')"
  shows "map fst out = keys \<and> (\<forall>(k, v) \<in> set out. read k = Inr v)"
  using assms
proof (induction keys arbitrary: s out s')
  case (Cons k keys)
  then show ?case by (fastforce simp: and_then_Inr step_Inr)
qed (simp add: step_Inr)

lemma live_blocker_of_None:
  assumes "live_blocker_of env issue s = (Inr None, s')"
  shows "blockers_delivered env issue"
  unfolding blockers_delivered_def
proof
  fix b assume b: "b \<in> set (blocker_keys issue)"
  obtain out s1 where out: "each_of (\<lambda>key. and_then (call (de_read_issue env key)) (\<lambda>found. done_with (key, found)))
      (blocker_keys issue) s = (Inr out, s1)" and none: "live_blocker issue (map_of (rev out)) = None"
    using assms by (auto simp: live_blocker_of_def and_then_Inr step_Inr)
  note read = each_of_read [OF out]
  have "b \<in> fst ` set (rev out)" using read b by (metis list.set_map set_rev)
  then obtain i where i: "map_of (rev out) b = Some i" by (meson map_of_eq_None_iff not_Some_eq)
  then have "(b, i) \<in> set out" by (metis map_of_SomeD set_rev)
  then have "de_read_issue env b = Inr i" using read by blast
  moreover have "\<not> clause_open i"
    using none b i unfolding live_blocker_def find_None_iff_all by auto
  ultimately show "\<exists>i. de_read_issue env b = Inr i \<and> \<not> clause_open i" by blast
qed

lemma scope_exclusion_None:
  assumes "scope_exclusion env issue s = (Inr None, s')" and "coherent env s"
  shows "in_scope env issue"
proof (cases "team_scope (de_operation env) (ti_team_key issue) = [] \<or>
    clause_in_scope (team_scope (de_operation env) (ti_team_key issue)) (own_identifiers issue)")
  case False
  then obtain p where p: "ti_project_id issue = Some p"
    using assms(1) by (auto simp: scope_exclusion_def Let_def and_then_Inr step_Inr split: option.splits if_splits)
  then obtain ids s1 where ids: "initiatives_for env p s = (Inr ids, s1)"
    "clause_in_scope (team_scope (de_operation env) (ti_team_key issue)) (own_identifiers issue @ ids)"
    using assms(1) False by (auto simp: scope_exclusion_def Let_def and_then_Inr step_Inr split: if_splits)
  have "de_initiatives env p = Inr ids"
    using ids(1) assms(2) unfolding coherent_def initiatives_for_def
    by (auto simp: and_then_Inr step_Inr split: option.splits)
  then show ?thesis using ids(2) p by (simp add: in_scope_def Let_def)
qed (auto simp: in_scope_def Let_def)

lemma run_is_live_False:
  assumes "run_is_live env key s = (Inr False, s')"
  shows "idle_run env (ds_jobs_by_issue s) key"
  using assms by (auto simp: run_is_live_def idle_run_def and_then_Inr step_Inr split: option.splits)

lemma exclude_None:
  assumes "exclude env team_keys issue s = (Inr None, s')" and "idle_in env acts jobs s"
  shows "eligible_now env team_keys jobs issue"
proof -
  obtain s1 s2 s3 s4 s5 s6 s7 s8 s9 s10 where
    team: "team_exclusion team_keys issue s = (Inr None, s1)" and
    memory: "memory_exclusion env issue s1 = (Inr None, s2)" and
    backoff: "backoff_exclusion env issue s2 = (Inr None, s3)" and
    scope: "scope_exclusion env issue s3 = (Inr None, s4)" and
    route: "route_exclusion env issue s4 = (Inr None, s5)" and
    approval: "approval_exclusion issue s5 = (Inr None, s6)" and
    is_open: "open_exclusion issue s6 = (Inr None, s7)" and
    blocker: "blocker_exclusion env issue s7 = (Inr None, s8)" and
    flight: "in_flight_exclusion env issue s8 = (Inr None, s9)" and
    delivery: "delivery_exclusion env issue s9 = (Inr None, s10)"
    using assms(1) unfolding exclude_def by (elim first_of_None) blast
  have I: "idle_in env acts jobs s3"
  proof -
    have "s1 = s" using team by (simp add: team_exclusion_def step_Inr)
    moreover have "keeps (idle_in env acts jobs) (memory_exclusion env issue)"
      by (rule keeps_memory) (simp add: idle_in_def coherent_def)
    moreover have "keeps (idle_in env acts jobs) (backoff_exclusion env issue)"
      unfolding backoff_exclusion_def by (auto intro!: keeps_rules)
    ultimately show ?thesis using memory backoff assms(2) unfolding keeps_def by (metis snd_conv)
  qed
  have I4: "idle_in env acts jobs s4"
  proof -
    have "keeps (idle_in env acts jobs) (scope_exclusion env issue)"
      unfolding scope_exclusion_def Let_def
      by (auto intro!: keeps_and_then keeps_basic keeps_initiatives split: option.splits
          simp: idle_in_def coherent_def dict_simps)
    then show ?thesis using scope I unfolding keeps_def by (metis snd_conv)
  qed
  have same: "s8 = s4"
    using route approval is_open blocker live_blocker_of_state
    by (auto simp: route_exclusion_def approval_exclusion_def open_exclusion_def blocker_exclusion_def
        and_then_Inr step_Inr split: if_splits)
  have "clause_in_team issue team_keys"
    using team by (simp add: team_exclusion_def step_Inr split: if_splits)
  moreover have "in_scope env issue"
    using scope_exclusion_None [OF scope] I by (simp add: idle_in_def)
  moreover have "routed env issue"
    using route by (auto simp: route_exclusion_def routed_def and_then_Inr step_Inr clause_recorded_repository_def
        split: if_splits option.splits)
  moreover have "clause_approved issue" "clause_open issue"
    using approval is_open by (auto simp: approval_exclusion_def open_exclusion_def step_Inr split: if_splits)
  moreover have "blockers_delivered env issue"
    using blocker live_blocker_of_None by (auto simp: blocker_exclusion_def and_then_Inr step_Inr)
  moreover have "de_active_claim env (ti_issue_key issue) = Inr None"
    "idle_run env jobs (ti_issue_key issue)"
    using flight I4 same run_is_live_False [of env "ti_issue_key issue" s4]
    by (auto simp: in_flight_exclusion_def and_then_Inr step_Inr clause_unclaimed_def idle_in_def
        split: if_splits)
  moreover have "de_open_delivery env (ti_issue_key issue) = Inr False"
    using delivery by (auto simp: delivery_exclusion_def and_then_Inr step_Inr clause_undelivered_def split: if_splits)
  ultimately show ?thesis by (simp add: eligible_now_def)
qed

lemma each_exclude:
  assumes "each_of (exclude env team_keys) issues s = (Inr answers, s')" and "idle_in env acts jobs s"
  shows "length answers = length issues \<and> idle_in env acts jobs s' \<and>
    (\<forall>(i, a) \<in> set (zip issues answers). a = None \<longrightarrow> eligible_now env team_keys jobs i)"
  using assms
proof (induction issues arbitrary: s answers)
  case (Cons i issues)
  then obtain a as s1 where a: "exclude env team_keys i s = (Inr a, s1)"
    "each_of (exclude env team_keys) issues s1 = (Inr as, s')" "answers = a # as"
    by (auto simp: and_then_Inr step_Inr)
  have "idle_in env acts jobs s1" using keeps_at [OF exclude_idle a(1)] Cons.prems(2) by blast
  then show ?case using Cons.IH [OF a(2)] a(1,3) exclude_None [of env team_keys i s s1] Cons.prems(2) by auto
qed (simp add: step_Inr)

definition standing :: "string \<Rightarrow> remembered_exclusion \<Rightarrow> tracker_issue list \<Rightarrow> bool" where
  "standing k r issues \<longleftrightarrow>
     rm_clause r \<noteq> LiveBlocker \<and>
     (\<forall>i \<in> set issues. ti_issue_key i = k \<longrightarrow> ti_updated_at i \<le> rm_updated_at r)"

lemma exclude_standing:
  assumes "exclude env team_keys i s = (Inr a, s')" and "remembers k r s" and "standing k r [i]"
  shows "remembers k r s' \<and> (ti_issue_key i = k \<longrightarrow> a \<noteq> None)"
proof (cases "ti_issue_key i = k")
  case True
  then have "map_of (ds_remembered s) (ti_issue_key i) = Some r" "ti_updated_at i \<le> rm_updated_at r"
    "rm_clause r \<noteq> LiveBlocker"
    using assms(2,3) by (auto simp: remembers_def standing_def)
  then have "memory_exclusion env i s = (Inr (Some (excluded i (rm_clause r) (rm_detail r))), s)"
    by (simp add: memory_exclusion_def still_stands_def and_then_def done_with_def)
  then have "s' = s \<and> a \<noteq> None"
    using assms(1) unfolding exclude_def
    by (auto simp: and_then_Inr step_Inr team_exclusion_def split: if_splits)
  then show ?thesis using assms(2) by simp
next
  case False
  then show ?thesis using keeps_at [OF exclude_remembers [OF False] assms(1)] assms(2) by blast
qed

lemma each_exclude_standing:
  assumes "each_of (exclude env team_keys) issues s = (Inr answers, s')" and "remembers k r s"
    and "standing k r issues"
  shows "remembers k r s' \<and> (\<forall>(i, a) \<in> set (zip issues answers). ti_issue_key i = k \<longrightarrow> a \<noteq> None)"
  using assms
proof (induction issues arbitrary: s answers)
  case (Cons i issues)
  then obtain a as s1 where a: "exclude env team_keys i s = (Inr a, s1)"
    "each_of (exclude env team_keys) issues s1 = (Inr as, s')" "answers = a # as"
    by (auto simp: and_then_Inr step_Inr)
  have "remembers k r s1 \<and> (ti_issue_key i = k \<longrightarrow> a \<noteq> None)"
    by (rule exclude_standing [OF a(1) Cons.prems(2)]) (use Cons.prems(3) in \<open>simp add: standing_def\<close>)
  then show ?case using Cons.IH [OF a(2)] a(3) Cons.prems(3) by (auto simp: standing_def)
qed (simp add: step_Inr)

subsection \<open>What one pass does\<close>

definition fire_acts :: "string \<Rightarrow> base_spec \<Rightarrow> string \<Rightarrow> fire_request \<Rightarrow> dispatch_act list" where
  "fire_acts key spec job request =
     [Claimed key Granted, BaseSpecRecorded key spec, Submitted job request]"

definition launched :: "dispatch_env \<Rightarrow> tracker_issue \<Rightarrow> dispatcher \<Rightarrow> dispatch_report \<Rightarrow> dispatcher \<Rightarrow> bool" where
  "launched env winner s report s' \<longleftrightarrow>
     (\<exists>spec job prompt.
        de_resolve env (ti_issue_key winner) = Inr (BaseResolved spec) \<and>
        dr_base report = Some spec \<and> dr_job_id report = Some job \<and>
        dr_claimed_issue_key report = Some (ti_issue_key winner) \<and>
        dr_claimed_state_name report = Some (ti_state_name winner) \<and>
        dr_claimed_visibility report = board_visibility (de_operation env) (ti_team_key winner) \<and>
        (\<forall>old. dr_superseded_base report = Some old \<longrightarrow> is_base_stale old spec) \<and>
        map_of (ds_jobs_by_issue s') (ti_issue_key winner) = Some job \<and>
        ds_acts s' = ds_acts s @ fire_acts (ti_issue_key winner) spec job
          \<lparr>fq_prompt = prompt, fq_issue_key = ti_issue_key winner, fq_repo_url = de_repo_url env,
           fq_base_spec = spec, fq_implied_base = spec\<rparr>)"

lemma launch_cases:
  assumes "launch env winner rows exclusions eligible tied criteria s = (Inr report, s')"
  shows "dr_outcome report = ClaimLost \<and> dr_job_id report = None \<and> dr_claimed_issue_key report = None \<and>
      (\<exists>st. st \<noteq> Granted \<and> ds_acts s' = ds_acts s @ [Claimed (ti_issue_key winner) st]) \<or>
    dr_outcome report = BaseUnresolvedOutcome \<and> dr_job_id report = None \<and>
      ds_acts s' = ds_acts s @ [Claimed (ti_issue_key winner) Granted, Released (ti_issue_key winner)] \<and>
      (\<exists>now reason. de_refreshed env (ti_issue_key winner) = Inr now \<and>
        remembers (ti_issue_key winner)
          \<lparr>rm_updated_at = ti_updated_at now, rm_clause = BaseUnresolved, rm_detail = reason\<rparr> s') \<or>
    dr_outcome report = FireEnqueued \<and> launched env winner s report s'"
proof -
  let ?k = "ti_issue_key winner"
  obtain claim where claim: "de_claim env ?k = Inr claim"
    using assms by (auto simp: launch_def Let_def and_then_Inr act_call_Inr)
  show ?thesis
  proof (cases "cr_status claim = Granted")
    case False
    then show ?thesis using assms claim
      by (auto simp: launch_def Let_def and_then_Inr act_call_Inr step_Inr idle_report_def)
  next
    case True
    then obtain answer where answer: "de_resolve env ?k = Inr answer"
      using assms claim by (auto simp: launch_def Let_def and_then_Inr act_call_Inr step_Inr)
    show ?thesis
    proof (cases answer)
      case (BaseRefused reason)
      then show ?thesis using assms claim True answer
        by (auto simp: launch_def Let_def and_then_Inr act_call_Inr step_Inr idle_report_def remember_def
            remembers_def dict_simps)
    next
      case (BaseResolved spec)
      then show ?thesis using assms claim True answer
        by (auto simp: launch_def Let_def and_then_Inr act_call_Inr step_Inr launched_def fire_acts_def
            dict_simps split: option.splits if_splits)
    qed
  qed
qed

lemma run_pass_steps:
  assumes "run_pass env s = (Inr report, s')"
  obtains team_keys scans answers s1 where
    "team_keys_for_repo (de_operation env) (de_repo_url env) = Inr team_keys"
    and "each_of (\<lambda>team. call (de_scan env team)) team_keys s = (Inr scans, s)"
    and "each_of (exclude env team_keys) (concat scans) s = (Inr answers, s1)"
    and "case select_top_ranked (map fst (filter (\<lambda>(_, a). a = None) (zip (concat scans) answers))) (de_draw env) of
        None \<Rightarrow> s' = s1 \<and> dr_outcome report = EmptyEligibleSet \<and> dr_job_id report = None
      | Some selection \<Rightarrow> \<exists>rows exclusions. claim_and_enqueue env selection
          (map fst (filter (\<lambda>(_, a). a = None) (zip (concat scans) answers))) rows exclusions s1 = (Inr report, s')"
proof -
  have scans: "each_of (\<lambda>team. call (de_scan env team)) keys t = (Inr out, t') \<Longrightarrow> t' = t" for keys t out t'
    by (induction keys arbitrary: out t) (auto simp: and_then_Inr step_Inr)
  show ?thesis
    by (insert assms, unfold run_pass_def Let_def and_then_Inr step_Inr, elim exE conjE, frule scans,
        rule that, simp, simp, simp, simp split: option.splits, simp add: step_Inr idle_report_def, blast)
qed

lemma claim_and_enqueue_cases:
  assumes "claim_and_enqueue env selection eligible rows exclusions s = (Inr report, s')"
  obtains winner where "de_read_issue env (sel_winner_key selection) = Inr winner"
    and "dr_outcome report = WinnerBlocked \<and> dr_job_id report = None \<and> ds_acts s' = ds_acts s \<and>
        (\<exists>r. s' = s\<lparr>ds_remembered := AList.update (ti_issue_key winner) r (ds_remembered s)\<rparr>) \<or>
      blockers_delivered env winner \<and>
        launch env winner rows exclusions (map ti_issue_key eligible) (sel_tied selection) [] s = (Inr report, s')"
proof -
  obtain winner blocking where steps: "de_read_issue env (sel_winner_key selection) = Inr winner"
    "live_blocker_of env winner s = (Inr blocking, s)"
    using assms live_blocker_of_state
    by (fastforce simp: claim_and_enqueue_def Let_def and_then_Inr step_Inr)
  show ?thesis
  proof (rule that [OF steps(1)])
    show "dr_outcome report = WinnerBlocked \<and> dr_job_id report = None \<and> ds_acts s' = ds_acts s \<and>
        (\<exists>r. s' = s\<lparr>ds_remembered := AList.update (ti_issue_key winner) r (ds_remembered s)\<rparr>) \<or>
      blockers_delivered env winner \<and>
        launch env winner rows exclusions (map ti_issue_key eligible) (sel_tied selection) [] s = (Inr report, s')"
    proof (cases blocking)
      case None
      then show ?thesis using assms steps live_blocker_of_None [of env winner s s]
        by (auto simp: claim_and_enqueue_def Let_def and_then_Inr step_Inr)
    next
      case (Some b)
      then show ?thesis using assms steps
        by (auto simp: claim_and_enqueue_def Let_def and_then_Inr step_Inr remember_def idle_report_def)
    qed
  qed
qed

lemma winner_is_eligible:
  assumes "select_top_ranked eligible draw = Some selection" and "\<And>keys. keys \<noteq> [] \<Longrightarrow> draw keys \<in> set keys"
  shows "\<exists>i \<in> set eligible. ti_issue_key i = sel_winner_key selection"
  using select_top_ranked_spec [OF assms] by blast

lemma filtered_zip:
  "i \<in> set (map fst (filter (\<lambda>(_, a). a = None) (zip xs as))) \<longleftrightarrow> (i, None) \<in> set (zip xs as)"
  by force

lemma each_of_scan:
  assumes "each_of (\<lambda>team. call (scan team)) team_keys s = (Inr scans, s')" and "found \<in> set scans"
  shows "\<exists>team \<in> set team_keys. scan team = Inr found"
  using assms
proof (induction team_keys arbitrary: scans s)
  case (Cons t ts)
  then obtain x xs s1 where "scan t = Inr x" "each_of (\<lambda>team. call (scan team)) ts s1 = (Inr xs, s')"
    "scans = x # xs"
    by (auto simp: and_then_Inr step_Inr)
  then show ?case using Cons.IH [of s1 xs] Cons.prems(2) by auto
qed (simp add: step_Inr)


lemma keeps_act_call:
  "(\<And>s a. P s \<Longrightarrow> P (s\<lparr>ds_acts := a\<rparr>)) \<Longrightarrow> keeps P (act_call answer act)"
  by (simp add: keeps_def act_call_def split: sum.splits)

lemma remembers_frames [simp]:
  "remembers k r (s\<lparr>ds_acts := a\<rparr>) = remembers k r s"
  "remembers k r (s\<lparr>ds_jobs_by_issue := j\<rparr>) = remembers k r s"
  by (simp_all add: remembers_def)

lemma keeps_remember: "key \<noteq> k \<Longrightarrow> keeps (remembers k r) (remember key t clause detail)"
  unfolding remember_def by (rule keeps_update) (simp add: remembers_def dict_simps)

lemma launch_spares:
  assumes "launch env winner rows exclusions eligible tied criteria s = (Inr report, s')"
    and "ti_issue_key winner \<noteq> k" and "remembers k r s"
  shows "remembers k r s' \<and> (\<forall>st. Claimed k st \<notin> set (drop (length (ds_acts s)) (ds_acts s')))"
proof
  have "keeps (remembers k r) (launch env winner rows exclusions eligible tied criteria)"
    unfolding launch_def Let_def using assms(2)
    by (auto intro!: keeps_rules keeps_update keeps_act_call keeps_remember split: base_answer.splits)
  then show "remembers k r s'" using assms(1,3) unfolding keeps_def by (metis snd_conv)
  show "\<forall>st. Claimed k st \<notin> set (drop (length (ds_acts s)) (ds_acts s'))"
    using launch_cases [OF assms(1)] assms(2) by (auto simp: launched_def fire_acts_def)
qed

lemma claim_spares:
  assumes "claim_and_enqueue env selection eligible rows exclusions s = (Inr report, s')"
    and "sel_winner_key selection \<noteq> k"
    and "\<And>key i. de_read_issue env key = Inr i \<Longrightarrow> ti_issue_key i = key" and "remembers k r s"
  shows "remembers k r s' \<and> (\<forall>st. Claimed k st \<notin> set (drop (length (ds_acts s)) (ds_acts s')))"
proof (rule claim_and_enqueue_cases [OF assms(1)], elim disjE, goal_cases)
  case (1 winner)
  then have "ti_issue_key winner \<noteq> k" using assms(2,3) by metis
  then show ?case using 1(2) assms(4) by (auto simp: remembers_def dict_simps)
next
  case (2 winner)
  then have "ti_issue_key winner \<noteq> k" using assms(2,3) by metis
  then show ?case using launch_spares [OF conjunct2 [OF 2(2)]] assms(4) by blast
qed

text \<open>Claim C16. A pass writes at most one claim: without an eligible issue or with a blocked winner it writes
  nothing, a lost claim is its only act, a claim whose base is unresolved is released at once, and only an
  enqueued fire has a job.\<close>

theorem pass_spends_one_claim:
  assumes "run_pass env s = (Inr report, s')" and "coherent env s"
  shows "case dr_outcome report of
      EmptyEligibleSet \<Rightarrow> ds_acts s' = ds_acts s \<and> dr_job_id report = None
    | WinnerBlocked \<Rightarrow> ds_acts s' = ds_acts s \<and> dr_job_id report = None
    | ClaimLost \<Rightarrow> dr_job_id report = None \<and>
        (\<exists>k st. st \<noteq> Granted \<and> ds_acts s' = ds_acts s @ [Claimed k st])
    | BaseUnresolvedOutcome \<Rightarrow> dr_job_id report = None \<and>
        (\<exists>k. ds_acts s' = ds_acts s @ [Claimed k Granted, Released k])
    | FireEnqueued \<Rightarrow>
        (\<exists>k spec job request. dr_job_id report = Some job \<and> fq_base_spec request = spec \<and>
           ds_acts s' = ds_acts s @ [Claimed k Granted, BaseSpecRecorded k spec, Submitted job request])"
proof -
  obtain team_keys scans answers s1 where steps:
    "each_of (exclude env team_keys) (concat scans) s = (Inr answers, s1)"
    "case select_top_ranked (map fst (filter (\<lambda>(_, a). a = None) (zip (concat scans) answers))) (de_draw env) of
        None \<Rightarrow> s' = s1 \<and> dr_outcome report = EmptyEligibleSet \<and> dr_job_id report = None
      | Some selection \<Rightarrow> \<exists>rows exclusions. claim_and_enqueue env selection
          (map fst (filter (\<lambda>(_, a). a = None) (zip (concat scans) answers))) rows exclusions s1 = (Inr report, s')"
    by (rule run_pass_steps [OF assms(1)]) (rule that)
  have "idle_in env (ds_acts s) (ds_jobs_by_issue s) s" using assms(2) by (simp add: idle_in_def)
  from each_exclude [OF steps(1) this] have acts: "ds_acts s1 = ds_acts s" by (simp add: idle_in_def)
  show ?thesis
  proof (cases "select_top_ranked (map fst (filter (\<lambda>(_, a). a = None) (zip (concat scans) answers))) (de_draw env)")
    case None
    then show ?thesis using steps(2) acts by simp
  next
    case (Some selection)
    then obtain rows exclusions where claim: "claim_and_enqueue env selection
        (map fst (filter (\<lambda>(_, a). a = None) (zip (concat scans) answers))) rows exclusions s1 = (Inr report, s')"
      using steps(2) by auto
    show ?thesis
    proof (rule claim_and_enqueue_cases [OF claim], elim disjE conjE, goal_cases)
      case 1
      then show ?case using acts by simp
    next
      case (2 winner)
      from launch_cases [OF 2(3)] show ?case
        using acts by (elim disjE conjE exE) (auto simp: launched_def fire_acts_def)
    qed
  qed
qed

text \<open>Claim C21. A failure that still stands is not fired again: while the issue has not moved past the reading
  remembered after the failure, no pass claims it, and the pass keeps the memory.\<close>

theorem standing_failure_is_not_refired:
  assumes "run_pass env s = (Inr report, s')" and "coherent env s" and "remembers k r s"
    and "\<And>team found. de_scan env team = Inr found \<Longrightarrow> standing k r found"
    and "\<And>key i. de_read_issue env key = Inr i \<Longrightarrow> ti_issue_key i = key"
    and "\<And>keys. keys \<noteq> [] \<Longrightarrow> de_draw env keys \<in> set keys" and "rm_clause r \<noteq> LiveBlocker"
  shows "(\<forall>st. Claimed k st \<notin> set (drop (length (ds_acts s)) (ds_acts s'))) \<and> remembers k r s'"
proof -
  obtain team_keys scans answers s1 where steps:
    "each_of (\<lambda>team. call (de_scan env team)) team_keys s = (Inr scans, s)"
    "each_of (exclude env team_keys) (concat scans) s = (Inr answers, s1)"
    "case select_top_ranked (map fst (filter (\<lambda>(_, a). a = None) (zip (concat scans) answers))) (de_draw env) of
        None \<Rightarrow> s' = s1 \<and> dr_outcome report = EmptyEligibleSet \<and> dr_job_id report = None
      | Some selection \<Rightarrow> \<exists>rows exclusions. claim_and_enqueue env selection
          (map fst (filter (\<lambda>(_, a). a = None) (zip (concat scans) answers))) rows exclusions s1 = (Inr report, s')"
    by (rule run_pass_steps [OF assms(1)]) (rule that)
  have idle: "idle_in env (ds_acts s) (ds_jobs_by_issue s) s" using assms(2) by (simp add: idle_in_def)
  have acts: "ds_acts s1 = ds_acts s" using each_exclude [OF steps(2) idle] by (simp add: idle_in_def)
  have "standing k r (concat scans)"
    unfolding standing_def
  proof (intro conjI ballI impI assms(7))
    fix i assume "i \<in> set (concat scans)" "ti_issue_key i = k"
    then obtain found where "found \<in> set scans" "i \<in> set found" by auto
    then show "ti_updated_at i \<le> rm_updated_at r"
      using each_of_scan [OF steps(1)] assms(4) \<open>ti_issue_key i = k\<close> unfolding standing_def by blast
  qed
  from each_exclude_standing [OF steps(2) assms(3) this]
  have kept: "remembers k r s1" and out: "\<forall>(i, a) \<in> set (zip (concat scans) answers). ti_issue_key i = k \<longrightarrow> a \<noteq> None"
    by auto
  show ?thesis
  proof (cases "select_top_ranked (map fst (filter (\<lambda>(_, a). a = None) (zip (concat scans) answers))) (de_draw env)")
    case None
    then show ?thesis using steps(3) acts kept by simp
  next
    case (Some selection)
    then obtain rows exclusions where claim: "claim_and_enqueue env selection
        (map fst (filter (\<lambda>(_, a). a = None) (zip (concat scans) answers))) rows exclusions s1 = (Inr report, s')"
      using steps(3) by auto
    have "sel_winner_key selection \<noteq> k"
      using winner_is_eligible [OF Some assms(6)] filtered_zip out by (metis (mono_tags, lifting) case_prodD)
    then show ?thesis
      using claim_spares [OF claim _ assms(5) kept] acts by simp
  qed
qed

lemma bound_entry:
  assumes "wf_dict (op_teams operation)" and "team \<in> set (teams_bound_to operation url)"
  shows "\<exists>entry. map_of (op_teams operation) team = Some entry \<and>
    (te_repository entry = Some url \<or> te_repository entry = None \<and> op_repos operation = [url])"
  using assms by (fastforce simp: teams_bound_to_def binds_implicitly_def)

lemma scanned_unbound:
  assumes "wf_dict (op_teams operation)" and "team \<in> set (teams_scanned_by operation url)"
    and "team \<notin> set (teams_bound_to operation url)"
  shows "1 < length (op_repos operation) \<and>
    (\<exists>entry. map_of (op_teams operation) team = Some entry \<and> te_repository entry = None)"
  using assms by (fastforce simp: teams_scanned_by_def split: if_splits)

text \<open>Claim C34. The passes of two repositories of one operation never both admit an issue, so it is not the
  order of their ticks that decides which repository a fire runs in.\<close>

theorem no_issue_has_two_passes:
  assumes "de_repo_url env \<noteq> de_repo_url env'" and "de_operation env' = de_operation env"
    and "wf_dict (op_teams (de_operation env))" and "coherent env s" and "coherent env' s'"
    and "team_keys_for_repo (de_operation env) (de_repo_url env) = Inr keys"
    and "team_keys_for_repo (de_operation env) (de_repo_url env') = Inr keys'"
    and "de_recorded_repository env' (ti_issue_key issue) = de_recorded_repository env (ti_issue_key issue)"
  shows "\<not> (fst (exclude env keys issue s) = Inr None \<and> fst (exclude env' keys' issue s') = Inr None)"
proof
  assume both: "fst (exclude env keys issue s) = Inr None \<and> fst (exclude env' keys' issue s') = Inr None"
  let ?op = "de_operation env"
  have a: "eligible_now env keys (ds_jobs_by_issue s) issue"
    by (rule exclude_None [of _ _ _ _ "snd (exclude env keys issue s)" "ds_acts s"])
      (use both assms(4) in \<open>simp_all add: idle_in_def prod_eq_iff\<close>)
  have b: "eligible_now env' keys' (ds_jobs_by_issue s') issue"
    by (rule exclude_None [of _ _ _ _ "snd (exclude env' keys' issue s')" "ds_acts s'"])
      (use both assms(5) in \<open>simp_all add: idle_in_def prod_eq_iff\<close>)
  obtain team where team: "ti_team_key issue = Some team" "team \<in> set keys" "team \<in> set keys'"
    using a b by (auto simp: eligible_now_def clause_in_team_def split: option.splits)
  have keys: "keys = teams_scanned_by ?op (de_repo_url env)" "keys' = teams_scanned_by ?op (de_repo_url env')"
    using assms(6,7) by (auto simp: team_keys_for_repo_def Let_def split: if_splits)
  have routes: "team \<in> set (teams_bound_to ?op (de_repo_url env)) \<or>
      de_recorded_repository env (ti_issue_key issue) = Inr (Some (de_repo_url env))"
    "team \<in> set (teams_bound_to ?op (de_repo_url env')) \<or>
      de_recorded_repository env (ti_issue_key issue) = Inr (Some (de_repo_url env'))"
    using a b team(1) assms(2,8) by (auto simp: eligible_now_def routed_def)
  have unbound: "team \<in> set (teams_bound_to ?op u) \<Longrightarrow> team \<notin> set (teams_bound_to ?op v) \<Longrightarrow>
      team \<in> set (teams_scanned_by ?op v) \<Longrightarrow> False" for u v
    using bound_entry [OF assms(3), of team u] scanned_unbound [OF assms(3), of team v] by fastforce
  have "team \<in> set (teams_bound_to ?op u) \<Longrightarrow> team \<in> set (teams_bound_to ?op v) \<Longrightarrow> u = v" for u v
    using bound_entry [OF assms(3), of team u] bound_entry [OF assms(3), of team v] by auto
  then show False using routes unbound team(2,3) keys assms(1) by (metis Inr_inject option.inject)
qed

subsection \<open>A board to run on\<close>

definition board_issue :: "string \<Rightarrow> issue_priority \<Rightarrow> string list \<Rightarrow> workflow_state_kind \<Rightarrow> tracker_issue" where
  "board_issue key priority blockers state =
     \<lparr>ti_issue_key = key, ti_title = key, ti_body = ''body'', ti_priority = priority, ti_state_name = ''Todo'',
      ti_state_kind = state, ti_queue_states = [Approved], ti_issue_labels = [], ti_team_key = Some ''ENG'',
      ti_project = None, ti_project_id = None, ti_milestone_key = None,
      ti_relations = map (\<lambda>b. \<lparr>ir_kind = BlockedBy, ir_issue_key = b\<rparr>) blockers,
      ti_parent_key = None, ti_assignee_key = None, ti_created_at = 1, ti_updated_at = 5, ti_url = ''''\<rparr>"

definition sample_env :: "string \<Rightarrow> dispatch_env" where
  "sample_env repo_url =
     \<lparr>de_operation = \<lparr>op_teams = [(''ENG'', \<lparr>te_repository = None, te_scope = [], te_visibility = None\<rparr>)],
                      op_repos = [''repo'', ''other'']\<rparr>,
      de_repo_url = repo_url, de_lane = ''fire'', de_holder = ''h'', de_cooldown_seconds = 60,
      de_draw = hd, de_clock = (\<lambda>_. 0),
      de_scan = (\<lambda>_. Inr [board_issue ''K-1'' Low [] UnstartedState, board_issue ''K-2'' Urgent [] UnstartedState]),
      de_read_issue = (\<lambda>k. Inr (board_issue k Urgent [] UnstartedState)),
      de_refreshed = (\<lambda>k. Inr (board_issue k Urgent [] UnstartedState)),
      de_recorded_repository = (\<lambda>_. Inr (Some ''repo'')), de_initiatives = (\<lambda>_. Inr []),
      de_active_claim = (\<lambda>_. Inr None), de_job_state = (\<lambda>_. Inr None),
      de_open_delivery = (\<lambda>_. Inr False),
      de_claim = (\<lambda>k. Inr \<lparr>cr_issue_key = k, cr_status = Granted, cr_holder = ''h'', cr_expires_at = 60,
        cr_current_holder = None\<rparr>),
      de_release = (\<lambda>_. Inr ()), de_resolve = (\<lambda>_. Inr (BaseResolved (trunk_base ''main''))),
      de_assemble = (\<lambda>_ _. Inr ''prompt''), de_recorded_base = (\<lambda>_. Inr None),
      de_record_base = (\<lambda>_. Inr ()), de_submit = (\<lambda>_. Inr ''job-1'')\<rparr>"

lemma new_dispatcher_coherent: "coherent env (new_dispatcher\<lparr>ds_remembered := m\<rparr>)" "coherent env new_dispatcher"
  by (simp_all add: coherent_def new_dispatcher_def)

lemma sample_draw: "keys \<noteq> [] \<Longrightarrow> de_draw (sample_env repo_url) keys \<in> set keys"
  by (simp add: sample_env_def)

lemma sample_pass:
  "\<exists>report s'. run_pass (sample_env ''repo'') new_dispatcher = (Inr report, s') \<and>
     dr_outcome report = FireEnqueued \<and> dr_claimed_issue_key report = Some ''K-2'' \<and> dr_eligible report = [''K-1'', ''K-2'']"
proof -
  let ?run = "run_pass (sample_env ''repo'') new_dispatcher"
  have "case ?run of (Inl _, _) \<Rightarrow> False | (Inr report, _) \<Rightarrow> dr_outcome report = FireEnqueued \<and>
      dr_claimed_issue_key report = Some ''K-2'' \<and> dr_eligible report = [''K-1'', ''K-2'']"
    by code_simp
  then show ?thesis by (cases ?run; cases "fst ?run") auto
qed


lemma pass_spends_one_claim_witness:
  "\<exists>report s' spec job request. run_pass (sample_env ''repo'') new_dispatcher = (Inr report, s') \<and>
     dr_job_id report = Some job \<and>
     (\<exists>k. ds_acts s' = [Claimed k Granted, BaseSpecRecorded k spec, Submitted job request])"
proof -
  obtain report s' where run: "run_pass (sample_env ''repo'') new_dispatcher = (Inr report, s')"
    "dr_outcome report = FireEnqueued" using sample_pass by blast
  from pass_spends_one_claim [OF run(1) new_dispatcher_coherent(2)] run
  show ?thesis by (auto simp: new_dispatcher_def)
qed

definition failed_before :: "(string, remembered_exclusion) pydict" where
  "failed_before = [(''K-2'', \<lparr>rm_updated_at = 5, rm_clause = RunFailed, rm_detail = ''failed''\<rparr>)]"

lemma standing_failure_is_not_refired_witness:
  "\<exists>report s'. run_pass (sample_env ''repo'') (new_dispatcher\<lparr>ds_remembered := failed_before\<rparr>) = (Inr report, s') \<and>
     dr_claimed_issue_key report = Some ''K-1'' \<and> (\<forall>st. Claimed ''K-2'' st \<notin> set (ds_acts s'))"
proof -
  let ?s = "new_dispatcher\<lparr>ds_remembered := failed_before\<rparr>"
  let ?run = "run_pass (sample_env ''repo'') ?s"
  let ?r = "\<lparr>rm_updated_at = 5, rm_clause = RunFailed, rm_detail = ''failed''\<rparr> :: remembered_exclusion"
  have "case ?run of (Inl _, _) \<Rightarrow> False | (Inr report, _) \<Rightarrow> dr_claimed_issue_key report = Some ''K-1''"
    by code_simp
  then obtain report s' where run: "?run = (Inr report, s')" "dr_claimed_issue_key report = Some ''K-1''"
    by (cases ?run; cases "fst ?run") auto
  have "remembers ''K-2'' ?r ?s" by (simp add: remembers_def failed_before_def)
  moreover have "standing ''K-2'' ?r found" if "de_scan (sample_env ''repo'') team = Inr found" for team found
    using that by (auto simp: sample_env_def standing_def board_issue_def)
  moreover have "de_read_issue (sample_env ''repo'') key = Inr i \<Longrightarrow> ti_issue_key i = key" for key i
    by (auto simp: sample_env_def board_issue_def)
  moreover have "rm_clause ?r \<noteq> LiveBlocker" by simp
  ultimately have "\<forall>st. Claimed ''K-2'' st \<notin> set (drop (length (ds_acts ?s)) (ds_acts s'))"
    using standing_failure_is_not_refired [OF run(1) new_dispatcher_coherent(1) _ _ _ sample_draw, of "''K-2''" ?r]
    by blast
  moreover have "drop (length (ds_acts ?s)) (ds_acts s') = ds_acts s'" by (simp add: new_dispatcher_def)
  ultimately show ?thesis using run by auto
qed

lemma no_issue_has_two_passes_witness:
  "fst (exclude (sample_env ''repo'') [''ENG''] (board_issue ''K-1'' Low [] UnstartedState) new_dispatcher) = Inr None \<and>
   fst (exclude (sample_env ''other'') [''ENG''] (board_issue ''K-1'' Low [] UnstartedState) new_dispatcher) \<noteq> Inr None"
proof
  show admitted: "fst (exclude (sample_env ''repo'') [''ENG''] (board_issue ''K-1'' Low [] UnstartedState) new_dispatcher)
      = Inr None" by code_simp
  have url: "de_repo_url (sample_env u) = u" for u by (simp add: sample_env_def)
  have urls: "de_repo_url (sample_env ''repo'') \<noteq> de_repo_url (sample_env ''other'')" by (simp add: url)
  have same: "de_operation (sample_env ''other'') = de_operation (sample_env ''repo'')"
    "de_recorded_repository (sample_env ''other'') key = de_recorded_repository (sample_env ''repo'') key" for key
    by (simp_all add: sample_env_def)
  have wf: "wf_dict (op_teams (de_operation (sample_env ''repo'')))" by code_simp
  have keys: "team_keys_for_repo (de_operation (sample_env ''repo'')) (de_repo_url (sample_env ''repo'')) = Inr [''ENG'']"
    "team_keys_for_repo (de_operation (sample_env ''repo'')) (de_repo_url (sample_env ''other'')) = Inr [''ENG'']"
    by code_simp+
  show "fst (exclude (sample_env ''other'') [''ENG''] (board_issue ''K-1'' Low [] UnstartedState) new_dispatcher)
      \<noteq> Inr None"
    using no_issue_has_two_passes [OF urls same(1) wf new_dispatcher_coherent(2) new_dispatcher_coherent(2)
        keys same(2), of "board_issue ''K-1'' Low [] UnstartedState"] admitted by blast
qed

end
