(* ===== verification/Markers.thy ===== *)
theory Markers
  imports BaseResolution SurfaceLease
begin

section \<open>Comment markers and the pure rules of tracker writes\<close>

text \<open>
  \<^verbatim>\<open>domain/comment_markers.py\<close>, \<^verbatim>\<open>domain/tracker_writes.py\<close>
  and the marker prefixes of \<^verbatim>\<open>types/domain/operation.py\<close>: the identity a comment is found by, how a marked
  comment is written and read back, and what makes a write stale. Strings are their UTF-8 bytes;
  the line boundaries of \<^verbatim>\<open>str.splitlines\<close> are the ASCII ones.
\<close>

subsection \<open>Percent encoding\<close>

definition quote_safe :: "char \<Rightarrow> bool" where
  "quote_safe c \<longleftrightarrow>
     c \<in> set ''ABCDEFGHIJKLMNOPQRSTUVWXYZabcdefghijklmnopqrstuvwxyz0123456789_.-~''"

definition hex_digit :: "nat \<Rightarrow> char" where
  "hex_digit n = ''0123456789ABCDEF'' ! n"

fun quote :: "string \<Rightarrow> string" where
  "quote [] = []"
| "quote (c # s) =
     (if quote_safe c then c # quote s
      else CHR ''%'' # hex_digit (of_char c div 16) # hex_digit (of_char c mod 16) # quote s)"

definition marker_char :: "char \<Rightarrow> bool" where
  "marker_char c \<longleftrightarrow> quote_safe c \<or> c = CHR ''%''"

lemma hex_digit_safe: "n < 16 \<Longrightarrow> quote_safe (hex_digit n)"
proof -
  have "list_all quote_safe ''0123456789ABCDEF''" by code_simp
  then show "n < 16 \<Longrightarrow> quote_safe (hex_digit n)" by (simp add: hex_digit_def list_all_length)
qed

lemma hex_digit_inject: "m < 16 \<Longrightarrow> n < 16 \<Longrightarrow> hex_digit m = hex_digit n \<longleftrightarrow> m = n"
proof -
  have "distinct ''0123456789ABCDEF''" by code_simp
  then show "m < 16 \<Longrightarrow> n < 16 \<Longrightarrow> hex_digit m = hex_digit n \<longleftrightarrow> m = n"
    by (simp add: hex_digit_def nth_eq_iff_index_eq)
qed

lemma of_char_bound: "(of_char c :: nat) < 256"
proof -
  have "of_char (char_of (of_char c :: nat)) = (of_char c mod 256 :: nat)" by (rule of_char_of)
  then show ?thesis by simp
qed

lemma quote_chars: "c \<in> set (quote s) \<Longrightarrow> marker_char c"
  by (induction s)
    (auto simp: marker_char_def hex_digit_safe of_char_bound less_mult_imp_div_less split: if_splits)

lemma quote_Nil [simp]: "quote s = [] \<longleftrightarrow> s = []"
  by (cases s) auto

lemma quote_inject: "quote s = quote t \<longleftrightarrow> s = t"
proof (induction s arbitrary: t)
  case (Cons c s)
  show ?case
  proof (cases t)
    case (Cons d t')
    have "\<not> quote_safe (CHR ''%'')" by code_simp
    moreover have "of_char c = (of_char d :: nat)"
      if "of_char c div 16 = (of_char d div 16 :: nat)" "of_char c mod 16 = (of_char d mod 16 :: nat)"
      using that by (metis div_mult_mod_eq)
    ultimately show ?thesis using Cons.IH [of t'] Cons
      by (auto simp: hex_digit_inject of_char_bound less_mult_imp_div_less)
  qed simp
next
  case Nil
  show ?case by (metis quote_Nil quote.simps(1))
qed

subsection \<open>The marker of one record\<close>

datatype marker_error = MemberAbsent string | EmptyMarkerComponent

definition configured_marker_prefix :: "(string, string) pydict \<Rightarrow> string \<Rightarrow> marker_error + string" where
  "configured_marker_prefix prefixes purpose =
     (case map_of prefixes purpose of None \<Rightarrow> Inl (MemberAbsent purpose) | Some prefix \<Rightarrow> Inr prefix)"

definition compose_comment_marker ::
  "(string, string) pydict \<Rightarrow> string \<Rightarrow> string \<Rightarrow> string option \<Rightarrow> marker_error + string" where
  "compose_comment_marker prefixes purpose lane occurrence_key =
     bind_sum (configured_marker_prefix prefixes purpose) (\<lambda>prefix.
     if lane = [] \<or> occurrence_key = Some [] then Inl EmptyMarkerComponent
     else Inr (''['' @ join '':'' ([prefix, quote lane] @
            (case occurrence_key of None \<Rightarrow> [] | Some key \<Rightarrow> [quote key])) @ '']''))"

text \<open>What the operation's structure check reports of its prefixes.\<close>

datatype prefix_failure = NotOneToken string | NotUnique string string

definition marker_prefix_failures :: "(string, string) pydict \<Rightarrow> prefix_failure list" where
  "marker_prefix_failures prefixes =
     map (\<lambda>(purpose, prefix). NotOneToken purpose)
       (filter (\<lambda>(purpose, prefix). purpose = [] \<or> prefix = [] \<or>
          list_ex (\<lambda>c. py_isspace c \<or> c \<in> set ''<>[]:'' \<or> c = CHR 0x22) prefix) prefixes) @
     map (\<lambda>(purpose, prefix). NotUnique purpose prefix)
       (filter (\<lambda>(purpose, prefix). 1 < count_list (dict_values prefixes) prefix) prefixes)"

lemma first_split:
  "x @ c # r = y @ c # q \<Longrightarrow> c \<notin> set x \<Longrightarrow> c \<notin> set y \<Longrightarrow> x = y \<and> r = q"
proof (induction x arbitrary: y)
  case (Cons a x)
  then show ?case by (cases y) auto
next
  case Nil
  then show ?case by (cases y) auto
qed

lemma join_inject:
  assumes "\<forall>x \<in> set xs. sep \<notin> set x" and "\<forall>y \<in> set ys. sep \<notin> set y" and "xs \<noteq> []" and "ys \<noteq> []"
    and "join [sep] xs = join [sep] ys"
  shows "xs = ys"
  using assms
proof (induction xs arbitrary: ys)
  case (Cons x xs)
  then obtain y ys' where ys: "ys = y # ys'" by (cases ys) auto
  have x: "sep \<notin> set x" and y: "sep \<notin> set y" using Cons.prems ys by auto
  have shape: "join [sep] (z # zs) = (if zs = [] then z else z @ sep # join [sep] zs)" for z zs
    by (cases zs) auto
  show ?case
  proof (cases "xs = [] \<or> ys' = []")
    case True
    then show ?thesis using Cons.prems(5) x y unfolding ys shape
      by (auto split: if_splits dest: arg_cong [of _ _ set])
  next
    case False
    then have "x @ sep # join [sep] xs = y @ sep # join [sep] ys'" using Cons.prems(5) unfolding ys shape by simp
    then have "x = y \<and> join [sep] xs = join [sep] ys'"
      using x y by (rule first_split)
    then show ?thesis using Cons.IH [of ys'] Cons.prems False ys by simp
  qed
qed simp

definition valid_marker_prefixes :: "(string, string) pydict \<Rightarrow> bool" where
  "valid_marker_prefixes prefixes \<longleftrightarrow> wf_dict prefixes \<and> marker_prefix_failures prefixes = []"

lemma valid_prefix:
  assumes "valid_marker_prefixes prefixes" and "map_of prefixes purpose = Some prefix"
  shows "prefix \<noteq> [] \<and> (\<forall>c \<in> set prefix. \<not> py_isspace c \<and> c \<notin> set ''<>[]:'')"
proof -
  have "(purpose, prefix) \<in> set prefixes" using assms(2) by (rule map_of_SomeD)
  then show ?thesis using assms(1)
    unfolding valid_marker_prefixes_def marker_prefix_failures_def
    by (fastforce simp: filter_empty_conv list_ex_iff)
qed

lemma valid_prefix_unique:
  assumes "valid_marker_prefixes prefixes" and "map_of prefixes p = Some prefix"
    and "map_of prefixes q = Some prefix"
  shows "p = q"
proof (rule ccontr)
  assume "p \<noteq> q"
  have mem: "(p, prefix) \<in> set prefixes" "(q, prefix) \<in> set prefixes"
    using assms(2,3) by (auto dest: map_of_SomeD)
  then obtain a b where ab: "prefixes = a @ (p, prefix) # b" by (meson split_list)
  then have "(q, prefix) \<in> set (a @ b)" using mem(2) \<open>p \<noteq> q\<close> by auto
  then have "prefix \<in> set (map snd (a @ b))" by force
  then have "0 < count_list (map snd (a @ b)) prefix" by (metis count_list_0_iff gr0I)
  then have "1 < count_list (dict_values prefixes) prefix" by (simp add: ab)
  then show False using assms(1) mem(1)
    unfolding valid_marker_prefixes_def marker_prefix_failures_def by (fastforce simp: filter_empty_conv)
qed

lemma composed_marker:
  "compose_comment_marker prefixes purpose lane key = Inr m \<longleftrightarrow>
     (\<exists>prefix. map_of prefixes purpose = Some prefix \<and> lane \<noteq> [] \<and> key \<noteq> Some [] \<and>
        m = ''['' @ join '':'' ([prefix, quote lane] @ (case key of None \<Rightarrow> [] | Some k \<Rightarrow> [quote k])) @ '']'')"
  by (auto simp: compose_comment_marker_def configured_marker_prefix_def split: option.splits)

lemma marker_identifies:
  assumes "valid_marker_prefixes prefixes"
    and "compose_comment_marker prefixes p lane key = Inr m"
    and "compose_comment_marker prefixes q lane' key' = Inr m"
  shows "p = q \<and> lane = lane' \<and> key = key'"
proof -
  define parts :: "string \<Rightarrow> string \<Rightarrow> string option \<Rightarrow> string list" where
    "parts prefix l k = [prefix, quote l] @ (case k of None \<Rightarrow> [] | Some n \<Rightarrow> [quote n])" for prefix l k
  obtain f g where f: "map_of prefixes p = Some f" "m = ''['' @ join '':'' (parts f lane key) @ '']''"
    and g: "map_of prefixes q = Some g" "m = ''['' @ join '':'' (parts g lane' key') @ '']''"
    using assms(2,3) by (auto simp: composed_marker parts_def)
  have colon: "CHR '':'' \<notin> set (quote s)" for s
  proof -
    have "\<not> marker_char (CHR '':'')" by code_simp
    then show ?thesis using quote_chars by blast
  qed
  have free: "\<forall>x \<in> set (parts prefix l k). CHR '':'' \<notin> set x" if "map_of prefixes r = Some prefix" for prefix l k r
    using valid_prefix [OF assms(1) that] colon by (auto simp: parts_def split: option.splits)
  have "join [CHR '':''] (parts f lane key) = join [CHR '':''] (parts g lane' key')"
    using f(2) g(2) by simp
  then have same: "parts f lane key = parts g lane' key'"
    using join_inject [OF free [OF f(1)] free [OF g(1)]] by (simp add: parts_def)
  then have "f = g" "lane = lane'" "key = key'"
    by (auto simp: parts_def quote_inject split: option.splits)
  then show ?thesis using valid_prefix_unique [OF assms(1) f(1)] g(1) by simp
qed

text \<open>Claim C25. Under prefixes the operation's structure check accepts, a marker identifies its purpose, its
  lane and its occurrence key: two composed markers are equal only when all three are.\<close>

theorem marker_identifies_record:
  assumes "valid_marker_prefixes prefixes"
    and "compose_comment_marker prefixes p lane key = Inr m"
    and "compose_comment_marker prefixes q lane' key' = Inr m"
  shows "p = q \<and> lane = lane' \<and> key = key'"
  using assms by (rule marker_identifies)

lemma marker_identifies_record_witness:
  "\<exists>m n. compose_comment_marker [(''run_state'', ''kz-run'')] ''run_state'' ''a:b'' None = Inr m \<and>
     compose_comment_marker [(''run_state'', ''kz-run'')] ''run_state'' ''a'' (Some ''b'') = Inr n \<and>
     m = ''[kz-run:a%3Ab]'' \<and> n = ''[kz-run:a:b]'' \<and> m \<noteq> n"
proof -
  let ?p = "[(''run_state'', ''kz-run'')] :: (string, string) pydict"
  have valid: "valid_marker_prefixes ?p" by code_simp
  have m: "compose_comment_marker ?p ''run_state'' ''a:b'' None = Inr ''[kz-run:a%3Ab]''" by code_simp
  have n: "compose_comment_marker ?p ''run_state'' ''a'' (Some ''b'') = Inr ''[kz-run:a:b]''" by code_simp
  have "''[kz-run:a%3Ab]'' \<noteq> ''[kz-run:a:b]''"
    using marker_identifies_record [OF valid m] n by blast
  then show ?thesis using m n by blast
qed

subsection \<open>Lines\<close>

definition line_break :: "char \<Rightarrow> bool" where
  "line_break c \<longleftrightarrow> c \<in> set [CHR 0x0A, CHR 0x0B, CHR 0x0C, CHR 0x0D, CHR 0x1C, CHR 0x1D, CHR 0x1E]"

definition skip_line_feed :: "string \<Rightarrow> string" where
  "skip_line_feed s = (if take 1 s = [CHR 0x0A] then drop 1 s else s)"

function lines_from :: "string \<Rightarrow> string \<Rightarrow> string list" where
  "lines_from acc [] = (if acc = [] then [] else [rev acc])"
| "lines_from acc (c # s) =
     (if c = CHR 0x0D
      then rev acc # lines_from [] (skip_line_feed s)
      else if line_break c then rev acc # lines_from [] s
      else lines_from (c # acc) s)"
  by pat_completeness auto
termination
  by (relation "measure (length \<circ> snd)") (auto simp: skip_line_feed_def)

definition splitlines :: "string \<Rightarrow> string list" where
  "splitlines s = lines_from [] s"

lemma lines_from_unbroken:
  "\<not> list_ex line_break s \<Longrightarrow> lines_from acc s = (if acc = [] \<and> s = [] then [] else [rev acc @ s])"
  by (induction s arbitrary: acc) (auto simp: line_break_def)

lemma lines_from_first:
  "\<not> list_ex line_break s \<Longrightarrow> line_break c \<Longrightarrow>
     \<exists>rest. lines_from acc (s @ c # t) = (rev acc @ s) # rest"
proof (induction s arbitrary: acc)
  case (Cons a s)
  then have "\<not> line_break a" "a \<noteq> CHR 0x0D" by (auto simp: line_break_def)
  moreover obtain rest where "lines_from (a # acc) (s @ c # t) = (rev (a # acc) @ s) # rest"
    using Cons.IH [of "a # acc"] Cons.prems by auto
  ultimately show ?case by simp
qed (auto simp: line_break_def)

lemma splitlines_single: "splitlines s = [s] \<longleftrightarrow> s \<noteq> [] \<and> \<not> list_ex line_break s"
proof
  assume single: "splitlines s = [s]"
  have "\<not> list_ex line_break s"
  proof
    assume "list_ex line_break s"
    then obtain a c b where s: "s = a @ c # b" "line_break c" "\<forall>d \<in> set a. \<not> line_break d"
      using split_list_first_prop [of s line_break] by (auto simp: list_ex_iff)
    then have "\<not> list_ex line_break a" by (simp add: list_ex_iff)
    then obtain rest where "splitlines s = a # rest"
      using lines_from_first [OF _ s(2), of a "[]" b] s(1) by (auto simp: splitlines_def)
    then show False using single s(1) by simp
  qed
  then show "s \<noteq> [] \<and> \<not> list_ex line_break s" using single by (auto simp: splitlines_def)
qed (simp add: splitlines_def lines_from_unbroken)

subsection \<open>Writing and reading one marked comment\<close>

record tracker_comment =
  tc_comment_key :: string
  tc_issue_key :: string
  tc_author_key :: "string option"
  tc_body :: string
  tc_created_at :: instant
  tc_reply_to :: "string option"

datatype write_error =
  MarkerNotOneLine string
| DuplicateCommentMarker string "string list"
| StaleWrite string
| StaleCommentWrite string string string

definition classification_surface :: "tracker_issue \<Rightarrow> writable_surface" where
  "classification_surface issue =
     \<lparr>su_kind = (if ''criterion'' \<in> set (ti_issue_labels issue) then CRITERION_SUB_ISSUE else ISSUE_LABEL_SET),
      su_ref = \<lparr>ref_kind = ISSUE, ref_key = ti_issue_key issue\<rparr>, su_marker = None\<rparr>"

definition marked_comment_body :: "string \<Rightarrow> string \<Rightarrow> write_error + string" where
  "marked_comment_body marker body =
     (if marker = [] \<or> splitlines marker \<noteq> [marker] then Inl (MarkerNotOneLine marker)
      else Inr (marker @ newline @ body))"

definition first_line :: "string \<Rightarrow> string" where
  "first_line body = takeWhile (\<lambda>c. c \<noteq> CHR 0x0A) body"

definition comment_under_marker ::
  "string \<Rightarrow> tracker_comment list \<Rightarrow> bool \<Rightarrow> write_error + tracker_comment option" where
  "comment_under_marker marker comments prefix =
     (let matches = filter (\<lambda>c. if prefix then take (length marker) (first_line (tc_body c)) = marker
                                 else take 1 (splitlines (tc_body c)) = [marker]) comments in
      case matches of
        [] \<Rightarrow> Inr None
      | [c] \<Rightarrow> Inr (Some c)
      | c # d # rest \<Rightarrow> Inl (DuplicateCommentMarker marker (map tc_comment_key matches)))"

definition description_replacement :: "string \<Rightarrow> string \<Rightarrow> string \<Rightarrow> string \<Rightarrow> write_error + string option"
  where
  "description_replacement target body expected replacement =
     (if expected = replacement \<or> body = replacement then Inr None
      else if body = expected then Inr (Some replacement)
      else Inl (StaleWrite target))"

definition require_expected_comment ::
  "string \<Rightarrow> string \<Rightarrow> tracker_comment \<Rightarrow> tracker_comment option \<Rightarrow> string \<Rightarrow> write_error + unit" where
  "require_expected_comment target marker expected current replacement =
     (let refuse = (\<lambda>reason. Inl (StaleCommentWrite target (tc_comment_key expected) reason)) in
      if tc_issue_key expected \<noteq> target \<or> tc_reply_to expected \<noteq> None \<or>
         take 1 (splitlines (tc_body expected)) \<noteq> [marker]
      then refuse ''the expected record does not address this root marker''
      else
        (case current of
           None \<Rightarrow> refuse ''the expected native comment is absent''
         | Some now \<Rightarrow>
             if now\<lparr>tc_body := tc_body expected\<rparr> \<noteq> expected
             then refuse ''the expected native identity or provenance changed''
             else if tc_body now \<noteq> tc_body expected \<and> tc_body now \<noteq> replacement
             then refuse ''the expected comment body changed''
             else Inr ()))"

lemma marked_body_found:
  assumes "marked_comment_body marker body = Inr b"
  shows "take 1 (splitlines b) = [m] \<longleftrightarrow> m = marker"
proof -
  have m: "\<not> list_ex line_break marker" and b: "b = marker @ CHR 0x0A # body"
    using assms by (auto simp: marked_comment_body_def newline_def splitlines_single split: if_splits)
  obtain rest where "splitlines b = marker # rest"
    using lines_from_first [OF m, of "CHR 0x0A" "[]" body] b by (auto simp: splitlines_def line_break_def)
  then show ?thesis by auto
qed

lemma composed_marker_is_one_line:
  assumes "valid_marker_prefixes prefixes" and "compose_comment_marker prefixes purpose lane key = Inr m"
  shows "m \<noteq> [] \<and> \<not> list_ex line_break m"
proof -
  obtain f where f: "map_of prefixes purpose = Some f"
    "m = ''['' @ join '':'' ([f, quote lane] @ (case key of None \<Rightarrow> [] | Some k \<Rightarrow> [quote k])) @ '']''"
    using assms(2) by (auto simp: composed_marker)
  have quoted: "\<not> list_ex line_break (quote s)" for s
  proof -
    have "list_all (\<lambda>c. \<not> marker_char c)
        [CHR 0x0A, CHR 0x0B, CHR 0x0C, CHR 0x0D, CHR 0x1C, CHR 0x1D, CHR 0x1E]" by code_simp
    then have "line_break c \<Longrightarrow> \<not> marker_char c" for c by (auto simp: line_break_def)
    then show ?thesis using quote_chars unfolding list_ex_iff by blast
  qed
  have "list_all py_isspace [CHR 0x0A, CHR 0x0B, CHR 0x0C, CHR 0x0D, CHR 0x1C, CHR 0x1D, CHR 0x1E]" by code_simp
  then have "line_break c \<Longrightarrow> py_isspace c" for c by (auto simp: line_break_def)
  then have "\<not> list_ex line_break f"
    using valid_prefix [OF assms(1) f(1)] unfolding list_ex_iff by blast
  moreover have "\<not> list_ex line_break ''[''" "\<not> list_ex line_break '']''" "\<not> list_ex line_break '':''"
    by code_simp+
  ultimately show ?thesis using quoted unfolding f(2) by (auto split: option.splits)
qed

end
