(* ===== verification/FireSpec.thy ===== *)
theory FireSpec
  imports Criteria Markers CrossOff
begin

section \<open>The subject of a fire and the rows of a criterion body\<close>

text \<open>
  \<^verbatim>\<open>types/domain/fire_spec.py\<close>, \<^verbatim>\<open>domain/fire_spec.py\<close>, \<^verbatim>\<open>domain/ticket.py\<close>,
  \<^verbatim>\<open>domain/criterion_evidence.py\<close> and \<^verbatim>\<open>domain/criterion_creation.py\<close>: what a fire is graded
  against, and the one Markdown grammar its criteria are read and edited by. The regular expressions
  are written out as the scanners they are; \<^verbatim>\<open>\d\<close> and \<^verbatim>\<open>\s\<close> are read on ASCII text. The
  JSON of an evidence record is a parameter.
\<close>

subsection \<open>Tickets and specs\<close>

record code_reference =
  cf_location :: string
  cf_note :: string

datatype change_type = CreateFile | ModifyFile | DeleteFile

fun change_type_value :: "change_type \<Rightarrow> string" where
  "change_type_value CreateFile = ''create''"
| "change_type_value ModifyFile = ''modify''"
| "change_type_value DeleteFile = ''delete''"

record file_change =
  fc_file_path :: string
  fc_change_type :: change_type
  fc_description :: string
  fc_rationale :: string

record ticket_draft =
  td_title :: string
  td_summary :: string
  td_context :: string
  td_references :: "code_reference list"
  td_required_changes :: "file_change list"
  td_out_of_scope :: "string list"
  td_open_questions :: "string list"

record tracker_spec =
  tk_subject :: string
  tk_body :: string
  tk_criteria :: "string list"
  tk_read_at_version :: string

datatype fire_spec = AuthoredSpec ticket_draft | TrackerSpec tracker_spec

definition valid_tracker_spec :: "tracker_spec \<Rightarrow> bool" where
  "valid_tracker_spec s \<longleftrightarrow>
     tk_subject s \<noteq> [] \<and> tk_read_at_version s \<noteq> [] \<and> list_all (\<lambda>c. c \<noteq> []) (tk_criteria s)"

definition blank_line :: string where "blank_line = newline @ newline"

definition bullets :: "string list \<Rightarrow> string" where
  "bullets items = join newline (map (\<lambda>item. ''- '' @ item) items)"

definition format_ticket_as_task :: "ticket_draft \<Rightarrow> string" where
  "format_ticket_as_task t =
     join blank_line
       ([''# '' @ td_title t,
         ''## Summary'' @ newline @ td_summary t,
         ''## Context'' @ newline @ td_context t] @
        (if td_references t = [] then []
         else [''## References'' @ newline @ join newline (map (\<lambda>r.
                 ''- `'' @ cf_location r @ ''` '' @ EM_DASH @ '' '' @ cf_note r) (td_references t))]) @
        [''## Required Changes'' @ newline @ join blank_line (map (\<lambda>c.
           ''### '' @ change_type_value (fc_change_type c) @ '': '' @ fc_file_path c @ newline @
           fc_description c @ newline @ fc_rationale c) (td_required_changes t))] @
        (if td_out_of_scope t = [] then []
         else [''## Out of Scope'' @ newline @ bullets (td_out_of_scope t)]) @
        (if td_open_questions t = [] then []
         else [''## Open Questions'' @ newline @ bullets (td_open_questions t)]))"

fun format_fire_spec :: "fire_spec \<Rightarrow> string" where
  "format_fire_spec (AuthoredSpec ticket) = format_ticket_as_task ticket"
| "format_fire_spec (TrackerSpec spec) = tk_body spec"

fun fire_spec_title :: "fire_spec \<Rightarrow> string" where
  "fire_spec_title (AuthoredSpec ticket) = td_title ticket"
| "fire_spec_title (TrackerSpec spec) = tk_subject spec"

definition body_digest :: "(string \<Rightarrow> string) \<Rightarrow> string \<Rightarrow> string" where
  "body_digest sha256 body = sha256 body"

subsection \<open>Lines\<close>

text \<open>The first line of a text, its terminator and what follows, as
  \<^verbatim>\<open>str.splitlines(keepends=True)\<close> cuts them.\<close>

fun take_line :: "string \<Rightarrow> string \<times> string \<times> string" where
  "take_line [] = ([], [], [])"
| "take_line (c # s) =
     (if c = CHR 0x0D
      then (if take 1 s = [CHR 0x0A] then ([], [CHR 0x0D, CHR 0x0A], drop 1 s)
            else ([], [CHR 0x0D], s))
      else if line_break c then ([], [c], s)
      else let (l, ending, rest) = take_line s in (c # l, ending, rest))"

lemma take_line_append: "take_line s = (l, ending, rest) \<Longrightarrow> l @ ending @ rest = s"
proof (induction s arbitrary: l ending rest)
  case (Cons c s)
  have "take 1 s = [CHR 0x0A] \<Longrightarrow> CHR 0x0A # drop 1 s = s" by (cases s) auto
  with Cons show ?case by (auto simp: Let_def split: if_splits prod.splits)
qed auto

lemma take_line_less:
  "s \<noteq> [] \<Longrightarrow> take_line s = (l, ending, rest) \<Longrightarrow> length rest < length s"
proof (induction s arbitrary: l ending rest)
  case (Cons c s)
  then show ?case
    by (cases "s = []") (fastforce simp: Let_def split: if_splits prod.splits)+
qed simp

function body_lines :: "string \<Rightarrow> (string \<times> string) list" where
  "body_lines s =
     (if s = [] then []
      else let (l, ending, rest) = take_line s in (l, ending) # body_lines rest)"
  by pat_completeness auto
termination
  by (relation "measure length") (auto dest: take_line_less [OF _ sym])

declare body_lines.simps [simp del]

lemma body_lines_Nil [simp]: "body_lines [] = []"
  by (simp add: body_lines.simps)

lemma body_lines_code [code]:
  "body_lines s =
     (case s of [] \<Rightarrow> []
      | _ \<Rightarrow> case take_line s of (l, ending, rest) \<Rightarrow> (l, ending) # body_lines rest)"
  by (subst body_lines.simps) (simp split: list.splits)

text \<open>Nothing of the text is lost.\<close>

lemma body_lines_concat: "concat (map (\<lambda>(l, ending). l @ ending) (body_lines s)) = s"
proof (induction s rule: length_induct)
  case (1 s)
  show ?case
  proof (cases "s = []")
    case False
    obtain l ending rest where t: "take_line s = (l, ending, rest)" by (cases "take_line s")
    have "concat (map (\<lambda>(l, ending). l @ ending) (body_lines rest)) = rest"
      using 1 take_line_less [OF False t] by blast
    then show ?thesis
      using False t take_line_append [OF t] by (subst body_lines.simps) (simp add: Let_def)
  qed simp
qed

subsection \<open>The grammar\<close>

definition lstrip :: "string \<Rightarrow> string" where
  "lstrip s = dropWhile py_isspace s"

definition rstrip :: "string \<Rightarrow> string" where
  "rstrip s = rev (dropWhile py_isspace (rev s))"

definition strip :: "string \<Rightarrow> string" where
  "strip s = rstrip (lstrip s)"

definition rstrip_chars :: "char list \<Rightarrow> string \<Rightarrow> string" where
  "rstrip_chars cs s = rev (dropWhile (\<lambda>c. c \<in> set cs) (rev s))"

text \<open>Up to three spaces of indentation; more and the patterns do not match.\<close>

definition unindented :: "string \<Rightarrow> string option" where
  "unindented line =
     (if length (takeWhile (\<lambda>c. c = CHR '' '') line) \<le> 3
      then Some (dropWhile (\<lambda>c. c = CHR '' '') line) else None)"

datatype criterion_field = CheckField | DoField | EvidenceField | ClassField

fun field_name :: "criterion_field \<Rightarrow> string" where
  "field_name CheckField = ''Check''"
| "field_name DoField = ''Do''"
| "field_name EvidenceField = ''Evidence''"
| "field_name ClassField = ''Class''"

definition criterion_fields :: "criterion_field list" where
  "criterion_fields = [CheckField, DoField, EvidenceField, ClassField]"

definition row_label :: "criterion_field \<Rightarrow> string" where
  "row_label f = ''**'' @ field_name f @ '':**''"

definition match_row :: "string \<Rightarrow> (criterion_field \<times> string) option" where
  "match_row line =
     (case unindented line of
        None \<Rightarrow> None
      | Some text \<Rightarrow>
          map_option (\<lambda>f. (f, drop (length (row_label f)) text))
            (find (\<lambda>f. startswith text (row_label f)) criterion_fields))"

text \<open>A fence: its character, its length and what follows it on the line.\<close>

definition match_fence :: "string \<Rightarrow> (char \<times> nat \<times> string) option" where
  "match_fence line =
     (case unindented line of
        None \<Rightarrow> None
      | Some [] \<Rightarrow> None
      | Some (c # text) \<Rightarrow>
          let run = Suc (length (takeWhile (\<lambda>d. d = c) text)) in
          if (c = CHR 0x60 \<or> c = CHR ''~'') \<and> 3 \<le> run then Some (c, run, drop run (c # text)) else None)"

definition match_heading :: "string \<Rightarrow> string option" where
  "match_heading line =
     (case unindented line of
        None \<Rightarrow> None
      | Some text \<Rightarrow>
          let level = length (takeWhile (\<lambda>c. c = CHR ''#'') text); after = drop level text in
          if 1 \<le> level \<and> level \<le> 6 \<and> after \<noteq> [] \<and> py_isspace (hd after)
          then Some (rstrip (rstrip_chars ''#'' (rstrip (lstrip after)))) else None)"

definition ascii_digit :: "char \<Rightarrow> bool" where
  "ascii_digit c \<longleftrightarrow> c \<in> set ''0123456789''"

definition match_list_item :: "string \<Rightarrow> string option" where
  "match_list_item line =
     (case unindented line of
        None \<Rightarrow> None
      | Some [] \<Rightarrow> None
      | Some (c # text) \<Rightarrow>
          let after =
            (if c \<in> set ''-*+'' then Some text
             else if ascii_digit c
             then (case dropWhile ascii_digit text of
                     [] \<Rightarrow> None
                   | d # tail \<Rightarrow> if d \<in> set ''.)'' then Some tail else None)
             else None) in
          (case after of
             None \<Rightarrow> None
           | Some s \<Rightarrow> if s \<noteq> [] \<and> py_isspace (hd s) then Some (lstrip s) else None))"

definition tab_or_space :: "char \<Rightarrow> bool" where
  "tab_or_space c \<longleftrightarrow> c = CHR '' '' \<or> c = CHR 0x09"

definition match_checklist_item :: "string \<Rightarrow> string option" where
  "match_checklist_item line =
     (case dropWhile tab_or_space line of
        [] \<Rightarrow> None
      | c # text \<Rightarrow>
          if c \<notin> set ''-*+'' \<or> text = [] \<or> \<not> tab_or_space (hd text) then None
          else
            let box = dropWhile tab_or_space text; after = drop 3 box in
            if take 3 box \<in> {''[ ]'', ''[x]'', ''[X]''} \<and> after \<noteq> [] \<and> tab_or_space (hd after)
            then let item = rstrip_chars [CHR '' '', CHR 0x09] (dropWhile tab_or_space after) in
                 if item \<noteq> [] \<and> \<not> py_isspace (last item) then Some item else None
            else None)"

definition checklist_items :: "string \<Rightarrow> string list" where
  "checklist_items body = map strip (List.map_filter match_checklist_item (splitlines body))"

text \<open>The text before the first occurrence of a mark and the text after it.\<close>

fun cut_at :: "string \<Rightarrow> string \<Rightarrow> (string \<times> string) option" where
  "cut_at mark s =
     (if startswith s mark then Some ([], drop (length mark) s)
      else case s of
             [] \<Rightarrow> None
           | c # s' \<Rightarrow> map_option (\<lambda>(before, after). (c # before, after)) (cut_at mark s'))"

declare cut_at.simps [simp del]

lemma cut_at_split: "cut_at mark s = Some (before, after) \<Longrightarrow> s = before @ mark @ after"
proof (induction mark s arbitrary: before rule: cut_at.induct)
  case (1 mark s)
  show ?case
  proof (cases "startswith s mark")
    case True
    then have "before = [] \<and> after = drop (length mark) s"
      using 1(2) by (subst (asm) cut_at.simps) auto
    moreover have "take (length mark) s @ drop (length mark) s = mark @ drop (length mark) s"
      using True by (simp add: startswith_def)
    ultimately show ?thesis by simp
  next
    case False
    then obtain c s' where s: "s = c # s'" using 1(2) by (subst (asm) cut_at.simps) (auto split: list.splits)
    obtain before' where b: "cut_at mark s' = Some (before', after)" "before = c # before'"
      using 1(2) False s by (subst (asm) cut_at.simps) auto
    then show ?thesis using 1(1) [OF False s] s by simp
  qed
qed

function without_comments :: "bool \<Rightarrow> string \<Rightarrow> string \<times> bool" where
  "without_comments True line =
     (case cut_at ''-->'' line of None \<Rightarrow> ([], True) | Some (_, after) \<Rightarrow> without_comments False after)"
| "without_comments False line =
     (case cut_at ''<!--'' line of
        None \<Rightarrow> (line, False)
      | Some (before, after) \<Rightarrow>
          let (text, open_comment) = without_comments True after in (before @ text, open_comment))"
  by pat_completeness auto
termination
  by (relation "measure (\<lambda>(_, line). length line)") (auto dest: cut_at_split)

subsection \<open>The rows of a body\<close>

record criterion_row =
  cw_label :: criterion_field
  cw_begin :: nat
  cw_end :: nat
  cw_text :: string

type_synonym fence = "(char \<times> nat) option"

record row_walk =
  wk_rows :: "criterion_row list"
  wk_label :: "criterion_field option"
  wk_begin :: nat
  wk_lines :: "string list"
  wk_fence :: fence
  wk_comment :: bool
  wk_offset :: nat

definition closes_fence :: "char \<times> nat \<Rightarrow> (char \<times> nat \<times> string) option \<Rightarrow> bool" where
  "closes_fence fence delimiter \<longleftrightarrow>
     (case delimiter of
        None \<Rightarrow> False
      | Some (c, run, after) \<Rightarrow> c = fst fence \<and> snd fence \<le> run \<and> strip after = [])"

definition opened_fence :: "(char \<times> nat \<times> string) option \<Rightarrow> fence" where
  "opened_fence delimiter = map_option (\<lambda>(c, run, _). (c, run)) delimiter"

definition row_text :: "string list \<Rightarrow> string" where
  "row_text lines = strip (join newline lines)"

definition closed_row :: "row_walk \<Rightarrow> nat \<Rightarrow> criterion_row list" where
  "closed_row w at =
     (case wk_label w of
        None \<Rightarrow> []
      | Some label \<Rightarrow>
          [\<lparr>cw_label = label, cw_begin = wk_begin w, cw_end = at, cw_text = row_text (wk_lines w)\<rparr>])"

definition walk_line :: "row_walk \<Rightarrow> string \<times> string \<Rightarrow> row_walk" where
  "walk_line w original =
     (let (raw, ending) = original;
          moved = w\<lparr>wk_offset := wk_offset w + length raw + length ending\<rparr> in
      case wk_fence w of
        Some fence \<Rightarrow>
          moved\<lparr>wk_lines := wk_lines w @ [raw],
                wk_fence := (if closes_fence fence (match_fence raw) then None else Some fence)\<rparr>
      | None \<Rightarrow>
          let (line, open_comment) = without_comments (wk_comment w) raw;
              delimiter = match_fence line;
              row = (if delimiter \<noteq> None then None else match_row line);
              walked = moved\<lparr>wk_comment := open_comment, wk_fence := opened_fence delimiter\<rparr> in
          (case row of
             None \<Rightarrow> walked\<lparr>wk_lines := wk_lines w @ [line]\<rparr>
           | Some (label, text) \<Rightarrow>
               walked\<lparr>wk_rows := wk_rows w @ closed_row w (wk_offset w), wk_label := Some label,
                      wk_begin := wk_offset w, wk_lines := [text]\<rparr>))"

definition start_walk :: row_walk where
  "start_walk = \<lparr>wk_rows = [], wk_label = None, wk_begin = 0, wk_lines = [], wk_fence = None,
                 wk_comment = False, wk_offset = 0\<rparr>"

definition walked_body :: "string \<Rightarrow> row_walk" where
  "walked_body body = foldl walk_line start_walk (body_lines body)"

definition criterion_rows :: "string \<Rightarrow> criterion_row list" where
  "criterion_rows body =
     wk_rows (walked_body body) @ closed_row (walked_body body) (length body)"

definition criterion_field_bodies :: "string \<Rightarrow> criterion_field \<Rightarrow> string list" where
  "criterion_field_bodies body f = map cw_text (filter (\<lambda>row. cw_label row = f) (criterion_rows body))"

definition DELIVERABLES_SECTION :: string where "DELIVERABLES_SECTION = ''Deliverables''"

text \<open>The walk of the deliverables section: active, fence, comment, items so far.\<close>

fun deliverables_from :: "bool \<Rightarrow> fence \<Rightarrow> bool \<Rightarrow> string list \<Rightarrow> string list" where
  "deliverables_from active fence open_comment [] = []"
| "deliverables_from active (Some f) open_comment (original # rest) =
     deliverables_from active (if closes_fence f (match_fence original) then None else Some f)
       open_comment rest"
| "deliverables_from active None open_comment (original # rest) =
     (let (line, open_comment) = without_comments open_comment original in
      case match_fence line of
        Some delimiter \<Rightarrow> deliverables_from active (opened_fence (Some delimiter)) open_comment rest
      | None \<Rightarrow>
          (case match_heading line of
             Some title \<Rightarrow>
               deliverables_from (strip title = DELIVERABLES_SECTION) None open_comment rest
           | None \<Rightarrow>
               (case (if active then match_list_item line else None) of
                  None \<Rightarrow> deliverables_from active None open_comment rest
                | Some item \<Rightarrow>
                    (if strip item \<noteq> [] then [strip item] else []) @
                    deliverables_from active None open_comment rest)))"

definition deliverables_section :: "string \<Rightarrow> string list" where
  "deliverables_section body = deliverables_from False None False (splitlines body)"

definition duplicated :: "string list \<Rightarrow> string list" where
  "duplicated names = sort (fromkeys (filter (\<lambda>n. 1 < count_list names n) names))"

definition duplicated_row_labels :: "string \<Rightarrow> string list" where
  "duplicated_row_labels body = duplicated (map (\<lambda>row. field_name (cw_label row)) (criterion_rows body))"

subsection \<open>The edit\<close>

datatype body_error = AmbiguousRows | FieldsNotDistinct

definition row_replacement :: "criterion_field \<Rightarrow> string \<Rightarrow> string" where
  "row_replacement f replacement = ''**'' @ field_name f @ '':** '' @ replacement @ newline @ newline"

definition replace_row :: "(criterion_field, string) pydict \<Rightarrow> string \<Rightarrow> criterion_row \<Rightarrow> string" where
  "replace_row replacements body row =
     foldl (\<lambda>body (f, replacement).
         if f = cw_label row
         then take (cw_begin row) body @ row_replacement f replacement @ drop (cw_end row) body
         else body) body replacements"

definition appended_field :: "criterion_field list \<Rightarrow> string \<Rightarrow> criterion_field \<times> string \<Rightarrow> string" where
  "appended_field names body entry =
     (case entry of (f, replacement) \<Rightarrow>
        if f \<in> set names then body
        else rstrip_chars newline body @ newline @ newline @ ''**'' @ field_name f @ '':** '' @
             replacement @ newline)"

fun settle_fields ::
  "criterion_field list \<Rightarrow> string \<Rightarrow> (criterion_field, string) pydict \<Rightarrow> body_error + string" where
  "settle_fields names body [] = Inr body"
| "settle_fields names body ((f, replacement) # entries) =
     (let result = appended_field names body (f, replacement) in
      if criterion_field_bodies result f \<noteq> [strip replacement] then Inl FieldsNotDistinct
      else settle_fields names result entries)"

definition replace_criterion_fields ::
  "string \<Rightarrow> (criterion_field, string) pydict \<Rightarrow> body_error + string" where
  "replace_criterion_fields body replacements =
     (let rows = criterion_rows body; names = map cw_label rows in
      if duplicated (map field_name names) \<noteq> [] then Inl AmbiguousRows
      else settle_fields names (foldl (replace_row replacements) body (rev rows)) replacements)"

subsection \<open>What an edit leaves alone\<close>

text \<open>The rows' spans follow one another from the first label to the end of the body.\<close>

fun spans :: "nat \<Rightarrow> criterion_row list \<Rightarrow> nat \<Rightarrow> bool" where
  "spans b [] e = (b = e)"
| "spans b (row # rows) e = (cw_begin row = b \<and> b \<le> cw_end row \<and> spans (cw_end row) rows e)"

lemma spans_append: "spans b (rows @ more_rows) e \<longleftrightarrow> (\<exists>m. spans b rows m \<and> spans m more_rows e)"
  by (induction rows arbitrary: b) auto

lemma spans_le: "spans b rows e \<Longrightarrow> b \<le> e"
proof (induction rows arbitrary: b)
  case (Cons row rows)
  then have "cw_end row \<le> e" "b \<le> cw_end row" by auto
  then show ?case by (rule order_trans [rotated])
qed simp

definition walk_spans :: "row_walk \<Rightarrow> bool" where
  "walk_spans w \<longleftrightarrow>
     (case wk_label w of
        None \<Rightarrow> wk_rows w = []
      | Some _ \<Rightarrow> (\<exists>b. spans b (wk_rows w) (wk_begin w)) \<and> wk_begin w \<le> wk_offset w)"

lemma closed_row_spans:
  assumes "walk_spans w" and "wk_offset w \<le> at" and "wk_label w \<noteq> None"
  shows "\<exists>b. spans b (wk_rows w @ closed_row w at) at"
  using assms by (auto simp: walk_spans_def closed_row_def spans_append)

lemma walk_line_spans:
  assumes "walk_spans w"
  shows "walk_spans (walk_line w original) \<and>
    wk_offset (walk_line w original) = wk_offset w + length (fst original) + length (snd original)"
proof (cases "wk_fence w")
  case (Some fence)
  then show ?thesis
    using assms by (cases "wk_label w") (auto simp: walk_line_def walk_spans_def Let_def split: prod.splits)
next
  case None
  obtain raw ending where o: "original = (raw, ending)" by (cases original)
  obtain line open_comment where l: "without_comments (wk_comment w) raw = (line, open_comment)"
    by (cases "without_comments (wk_comment w) raw")
  show ?thesis
  proof (cases "if match_fence line \<noteq> None then None else match_row line")
    case None
    then show ?thesis
      using assms \<open>wk_fence w = None\<close> o l
      by (cases "wk_label w") (auto simp: walk_line_def walk_spans_def Let_def)
  next
    case (Some found)
    obtain label written where f: "found = (label, written)" by (cases found)
    have "\<exists>b. spans b (wk_rows w @ closed_row w (wk_offset w)) (wk_offset w)"
      using closed_row_spans [OF assms] assms
      by (cases "wk_label w") (auto simp: walk_spans_def closed_row_def)
    moreover have "match_fence line = None" "match_row line = Some (label, written)"
      using Some f by (cases "match_fence line"; simp)+
    ultimately show ?thesis
      using \<open>wk_fence w = None\<close> o l by (simp add: walk_line_def walk_spans_def Let_def)
  qed
qed

lemma walk_lines_spans:
  "walk_spans w \<Longrightarrow> walk_spans (foldl walk_line w ls) \<and>
     wk_offset (foldl walk_line w ls) =
       wk_offset w + length (concat (map (\<lambda>(l, ending). l @ ending) ls))"
proof (induction ls arbitrary: w)
  case (Cons l ls)
  show ?case
    using walk_line_spans [OF Cons.prems, of l] Cons.IH [of "walk_line w l"] by (cases l) auto
qed simp

lemma criterion_rows_spans:
  "criterion_rows body = [] \<or> (\<exists>b. spans b (criterion_rows body) (length body))"
proof -
  have start: "walk_spans start_walk" "wk_offset start_walk = 0"
    by (simp_all add: walk_spans_def start_walk_def)
  have w: "walk_spans (walked_body body)" "wk_offset (walked_body body) = length body"
    using walk_lines_spans [OF start(1), of "body_lines body"] start(2)
    by (simp_all add: walked_body_def body_lines_concat)
  show ?thesis
  proof (cases "wk_label (walked_body body)")
    case None
    then show ?thesis using w(1) by (simp add: criterion_rows_def walk_spans_def closed_row_def)
  next
    case (Some label)
    then show ?thesis
      using closed_row_spans [OF w(1), of "length body"] w(2) by (simp add: criterion_rows_def)
  qed
qed

definition row_segment :: "string \<Rightarrow> criterion_row \<Rightarrow> string" where
  "row_segment body row = take (cw_end row - cw_begin row) (drop (cw_begin row) body)"

definition edited_segment ::
  "(criterion_field, string) pydict \<Rightarrow> criterion_field \<times> string \<Rightarrow> string" where
  "edited_segment replacements entry =
     (case entry of (f, original) \<Rightarrow>
        case map_of replacements f of None \<Rightarrow> original | Some r \<Rightarrow> row_replacement f r)"

lemma segments_concat:
  "spans b rows e \<Longrightarrow> e \<le> length body \<Longrightarrow>
     take e body = take b body @ concat (map (row_segment body) rows)"
proof (induction rows arbitrary: b)
  case (Cons row rows)
  have "take (cw_end row) body = take b body @ row_segment body row"
    using Cons.prems(1) take_add [of b "cw_end row - b" body] by (simp add: row_segment_def)
  moreover have "take e body = take (cw_end row) body @ concat (map (row_segment body) rows)"
    using Cons by auto
  ultimately show ?case by simp
qed simp

lemma replace_row_absent:
  "cw_label row \<notin> fst ` set replacements \<Longrightarrow> replace_row replacements body row = body"
  unfolding replace_row_def by (induction replacements) auto

lemma replace_row_edits:
  assumes "wf_dict replacements" and "spans b (row # rows) e" and "cw_end row \<le> length body"
  shows "replace_row replacements (take (cw_end row) body @ tail) row =
    take b body @ edited_segment replacements (cw_label row, row_segment body row) @ tail"
  using assms(1)
proof (induction replacements)
  case Nil
  have "take (cw_end row) body = take b body @ row_segment body row"
    using assms(2) take_add [of b "cw_end row - b" body] by (simp add: row_segment_def)
  then show ?case by (simp add: replace_row_def edited_segment_def)
next
  case (Cons entry replacements)
  obtain f r where entry: "entry = (f, r)" by (cases entry)
  show ?case
  proof (cases "f = cw_label row")
    case True
    then have absent: "cw_label row \<notin> fst ` set replacements" using Cons.prems entry by simp
    have "replace_row (entry # replacements) (take (cw_end row) body @ tail) row =
        replace_row replacements
          (take (cw_begin row) (take (cw_end row) body @ tail) @ row_replacement f r @
           drop (cw_end row) (take (cw_end row) body @ tail)) row"
      using entry True by (simp add: replace_row_def)
    also have "\<dots> = take b body @ row_replacement f r @ tail"
      using assms(2,3) by (simp add: replace_row_absent [OF absent] min_def)
    finally show ?thesis using entry True by (simp add: edited_segment_def)
  next
    case False
    then show ?thesis using Cons entry by (simp add: replace_row_def edited_segment_def)
  qed
qed

lemma replace_rows_edit:
  "wf_dict replacements \<Longrightarrow> spans b rows e \<Longrightarrow> e \<le> length body \<Longrightarrow>
     foldl (replace_row replacements) (take e body @ tail) (rev rows) =
       take b body @
       concat (map (\<lambda>row. edited_segment replacements (cw_label row, row_segment body row)) rows) @ tail"
proof (induction rows arbitrary: b tail)
  case (Cons row rows)
  have "cw_end row \<le> length body" using Cons.prems(2,3) spans_le by fastforce
  then show ?case
    using Cons.IH [OF Cons.prems(1), of "cw_end row"] Cons.prems(2,3)
      replace_row_edits [OF Cons.prems(1,2)] by simp
qed simp

lemma settle_fields_ok:
  "settle_fields names body entries = Inr result \<Longrightarrow>
     result = foldl (appended_field names) body entries \<and>
     (\<forall>pre f r post. entries = pre @ (f, r) # post \<longrightarrow>
        criterion_field_bodies (foldl (appended_field names) body (pre @ [(f, r)])) f = [strip r])"
proof (induction entries arbitrary: body)
  case (Cons entry entries)
  obtain f r where entry: "entry = (f, r)" by (cases entry)
  let ?next = "appended_field names body (f, r)"
  have read: "criterion_field_bodies ?next f = [strip r]"
    and rest: "settle_fields names ?next entries = Inr result"
    using Cons.prems entry by (auto simp: Let_def split: if_splits)
  note IH = Cons.IH [OF rest]
  show ?case
  proof (intro conjI allI impI)
    show "result = foldl (appended_field names) body (entry # entries)" using IH entry by simp
    fix pre g s post
    assume "entry # entries = pre @ (g, s) # post"
    then show "criterion_field_bodies (foldl (appended_field names) body (pre @ [(g, s)])) g = [strip s]"
      using read IH entry by (cases pre) auto
  qed
qed simp

lemma appended_present:
  "fst ` set entries \<subseteq> set names \<Longrightarrow> foldl (appended_field names) body entries = body"
  by (induction entries arbitrary: body) (auto simp: appended_field_def)

lemma duplicated_Nil: "duplicated names = [] \<Longrightarrow> distinct names"
proof -
  assume "duplicated names = []"
  then have "filter (\<lambda>n. 1 < count_list names n) names = []"
    by (metis duplicated_def fromkeys_Nil_iff length_0_conv length_sort)
  then have "count_list names n \<le> 1" if "n \<in> set names" for n
    using that by (auto simp: filter_empty_conv)
  then show "distinct names"
  proof (induction names)
    case (Cons a names)
    have "count_list names a = 0" using Cons.prems [of a] by simp
    moreover have "count_list names n \<le> 1" if "n \<in> set names" for n
      using Cons.prems [of n] that by (simp split: if_splits)
    ultimately show ?case using Cons.IH by (simp add: count_list_0_iff)
  qed simp
qed


subsection \<open>The evidence record\<close>

text \<open>The value of an Evidence row: one fenced JSON record on lines of its own. \<open>dump\<close> is
  the serialisation, \<open>scan\<close> says that \<^verbatim>\<open>json.loads\<close> reads a text without a repeated key, and
  \<open>validate\<close> is the strict validation.\<close>

definition FENCE_OPENING :: string where
  "FENCE_OPENING = [CHR 0x60, CHR 0x60, CHR 0x60] @ ''json'' @ newline"

definition FENCE_CLOSING :: string where
  "FENCE_CLOSING = newline @ [CHR 0x60, CHR 0x60, CHR 0x60]"

datatype evidence_error = NotOneEvidenceField | NotOneFencedRecord | EvidenceInvalid

definition evidence_field_value :: "('e \<Rightarrow> string) \<Rightarrow> 'e \<Rightarrow> string" where
  "evidence_field_value dump evidence = newline @ FENCE_OPENING @ dump evidence @ FENCE_CLOSING"

definition render_evidence_field :: "('e \<Rightarrow> string) \<Rightarrow> 'e \<Rightarrow> string" where
  "render_evidence_field dump evidence = ''**Evidence:**'' @ evidence_field_value dump evidence"

definition apply_evidence :: "('e \<Rightarrow> string) \<Rightarrow> string \<Rightarrow> 'e \<Rightarrow> body_error + string" where
  "apply_evidence dump body evidence =
     replace_criterion_fields body [(EvidenceField, evidence_field_value dump evidence)]"

definition parse_criterion_evidence ::
  "(string \<Rightarrow> bool) \<Rightarrow> (string \<Rightarrow> 'e option) \<Rightarrow> string \<Rightarrow> evidence_error + 'e" where
  "parse_criterion_evidence scan validate body =
     (case criterion_field_bodies body EvidenceField of
        [field_value] \<Rightarrow>
          if \<not> startswith field_value FENCE_OPENING \<or> \<not> (length FENCE_CLOSING \<le> length field_value \<and>
               drop (length field_value - length FENCE_CLOSING) field_value = FENCE_CLOSING)
          then Inl NotOneFencedRecord
          else
            let payload = take (length field_value - length FENCE_OPENING - length FENCE_CLOSING)
                            (drop (length FENCE_OPENING) field_value) in
            if scan payload
            then (case validate payload of None \<Rightarrow> Inl EvidenceInvalid | Some e \<Rightarrow> Inr e)
            else Inl EvidenceInvalid
      | _ \<Rightarrow> Inl NotOneEvidenceField)"

lemma fence_strip: "strip (evidence_field_value dump evidence) = FENCE_OPENING @ dump evidence @ FENCE_CLOSING"
proof -
  have n: "newline = [CHR 0x0A]" by (simp add: newline_def)
  have space: "py_isspace (CHR 0x0A)" "\<not> py_isspace (CHR 0x60)" by code_simp+
  have "lstrip (evidence_field_value dump evidence) = FENCE_OPENING @ dump evidence @ FENCE_CLOSING"
    using space by (simp add: lstrip_def evidence_field_value_def n FENCE_OPENING_def)
  moreover have "rstrip (s @ FENCE_CLOSING) = s @ FENCE_CLOSING" for s
    using space by (simp add: rstrip_def FENCE_CLOSING_def)
  ultimately show ?thesis by (simp add: strip_def flip: append_assoc)
qed

text \<open>Claim C37. Evidence that is written is read back: when a body accepts an evidence record, the
  body it leaves parses to exactly that record, whether its Evidence row was replaced or appended, with
  one Evidence row holding the one fenced payload. The serialisation is one its own validation reads
  back.\<close>

theorem evidence_reads_back:
  assumes "apply_evidence dump body evidence = Inr result"
    and "scan (dump evidence)" and "validate (dump evidence) = Some evidence"
  shows "parse_criterion_evidence scan validate result = Inr evidence \<and>
    criterion_field_bodies result EvidenceField = [FENCE_OPENING @ dump evidence @ FENCE_CLOSING]"
proof -
  let ?v = "evidence_field_value dump evidence"
  obtain names edited where "settle_fields names edited [(EvidenceField, ?v)] = Inr result"
    using assms(1) by (auto simp: apply_evidence_def replace_criterion_fields_def Let_def split: if_splits)
  from settle_fields_ok [OF this]
  have "criterion_field_bodies result EvidenceField = [strip ?v]"
    by (metis append_Nil foldl_Cons foldl_Nil)
  then have read: "criterion_field_bodies result EvidenceField =
      [FENCE_OPENING @ dump evidence @ FENCE_CLOSING]" by (simp add: fence_strip)
  then show ?thesis
    using assms(2,3) by (simp add: parse_criterion_evidence_def startswith_def Let_def)
qed

definition sample_body_text :: string where
  "sample_body_text = ''**Check:** it works'' @ newline @ newline @ ''**Do:** run it'' @ newline @ newline @
     ''**Evidence:**'' @ newline"

lemma sample_rows:
  "map (\<lambda>r. (cw_label r, cw_text r)) (criterion_rows sample_body_text) =
     [(CheckField, ''it works''), (DoField, ''run it''), (EvidenceField, [])]"
  by code_simp

definition sample_edited_text :: string where
  "sample_edited_text = ''**Check:** it holds'' @ newline @ newline @ ''**Do:** run it'' @ newline @ newline @
     ''**Evidence:**'' @ newline"

lemma sample_edit:
  "replace_criterion_fields sample_body_text [(CheckField, ''it holds'')] = Inr sample_edited_text"
  by code_simp


definition sample_evidence_text :: string where
  "sample_evidence_text = ''**Check:** it works'' @ newline @ newline @ ''**Do:** run it'' @ newline @ newline @
     ''**Evidence:** '' @ newline @ FENCE_OPENING @ ''{}'' @ FENCE_CLOSING @ newline @ newline"

lemma sample_evidence: "apply_evidence (\<lambda>_. ''{}'') sample_body_text () = Inr sample_evidence_text"
  by code_simp

theorem evidence_reads_back_witness:
  "apply_evidence (\<lambda>_. ''{}'') sample_body_text () = Inr sample_evidence_text \<and>
   parse_criterion_evidence (\<lambda>p. p = ''{}'') (\<lambda>_. Some ()) sample_evidence_text = Inr ()"
  using evidence_reads_back [OF sample_evidence, of "\<lambda>p. p = ''{}''" "\<lambda>_. Some ()"] sample_evidence by simp

subsection \<open>Capturing the subject\<close>

datatype spec_error =
  EmptyFireCriteria string
| InvalidFireCriterion string string string
| FireSpecEntry string string
| MandateAbsent
| SpecInvalid

definition criterion_check :: "tracker_issue \<Rightarrow> string \<Rightarrow> spec_error + string" where
  "criterion_check criterion issue_key =
     (case criterion_field_bodies (ti_body criterion) CheckField of
        [check] \<Rightarrow> if check = [] then Inl (InvalidFireCriterion issue_key (ti_issue_key criterion)
                          ''one nonempty Check field is required'') else Inr check
      | _ \<Rightarrow> Inl (InvalidFireCriterion issue_key (ti_issue_key criterion)
               ''one nonempty Check field is required''))"

fun require_checks :: "tracker_issue list \<Rightarrow> string \<Rightarrow> spec_error + unit" where
  "require_checks [] issue_key = Inr ()"
| "require_checks (criterion # criteria) issue_key =
     bind_sum (criterion_check criterion issue_key) (\<lambda>_. require_checks criteria issue_key)"

definition made_spec :: "string \<Rightarrow> string \<Rightarrow> string list \<Rightarrow> string \<Rightarrow> spec_error + tracker_spec" where
  "made_spec subject body keys read_at_version =
     (let spec = \<lparr>tk_subject = subject, tk_body = body, tk_criteria = keys,
                  tk_read_at_version = read_at_version\<rparr> in
      if valid_tracker_spec spec then Inr spec else Inl SpecInvalid)"

text \<open>\<open>isoformat\<close> is the rendering of the subject's version.\<close>

definition tracker_spec_from_issues ::
  "(instant \<Rightarrow> string) \<Rightarrow> tracker_issue \<Rightarrow> tracker_issue list \<Rightarrow> spec_error + tracker_spec" where
  "tracker_spec_from_issues isoformat subject criteria =
     (let counting = filter (\<lambda>c. \<not> is_non_counting (ti_state_kind c)) criteria in
      if counting = [] then Inl (EmptyFireCriteria (ti_issue_key subject))
      else
        bind_sum (require_checks counting (ti_issue_key subject)) (\<lambda>_.
        made_spec (ti_issue_key subject) (ti_body subject) (map ti_issue_key counting)
          (isoformat (ti_updated_at subject))))"

definition BOARD_READ_VERSION :: string where "BOARD_READ_VERSION = ''board''"

definition tracker_spec_from_board :: "string \<Rightarrow> string \<Rightarrow> string list \<Rightarrow> spec_error + tracker_spec" where
  "tracker_spec_from_board subject_key body criterion_keys =
     made_spec subject_key body criterion_keys BOARD_READ_VERSION"

definition require_fire_entry :: "tracker_issue \<Rightarrow> bool \<Rightarrow> string option \<Rightarrow> spec_error + unit" where
  "require_fire_entry subject approved criteria_stage_label_key =
     (case criteria_stage_label_key of
        None \<Rightarrow> Inl MandateAbsent
      | Some label \<Rightarrow>
          if label \<notin> set (ti_issue_labels subject)
          then Inl (FireSpecEntry (ti_issue_key subject) ''criteria-stage completion is absent'')
          else if \<not> approved
          then Inl (FireSpecEntry (ti_issue_key subject) ''execution approval is absent'')
          else Inr ())"

subsection \<open>Creating a criterion\<close>

datatype creation_error = CriterionRead string string | UnreadableCheck spec_error

definition criterion_body :: "string \<Rightarrow> string \<Rightarrow> string \<Rightarrow> creation_error + string" where
  "criterion_body parent_key check work =
     (if strip check = [] \<or> strip work = []
      then Inl (CriterionRead parent_key ''Check and Do must be nonempty'')
      else
        let body = ''**Check:** '' @ check @ blank_line @ ''**Do:** '' @ work @ blank_line @
                   ''**Evidence:**'' @ newline in
        if criterion_field_bodies body CheckField \<noteq> [strip check] \<or>
           criterion_field_bodies body DoField \<noteq> [strip work] \<or>
           criterion_field_bodies body EvidenceField \<noteq> [[]]
        then Inl (CriterionRead parent_key ''criterion fields must remain distinct'')
        else Inr body)"

definition stated_check :: "tracker_issue \<Rightarrow> string option" where
  "stated_check child =
     (case criterion_field_bodies (ti_body child) CheckField of
        [check] \<Rightarrow> if check = [] then None else Some (strip check)
      | _ \<Rightarrow> None)"

definition criteria_owed :: "string \<Rightarrow> tracker_issue list \<Rightarrow> bool" where
  "criteria_owed body children \<longleftrightarrow>
     list_all (\<lambda>child. is_non_counting (ti_state_kind child)) children \<or>
     list_ex (\<lambda>item. item \<notin> set (List.map_filter stated_check children)) (checklist_items body)"

definition misplaced :: "string \<Rightarrow> string list \<Rightarrow> tracker_issue \<Rightarrow> bool" where
  "misplaced parent_key seen child \<longleftrightarrow>
     ti_issue_key child \<in> set seen \<or> ti_parent_key child \<noteq> Some parent_key \<or>
     ''criterion'' \<notin> set (ti_issue_labels child)"

fun matching_children ::
  "string \<Rightarrow> string \<Rightarrow> string list \<Rightarrow> tracker_issue list \<Rightarrow> creation_error + tracker_issue list" where
  "matching_children parent_key check seen [] = Inr []"
| "matching_children parent_key check seen (child # children) =
     (if misplaced parent_key seen child
      then Inl (CriterionRead parent_key ''criterion identity, parent or classification differs'')
      else
        case criterion_check child parent_key of
          Inl e \<Rightarrow>
            if is_non_counting (ti_state_kind child)
            then matching_children parent_key check (ti_issue_key child # seen) children
            else Inl (UnreadableCheck e)
        | Inr stated \<Rightarrow>
            bind_sum (matching_children parent_key check (ti_issue_key child # seen) children) (\<lambda>rest.
            Inr (if stated = strip check then child # rest else rest)))"

definition existing_criterion ::
  "string \<Rightarrow> string \<Rightarrow> tracker_issue list \<Rightarrow> creation_error + tracker_issue option" where
  "existing_criterion parent_key check children =
     bind_sum (matching_children parent_key check [] children) (\<lambda>matches.
     case matches of
       [] \<Rightarrow> Inr None
     | [child] \<Rightarrow> Inr (Some child)
     | _ \<Rightarrow> Inl (CriterionRead parent_key ''duplicate current Check identities''))"

lemma matching_children_set:
  "matching_children parent_key check seen children = Inr matches \<Longrightarrow>
     set matches = {c \<in> set children. criterion_check c parent_key = Inr (strip check)}"
proof (induction children arbitrary: seen matches)
  case (Cons child children)
  show ?case
  proof (cases "criterion_check child parent_key")
    case (Inl e)
    then have "matching_children parent_key check (ti_issue_key child # seen) children = Inr matches"
      using Cons.prems by (auto split: if_splits)
    then show ?thesis using Cons.IH Inl by auto
  next
    case (Inr stated)
    have "\<not> misplaced parent_key seen child" using Cons.prems by auto
    then have "bind_sum (matching_children parent_key check (ti_issue_key child # seen) children)
        (\<lambda>rest. Inr (if stated = strip check then child # rest else rest)) = Inr matches"
      using Cons.prems Inr by simp
    then obtain rest where rest:
        "matching_children parent_key check (ti_issue_key child # seen) children = Inr rest"
        "matches = (if stated = strip check then child # rest else rest)"
      unfolding bind_sum_Inr by blast
    have "c = child \<Longrightarrow> criterion_check c parent_key = Inr (strip check) \<longleftrightarrow> stated = strip check" for c
      using Inr by simp
    then show ?thesis unfolding rest(2) using Cons.IH [OF rest(1)] by (simp, blast)
  qed
qed simp

text \<open>A criterion that was created is found again, so it is never created twice.\<close>

lemma created_criterion_is_found:
  assumes "criterion_body parent_key check work = Inr (ti_body child)"
    and "child \<in> set children" and "existing_criterion parent_key check children = Inr found"
  shows "found = Some child"
proof -
  have read: "criterion_check child parent_key = Inr (strip check)"
    using assms(1) by (auto simp: criterion_body_def criterion_check_def Let_def split: if_splits)
  obtain matches where m: "matching_children parent_key check [] children = Inr matches"
      "(case matches of [] \<Rightarrow> Inr None | [c] \<Rightarrow> Inr (Some c)
        | _ \<Rightarrow> Inl (CriterionRead parent_key ''duplicate current Check identities'')) = Inr found"
    using assms(3) unfolding existing_criterion_def bind_sum_Inr by blast
  have "child \<in> set matches" using matching_children_set [OF m(1)] assms(2) read by simp
  then show ?thesis using m(2) by (auto split: list.splits)
qed

end
