(* ===== verification/LaneRecord.thy ===== *)
theory LaneRecord
  imports Markers Outbound "HOL-Library.Sublist"
begin

section \<open>The lane's branch-state record\<close>

text \<open>
  \<^verbatim>\<open>types/domain/run_state.py\<close>, \<^verbatim>\<open>types/domain/consolidation.py\<close> and
  \<^verbatim>\<open>domain/lane_record.py\<close>: the facts a lane leaves on its issue, the one comment they are rendered
  as and read back from, and the record the next commit leaves. JSON is the parameter of the
  rendering: \<^verbatim>\<open>dump\<close> is \<^verbatim>\<open>model_dump_json\<close>, \<^verbatim>\<open>scan\<close> says that
  \<^verbatim>\<open>json.loads\<close> reads the payload without a repeated key, and \<^verbatim>\<open>validate\<close> is the strict
  \<^verbatim>\<open>model_validate_json\<close>.
\<close>

subsection \<open>The facts\<close>

record lane_binding =
  lb_lane_key :: string
  lb_loop_branch :: string
  lb_deliverable_branch :: string
  lb_base :: base_spec
  lb_body_digest :: string
  lb_repo_url :: "string option"
  lb_repo_path :: "string option"
  lb_run_id :: string
  lb_visibility :: repo_visibility

record lane_commit =
  cm_sha :: string
  cm_subject :: string
  cm_issue_id :: string

record lane_escalation =
  le_issue_id :: string
  le_escalation_key :: string
  le_raised_by :: string
  le_question :: string
  le_interim_reading :: string
  le_interim_basis :: string
  le_raised_at_sha :: string

definition valid_lane_escalation :: "lane_escalation \<Rightarrow> bool" where
  "valid_lane_escalation e \<longleftrightarrow>
     le_issue_id e \<noteq> [] \<and> le_escalation_key e \<noteq> [] \<and> le_raised_by e \<noteq> [] \<and> le_question e \<noteq> [] \<and>
     has_text (le_interim_reading e) \<and> le_interim_basis e \<noteq> [] \<and> le_raised_at_sha e \<noteq> []"

record lane_pr =
  lp_url :: string
  lp_number :: int
  lp_state :: string

record lane_run_state =
  lr_lane_key :: string
  lr_branch :: string
  lr_branch_url :: string
  lr_head_sha :: string
  lr_pushed_head_sha :: "string option"
  lr_commits_ahead :: int
  lr_files_changed :: int
  lr_commits :: "lane_commit list"
  lr_pr :: "lane_pr option"
  lr_body_digest :: "string option"
  lr_dispatch_base :: "base_spec option"
  lr_associations :: "branch_association list"

definition hex_digest :: "string \<Rightarrow> bool" where
  "hex_digest s \<longleftrightarrow> length s = 64 \<and> list_all (\<lambda>c. c \<in> set ''0123456789abcdef'') s"

definition delivering_runs :: "branch_association list \<Rightarrow> string list" where
  "delivering_runs associations =
     map ba_run_id (filter (\<lambda>a. ba_role a = DeliverableBranch) associations)"

definition valid_lane_run_state :: "lane_run_state \<Rightarrow> bool" where
  "valid_lane_run_state r \<longleftrightarrow>
     lr_lane_key r \<noteq> [] \<and> lr_branch r \<noteq> [] \<and> lr_branch_url r \<noteq> [] \<and> lr_head_sha r \<noteq> [] \<and>
     lr_pushed_head_sha r \<noteq> Some [] \<and> 0 \<le> lr_commits_ahead r \<and> 0 \<le> lr_files_changed r \<and>
     (case lr_body_digest r of None \<Rightarrow> True | Some d \<Rightarrow> hex_digest d) \<and>
     list_ex (\<lambda>a. ba_role a = LoopBranch \<and> ba_branch a = lr_branch r) (lr_associations r) \<and>
     distinct (delivering_runs (lr_associations r))"

record changeset_digest =
  cd_file_paths :: "string list"
  cd_commit_subjects :: "string list"
  cd_commit_count :: nat

subsection \<open>The comment\<close>

definition RUN_STATE_PURPOSE :: string where "RUN_STATE_PURPOSE = ''run_state''"

definition LANDING_ROW_SUBJECT :: string where
  "LANDING_ROW_SUBJECT = ''land: the best iteration this run reached''"

definition REENTRY_SECTION :: string where
  "REENTRY_SECTION = join newline
    [''## Re-entry'',
     '''',
     ''Resume at the record's last commit act, the sha of its final commits row, and'',
     ''never at a remote tip the record does not name. Find the loop branch by the'',
     ''LOOP role and the record's branch field. When the remote holds it at that sha,'',
     ''check it out and continue it. When it stands anywhere else, a lane that still'',
     ''owes criteria cuts a fresh loop branch from the record's last commit act and'',
     ''keeps the old association, and the old branch stays where it stands; a lane'',
     ''that owes nothing and carries no pull request is refused rather than delivered'',
     ''from a branch standing elsewhere. When the remote no longer holds it, recover'',
     ''it before continuing: never mint a new branch in place of a recorded'',
     ''association. pushedHeadSha is where the remote held the loop branch when a'',
     ''commit last observed it, not the head to resume at. Follow the explicit roles'',
     ''and derivedFrom links to the deliverable, other loop and recovery branches; do'',
     ''not infer their roles from their names. Associations survive reaping, so verify'',
     ''current remote liveness before checkout.'',
     '''',
     ''Grade the existing commits against each criterion sub-issue's own Check and'',
     ''verification instructions, reading satisfaction and Evidence on that sub-issue.'',
     ''Let only failing criteria drive new work.'']"

definition PREVIOUS_REENTRY_SECTIONS :: "string list" where
  "PREVIOUS_REENTRY_SECTIONS =
   [join newline
    [''## Re-entry'',
     '''',
     ''Resume the branch identified by the LOOP role and the record's branch field.'',
     ''When pushedHeadSha is present, that branch exists on the remote at the recorded'',
     ''head; check out the existing branch. When pushedHeadSha is null, no remote copy'',
     ''was recorded: recover the existing branch before continuing. Never mint a new'',
     ''branch in place of a recorded association. Follow the explicit roles and'',
     ''derivedFrom links to the deliverable, other loop and recovery branches; do not'',
     ''infer their roles from their names. Associations survive reaping, so verify'',
     ''current remote liveness before checkout.'',
     '''',
     ''Grade the existing commits against each criterion sub-issue's own Check and'',
     ''verification instructions, reading satisfaction and Evidence on that sub-issue.'',
     ''Let only failing criteria drive new work.''],
    join newline
    [''## Re-entry'',
     '''',
     ''Resume at the record's last commit act, the sha of its final commits row, and'',
     ''never at a remote tip the record does not name. Find the loop branch by the'',
     ''LOOP role and the record's branch field. When the remote holds it at that sha,'',
     ''check it out and continue it. When it stands anywhere else, cut a fresh loop'',
     ''branch from that sha and keep the old association; the old branch stays where'',
     ''it stands. When the remote no longer holds it, recover it before continuing:'',
     ''never mint a new branch in place of a recorded association. pushedHeadSha is'',
     ''where the remote held the loop branch when a commit last observed it, not the'',
     ''head to resume at. Follow the explicit roles and derivedFrom links to the'',
     ''deliverable, other loop and recovery branches; do not infer their roles from'',
     ''their names. Associations survive reaping, so verify current remote liveness'',
     ''before checkout.'',
     '''',
     ''Grade the existing commits against each criterion sub-issue's own Check and'',
     ''verification instructions, reading satisfaction and Evidence on that sub-issue.'',
     ''Let only failing criteria drive new work.'']]"

definition lane_record_body :: "(lane_run_state \<Rightarrow> string) \<Rightarrow> lane_run_state \<Rightarrow> string" where
  "lane_record_body dump r =
     ''```json'' @ newline @ dump r @ newline @ ''```'' @ newline @ newline @ REENTRY_SECTION"

definition associated_branches :: "lane_run_state \<Rightarrow> string list" where
  "associated_branches r = map ba_branch (lr_associations r)"

datatype record_error =
  MarkerRefused marker_error
| WriteRefused write_error
| FramingInvalid
| PayloadUnreadable
| RecordInvalid
| LaneMismatch
| RunRebound string
| FactsRefused string

definition lifted :: "('e \<Rightarrow> 'f) \<Rightarrow> 'e + 'a \<Rightarrow> 'f + 'a" where
  "lifted f m = (case m of Inl e \<Rightarrow> Inl (f e) | Inr x \<Rightarrow> Inr x)"

lemma lifted_Inr [result_simps]: "lifted f m = Inr x \<longleftrightarrow> m = Inr x"
  by (auto simp: lifted_def split: sum.splits)

definition render_lane_record ::
  "(lane_run_state \<Rightarrow> string) \<Rightarrow> (string, string) pydict \<Rightarrow> lane_run_state \<Rightarrow> record_error + string" where
  "render_lane_record dump marker_prefixes r =
     bind_sum (lifted MarkerRefused (compose_comment_marker marker_prefixes RUN_STATE_PURPOSE (lr_lane_key r) None))
       (\<lambda>marker. lifted WriteRefused (marked_comment_body marker (lane_record_body dump r)))"

definition has_prefix :: "string \<Rightarrow> string \<Rightarrow> bool" where
  "has_prefix p s \<longleftrightarrow> take (length p) s = p"

definition has_suffix :: "string \<Rightarrow> string \<Rightarrow> bool" where
  "has_suffix p s \<longleftrightarrow> length p \<le> length s \<and> drop (length s - length p) s = p"

definition framed_section :: "string \<Rightarrow> string" where
  "framed_section section = newline @ ''```'' @ newline @ newline @ section"

definition known_sections :: "string list" where
  "known_sections = REENTRY_SECTION # PREVIOUS_REENTRY_SECTIONS"

definition parse_lane_record ::
  "(string \<Rightarrow> bool) \<Rightarrow> (string \<Rightarrow> lane_run_state option) \<Rightarrow> (string, string) pydict \<Rightarrow> string \<Rightarrow> string
     \<Rightarrow> record_error + lane_run_state" where
  "parse_lane_record scan validate marker_prefixes body lane_key =
     bind_sum (lifted MarkerRefused (compose_comment_marker marker_prefixes RUN_STATE_PURPOSE lane_key None)) (\<lambda>marker.
     let opening = marker @ newline @ ''```json'' @ newline in
     case find (\<lambda>framed. has_suffix framed body) (map framed_section known_sections) of
       None \<Rightarrow> Inl FramingInvalid
     | Some closing \<Rightarrow>
         if \<not> has_prefix opening body then Inl FramingInvalid
         else
           let payload = drop (length opening) (take (length body - length closing) body) in
           if \<not> scan payload then Inl PayloadUnreadable
           else
             (case validate payload of
                None \<Rightarrow> Inl RecordInvalid
              | Some r \<Rightarrow> if lr_lane_key r \<noteq> lane_key then Inl LaneMismatch else Inr r))"

subsection \<open>Round trip\<close>

lemma has_suffix_iff: "has_suffix p s \<longleftrightarrow> suffix p s"
proof
  assume "has_suffix p s"
  then show "suffix p s" unfolding has_suffix_def by (metis suffix_drop)
qed (auto simp: has_suffix_def suffix_def)

lemma has_prefix_append [simp]: "has_prefix p (p @ s)"
  by (simp add: has_prefix_def)

lemma set_join: "set (join sep xs) \<subseteq> set sep \<union> (\<Union>x \<in> set xs. set x)"
  by (induction sep xs rule: join.induct) auto

lemma join_unfenced:
  assumes "list_all (list_all (\<lambda>c. c \<noteq> CHR 0x60)) ls"
  shows "CHR 0x60 \<notin> set (join newline ls)"
proof
  assume "CHR 0x60 \<in> set (join newline ls)"
  then have "CHR 0x60 \<in> set newline \<or> (\<exists>l \<in> set ls. CHR 0x60 \<in> set l)" using set_join by fast
  then show False using assms by (auto simp: newline_def list_all_iff)
qed

lemma current_unfenced: "CHR 0x60 \<notin> set REENTRY_SECTION"
  unfolding REENTRY_SECTION_def by (rule join_unfenced) simp

lemma previous_unfenced: "\<forall>s \<in> set PREVIOUS_REENTRY_SECTIONS. CHR 0x60 \<notin> set s"
  unfolding PREVIOUS_REENTRY_SECTIONS_def list.set ball_simps
  by (intro conjI join_unfenced TrueI; simp)

lemma sections_separate:
  assumes "s \<in> set known_sections" and "t \<in> set known_sections" and "s \<noteq> t"
  shows "\<not> suffix (framed_section s) (framed_section t)"
proof
  assume "suffix (framed_section s) (framed_section t)"
  then obtain x where x: "x @ framed_section s = framed_section t" by (auto simp: suffix_def)
  have "\<forall>s \<in> set known_sections. CHR 0x60 \<notin> set s"
    using current_unfenced previous_unfenced by (simp add: known_sections_def)
  then have "count_list s (CHR 0x60) = 0" "count_list t (CHR 0x60) = 0"
    using assms by (simp_all add: count_list_0_iff)
  then have "count_list (framed_section s) (CHR 0x60) = 3" "count_list (framed_section t) (CHR 0x60) = 3"
    by (simp_all add: framed_section_def newline_def)
  then have "count_list x (CHR 0x60) = 0" using arg_cong [OF x, of "\<lambda>l. count_list l (CHR 0x60)"] by simp
  then have "CHR 0x60 \<notin> set (x @ newline)" by (simp add: count_list_0_iff newline_def)
  moreover have "(x @ newline) @ CHR 0x60 # (drop 2 (framed_section s)) = newline @ CHR 0x60 # (drop 2 (framed_section t))"
    using x by (simp add: framed_section_def newline_def)
  moreover have "CHR 0x60 \<notin> set newline" by (simp add: newline_def)
  ultimately have "x @ newline = newline" using first_split by metis
  then have "x = []" by simp
  then show False using x assms(3) by (simp add: framed_section_def)
qed

lemma framed_section_inject: "framed_section s = framed_section t \<longleftrightarrow> s = t"
  by (simp add: framed_section_def)

lemma find_framed:
  assumes "t \<in> set known_sections"
  shows "find (\<lambda>framed. has_suffix framed (x @ framed_section t)) (map framed_section known_sections) =
    Some (framed_section t)"
proof -
  have only: "has_suffix (framed_section s) (x @ framed_section t) \<longleftrightarrow> s = t"
    if "s \<in> set known_sections" for s
  proof
    assume "has_suffix (framed_section s) (x @ framed_section t)"
    then have "suffix (framed_section s) (framed_section t) \<or> suffix (framed_section t) (framed_section s)"
      using suffix_same_cases [of "framed_section s" "x @ framed_section t" "framed_section t"]
      by (simp add: has_suffix_iff suffix_def)
    then show "s = t" using sections_separate assms that by metis
  qed (simp add: has_suffix_iff suffix_def)
  have "find (\<lambda>framed. has_suffix framed (x @ framed_section t)) (map framed_section ss) =
      Some (framed_section t)" if "set ss \<subseteq> set known_sections" "t \<in> set ss" for ss
    using that by (induction ss) (auto simp: only)
  then show ?thesis using assms by simp
qed

definition record_comment :: "(lane_run_state \<Rightarrow> string) \<Rightarrow> string \<Rightarrow> lane_run_state \<Rightarrow> string \<Rightarrow> string" where
  "record_comment dump marker r sec =
     marker @ newline @ ''```json'' @ newline @ dump r @ framed_section sec"

lemma rendered_comment:
  assumes "render_lane_record dump marker_prefixes r = Inr body"
  shows "\<exists>marker. compose_comment_marker marker_prefixes RUN_STATE_PURPOSE (lr_lane_key r) None = Inr marker \<and>
    body = record_comment dump marker r REENTRY_SECTION"
  using assms
  by (auto simp: render_lane_record_def bind_sum_Inr lifted_Inr marked_comment_body_def lane_record_body_def
      record_comment_def framed_section_def split: if_splits)

lemma parse_record_comment:
  assumes "compose_comment_marker marker_prefixes RUN_STATE_PURPOSE (lr_lane_key r) None = Inr marker"
    and "sec \<in> set known_sections" and "scan (dump r)" and "validate (dump r) = Some r"
  shows "parse_lane_record scan validate marker_prefixes (record_comment dump marker r sec) (lr_lane_key r) = Inr r"
proof -
  let ?p = "marker @ newline @ ''```json'' @ newline"
  have body: "record_comment dump marker r sec = (?p @ dump r) @ framed_section sec"
    by (simp add: record_comment_def)
  have "find (\<lambda>framed. has_suffix framed (record_comment dump marker r sec)) (map framed_section known_sections) =
      Some (framed_section sec)"
    unfolding body by (rule find_framed [OF assms(2)])
  moreover have "has_prefix ?p (record_comment dump marker r sec)" unfolding body by (simp add: has_prefix_def newline_def)
  moreover have "drop (length ?p) (take (length (record_comment dump marker r sec) -
      length (framed_section sec)) (record_comment dump marker r sec)) = dump r"
    unfolding body by (simp del: append.simps append_assoc)
  ultimately show ?thesis
    using assms(1,3,4) by (simp add: parse_lane_record_def lifted_def Let_def)
qed

text \<open>Claim C5. What is rendered is read back: the comment of a record parses, under its own lane, as exactly
  that record, in the current framing and in each of the earlier ones, and the reader that looks for the
  record's marker finds that comment and no other lane's.\<close>

theorem lane_record_roundtrip:
  assumes "render_lane_record dump marker_prefixes r = Inr body"
    and "scan (dump r)" and "validate (dump r) = Some r"
  shows "parse_lane_record scan validate marker_prefixes body (lr_lane_key r) = Inr r \<and>
    (\<exists>marker. compose_comment_marker marker_prefixes RUN_STATE_PURPOSE (lr_lane_key r) None = Inr marker \<and>
       (\<forall>sec \<in> set PREVIOUS_REENTRY_SECTIONS.
          parse_lane_record scan validate marker_prefixes
            (marker @ newline @ ''```json'' @ newline @ dump r @ newline @ ''```'' @ newline @ newline @ sec)
            (lr_lane_key r) = Inr r) \<and>
       (\<forall>m. take 1 (splitlines body) = [m] \<longleftrightarrow> m = marker))"
proof -
  obtain marker where marker: "compose_comment_marker marker_prefixes RUN_STATE_PURPOSE (lr_lane_key r) None = Inr marker"
    "body = record_comment dump marker r REENTRY_SECTION"
    using rendered_comment [OF assms(1)] by blast
  have found: "take 1 (splitlines body) = [m] \<longleftrightarrow> m = marker" for m
  proof -
    have "marked_comment_body marker (lane_record_body dump r) = Inr body"
      using assms(1) marker(1) by (simp add: render_lane_record_def lifted_def split: sum.splits)
    then show ?thesis by (rule marked_body_found)
  qed
  have earlier: "parse_lane_record scan validate marker_prefixes
      (marker @ newline @ ''```json'' @ newline @ dump r @ newline @ ''```'' @ newline @ newline @ sec)
      (lr_lane_key r) = Inr r" if "sec \<in> set PREVIOUS_REENTRY_SECTIONS" for sec
    using parse_record_comment [OF marker(1), of sec scan dump validate] assms(2,3) that
    by (simp add: record_comment_def framed_section_def known_sections_def)
  have "parse_lane_record scan validate marker_prefixes body (lr_lane_key r) = Inr r"
    using parse_record_comment [OF marker(1), of REENTRY_SECTION scan dump validate] assms(2,3) marker(2)
    by (simp add: known_sections_def)
  then show ?thesis using marker(1) found earlier by blast
qed

definition sample_record :: lane_run_state where
  "sample_record =
     \<lparr>lr_lane_key = ''K-7'', lr_branch = ''loop'', lr_branch_url = ''u'', lr_head_sha = ''a1'',
      lr_pushed_head_sha = None, lr_commits_ahead = 1, lr_files_changed = 1,
      lr_commits = [\<lparr>cm_sha = ''a1'', cm_subject = ''s'', cm_issue_id = ''K-7''\<rparr>], lr_pr = None,
      lr_body_digest = None, lr_dispatch_base = None,
      lr_associations = [\<lparr>ba_branch = ''loop'', ba_role = LoopBranch, ba_derived_from = None, ba_run_id = ''r''\<rparr>]\<rparr>"

lemma lane_record_roundtrip_witness:
  "\<exists>body. render_lane_record (\<lambda>_. ''{}'') [(''run_state'', ''kz'')] sample_record = Inr body \<and>
     parse_lane_record (\<lambda>p. p = ''{}'') (\<lambda>_. Some sample_record) [(''run_state'', ''kz'')] body ''K-7'' =
       Inr sample_record"
proof -
  have "compose_comment_marker [(''run_state'', ''kz'')] RUN_STATE_PURPOSE (lr_lane_key sample_record) None =
      Inr ''[kz:K-7]''" by code_simp
  moreover have "splitlines ''[kz:K-7]'' = [''[kz:K-7]'']" by code_simp
  ultimately obtain body where body:
    "render_lane_record (\<lambda>_. ''{}'') [(''run_state'', ''kz'')] sample_record = Inr body"
    by (simp add: render_lane_record_def lifted_def marked_comment_body_def)
  have "lr_lane_key sample_record = ''K-7''" by (simp add: sample_record_def)
  then show ?thesis
    using lane_record_roundtrip [OF body, of "\<lambda>p. p = ''{}''" "\<lambda>_. Some sample_record"] body by auto
qed

lemma split_between:
  assumes "drop (length p) (take (length b - length q) b) \<noteq> []"
    and "length q \<le> length b \<and> drop (length b - length q) b = q" and "take (length p) b = p"
  shows "b = p @ drop (length p) (take (length b - length q) b) @ q"
proof -
  let ?n = "length b - length q"
  have "length p \<le> ?n" using assms(1) by simp
  then have "take (length p) (take ?n b) = p" using assms(3) by (simp add: min_absorb1)
  then have "take ?n b = p @ drop (length p) (take ?n b)" by (metis append_take_drop_id)
  then show ?thesis using assms(2) by (metis append.assoc append_take_drop_id)
qed

lemma marker_first_line:
  assumes "valid_marker_prefixes marker_prefixes"
    and "compose_comment_marker marker_prefixes purpose lane key = Inr m"
    and "has_prefix (m @ newline @ rest) body"
  shows "m = first_line body"
proof -
  have "\<not> list_ex line_break m" using composed_marker_is_one_line [OF assms(1,2)] by blast
  then have "CHR 0x0A \<notin> set m" by (auto simp: list_ex_iff line_break_def)
  then have "takeWhile (\<lambda>c. c \<noteq> CHR 0x0A) m = m" by (auto simp: takeWhile_eq_all_conv)
  moreover obtain t where "body = (m @ newline @ rest) @ t"
    using assms(3) unfolding has_prefix_def by (metis append_take_drop_id)
  ultimately show ?thesis using \<open>CHR 0x0A \<notin> set m\<close> by (simp add: first_line_def newline_def takeWhile_tail)
qed

lemma parse_lane_record_steps:
  assumes "parse_lane_record scan validate marker_prefixes body lane_key = Inr r"
  obtains marker sec where "compose_comment_marker marker_prefixes RUN_STATE_PURPOSE lane_key None = Inr marker"
    and "sec \<in> set known_sections" and "has_suffix (framed_section sec) body"
    and "has_prefix (marker @ newline @ ''```json'' @ newline) body"
    and "scan (drop (length (marker @ newline @ ''```json'' @ newline))
      (take (length body - length (framed_section sec)) body))"
    and "validate (drop (length (marker @ newline @ ''```json'' @ newline))
      (take (length body - length (framed_section sec)) body)) = Some r"
    and "lr_lane_key r = lane_key"
proof -
  obtain marker where marker: "compose_comment_marker marker_prefixes RUN_STATE_PURPOSE lane_key None = Inr marker"
    using assms by (auto simp: parse_lane_record_def bind_sum_Inr lifted_Inr)
  obtain closing where closing: "find (\<lambda>framed. has_suffix framed body) (map framed_section known_sections) =
      Some closing"
    using assms marker by (auto simp: parse_lane_record_def lifted_def Let_def split: option.splits)
  then have "closing \<in> set (map framed_section known_sections) \<and> has_suffix closing body"
    by (metis find_Some_iff nth_mem)
  then obtain sec where sec: "sec \<in> set known_sections" "closing = framed_section sec" "has_suffix closing body"
    by auto
  show ?thesis
    by (rule that [OF marker sec(1)])
      (use assms marker closing sec(2,3) in \<open>auto simp: parse_lane_record_def lifted_def Let_def
        split: option.splits if_splits\<close>)
qed

text \<open>A body is read as a record only in the framing the writer gives it, with a payload that is
  one valid JSON record between the marker line and the fixed section, and only for the lane its own marker
  and its own facts name: no body is the record of two lanes.\<close>

lemma lane_record_has_one_reading:
  assumes "valid_marker_prefixes marker_prefixes" and "\<not> scan []"
    and "parse_lane_record scan validate marker_prefixes body lane_key = Inr r"
  shows "(\<exists>marker payload. compose_comment_marker marker_prefixes RUN_STATE_PURPOSE lane_key None = Inr marker \<and>
      (\<exists>sec \<in> set known_sections.
        body = marker @ newline @ ''```json'' @ newline @ payload @ framed_section sec) \<and>
      scan payload \<and> validate payload = Some r) \<and> lr_lane_key r = lane_key \<and>
    (\<forall>other r'. parse_lane_record scan validate marker_prefixes body other = Inr r' \<longrightarrow>
      other = lane_key \<and> r' = r)"
proof -
  obtain marker sec where steps: "compose_comment_marker marker_prefixes RUN_STATE_PURPOSE lane_key None = Inr marker"
    "sec \<in> set known_sections" "has_suffix (framed_section sec) body"
    "has_prefix (marker @ newline @ ''```json'' @ newline) body"
    "scan (drop (length (marker @ newline @ ''```json'' @ newline))
      (take (length body - length (framed_section sec)) body))"
    "validate (drop (length (marker @ newline @ ''```json'' @ newline))
      (take (length body - length (framed_section sec)) body)) = Some r"
    "lr_lane_key r = lane_key"
    by (rule parse_lane_record_steps [OF assms(3)]) (rule that)
  let ?p = "marker @ newline @ ''```json'' @ newline"
  let ?payload = "drop (length ?p) (take (length body - length (framed_section sec)) body)"
  have "?payload \<noteq> []" using steps(5) assms(2) by metis
  then have "body = ?p @ ?payload @ framed_section sec"
    using steps(3,4) unfolding has_suffix_def has_prefix_def by (rule split_between)
  then have "body = marker @ newline @ ''```json'' @ newline @ ?payload @ framed_section sec" by simp
  moreover have "other = lane_key \<and> r' = r"
    if other: "parse_lane_record scan validate marker_prefixes body other = Inr r'" for other r'
  proof -
    obtain m where m: "compose_comment_marker marker_prefixes RUN_STATE_PURPOSE other None = Inr m"
      "has_prefix (m @ newline @ ''```json'' @ newline) body"
      by (rule parse_lane_record_steps [OF other]) (rule that)
    have "m = marker"
      using marker_first_line [OF assms(1) m] marker_first_line [OF assms(1) steps(1,4)] by simp
    then have "other = lane_key" using marker_identifies [OF assms(1) m(1)] steps(1) by blast
    then show ?thesis using other assms(3) by simp
  qed
  ultimately show ?thesis using steps(1,2,5,6,7) by blast
qed

definition sample_body :: string where
  "sample_body = ''[kz:K-7]'' @ newline @ ''```json'' @ newline @ ''{}'' @ framed_section REENTRY_SECTION"

lemma sample_body_parses:
  "parse_lane_record (\<lambda>p. p = ''{}'') (\<lambda>_. Some sample_record) [(''run_state'', ''kz'')] sample_body ''K-7'' =
     Inr sample_record"
proof -
  have "compose_comment_marker [(''run_state'', ''kz'')] RUN_STATE_PURPOSE (lr_lane_key sample_record) None =
      Inr ''[kz:K-7]''" by code_simp
  from parse_record_comment [OF this, of REENTRY_SECTION "\<lambda>p. p = ''{}''" "\<lambda>_. ''{}''" "\<lambda>_. Some sample_record"]
  show ?thesis by (simp add: record_comment_def sample_body_def known_sections_def sample_record_def)
qed

lemma lane_record_has_one_reading_witness:
  "\<forall>other r'. parse_lane_record (\<lambda>p. p = ''{}'') (\<lambda>_. Some sample_record) [(''run_state'', ''kz'')] sample_body other
     = Inr r' \<longrightarrow> other = ''K-7''"
proof -
  have valid: "valid_marker_prefixes [(''run_state'', ''kz'')]" by code_simp
  show ?thesis
    using lane_record_has_one_reading [OF valid _ sample_body_parses] by simp
qed

subsection \<open>The record the next commit leaves\<close>

definition rebinds :: "lane_binding \<Rightarrow> branch_association \<Rightarrow> bool" where
  "rebinds lane item \<longleftrightarrow>
     ba_role item = DeliverableBranch \<and> ba_run_id item = lb_run_id lane \<and>
     (ba_branch item, ba_derived_from item) \<noteq>
       (lb_deliverable_branch lane, Some (bs_base_branch (lb_base lane)))"

definition prior_associations :: "lane_run_state option \<Rightarrow> branch_association list" where
  "prior_associations prior = (case prior of None \<Rightarrow> [] | Some p \<Rightarrow> lr_associations p)"

definition require_one_binding_per_run ::
  "lane_run_state option \<Rightarrow> lane_binding \<Rightarrow> record_error + unit" where
  "require_one_binding_per_run prior lane =
     (if list_ex (rebinds lane) (prior_associations prior) then Inl (RunRebound (lb_lane_key lane)) else Inr ())"

definition next_commits :: "lane_commit list \<Rightarrow> string \<Rightarrow> string \<Rightarrow> string \<Rightarrow> lane_commit list" where
  "next_commits commits head_sha subject lane_key =
     (if commits = [] \<or> cm_sha (last commits) \<noteq> head_sha
      then commits @ [\<lparr>cm_sha = head_sha, cm_subject = subject, cm_issue_id = lane_key\<rparr>]
      else commits)"

definition candidate_associations :: "lane_binding \<Rightarrow> string option \<Rightarrow> branch_association list" where
  "candidate_associations lane recovery_ref =
     [\<lparr>ba_branch = lb_deliverable_branch lane, ba_role = DeliverableBranch,
       ba_derived_from = Some (bs_base_branch (lb_base lane)), ba_run_id = lb_run_id lane\<rparr>,
      \<lparr>ba_branch = lb_loop_branch lane, ba_role = LoopBranch,
       ba_derived_from = Some (lb_deliverable_branch lane), ba_run_id = lb_run_id lane\<rparr>] @
     (case recovery_ref of None \<Rightarrow> []
      | Some ref \<Rightarrow> [\<lparr>ba_branch = ref, ba_role = RecoveryBranch,
                     ba_derived_from = Some (lb_loop_branch lane), ba_run_id = lb_run_id lane\<rparr>])"

fun add_missing :: "'a list \<Rightarrow> 'a list \<Rightarrow> 'a list" where
  "add_missing xs [] = xs"
| "add_missing xs (y # ys) = add_missing (if y \<in> set xs then xs else xs @ [y]) ys"

definition or_else :: "'a option \<Rightarrow> 'a option \<Rightarrow> 'a option" where
  "or_else a b = (case a of None \<Rightarrow> b | Some x \<Rightarrow> Some x)"

definition next_lane_record ::
  "lane_run_state option \<Rightarrow> lane_binding \<Rightarrow> string \<Rightarrow> string \<Rightarrow> string option \<Rightarrow> changeset_digest \<Rightarrow> string
     \<Rightarrow> string option \<Rightarrow> record_error + lane_run_state" where
  "next_lane_record prior lane branch_url head_sha pushed_head_sha changeset subject recovery_ref =
     bind_sum (require_one_binding_per_run prior lane) (\<lambda>_.
     let commits = next_commits (case prior of None \<Rightarrow> [] | Some p \<Rightarrow> lr_commits p) head_sha subject
                     (lb_lane_key lane);
         candidates = candidate_associations lane recovery_ref in
     if \<not> list_all valid_association candidates then Inl (FactsRefused (lb_lane_key lane))
     else
       let r = \<lparr>lr_lane_key = lb_lane_key lane, lr_branch = lb_loop_branch lane, lr_branch_url = branch_url,
                lr_head_sha = head_sha, lr_pushed_head_sha = pushed_head_sha,
                lr_commits_ahead = int (cd_commit_count changeset),
                lr_files_changed = int (length (cd_file_paths changeset)), lr_commits = commits,
                lr_pr = (case prior of None \<Rightarrow> None | Some p \<Rightarrow> lr_pr p),
                lr_body_digest = or_else (case prior of None \<Rightarrow> None | Some p \<Rightarrow> lr_body_digest p)
                  (Some (lb_body_digest lane)),
                lr_dispatch_base = or_else (case prior of None \<Rightarrow> None | Some p \<Rightarrow> lr_dispatch_base p)
                  (Some (lb_base lane)),
                lr_associations = add_missing (prior_associations prior) candidates\<rparr> in
       if valid_lane_run_state r then Inr r else Inl (FactsRefused (lb_lane_key lane)))"

definition record_with_pull_request :: "lane_run_state \<Rightarrow> lane_pr \<Rightarrow> lane_run_state" where
  "record_with_pull_request prior pr = prior\<lparr>lr_pr := Some pr\<rparr>"

lemma add_missing_set: "set (add_missing xs ys) = set xs \<union> set ys"
  by (induction xs ys rule: add_missing.induct) auto

lemma add_missing_extends: "\<exists>more. add_missing xs ys = xs @ more"
proof (induction xs ys rule: add_missing.induct)
  case (2 xs y ys)
  then show ?case by (auto split: if_splits)
qed simp

lemma add_missing_known: "set ys \<subseteq> set xs \<Longrightarrow> add_missing xs ys = xs"
  by (induction ys) auto

lemma delivering_runs_add:
  assumes "distinct (delivering_runs xs)"
    and "\<And>a. a \<in> set xs \<Longrightarrow> ba_role a = DeliverableBranch \<Longrightarrow> ba_run_id a = ba_run_id d \<Longrightarrow> a = d"
    and "ba_role d = DeliverableBranch" and "\<forall>y \<in> set ys. ba_role y \<noteq> DeliverableBranch"
  shows "distinct (delivering_runs (add_missing xs (d # ys)))"
proof -
  have none: "delivering_runs (add_missing zs ys) = delivering_runs zs" if "\<forall>y \<in> set ys. ba_role y \<noteq> DeliverableBranch"
    for zs and ys :: "branch_association list"
    using that by (induction zs ys rule: add_missing.induct) (auto simp: delivering_runs_def)
  have "ba_run_id d \<notin> set (delivering_runs xs)" if "d \<notin> set xs"
    using assms(2) that by (auto simp: delivering_runs_def)
  then have "distinct (delivering_runs (if d \<in> set xs then xs else xs @ [d]))"
    using assms(1,3) by (simp add: delivering_runs_def)
  then show ?thesis using none [OF assms(4)] by simp
qed

definition statable :: "lane_run_state option \<Rightarrow> lane_binding \<Rightarrow> string \<Rightarrow> string \<Rightarrow> string option \<Rightarrow> string option \<Rightarrow> bool"
  where
  "statable prior lane branch_url head_sha pushed_head_sha recovery_ref \<longleftrightarrow>
     lb_lane_key lane \<noteq> [] \<and> lb_loop_branch lane \<noteq> [] \<and> lb_deliverable_branch lane \<noteq> [] \<and>
     lb_run_id lane \<noteq> [] \<and> bs_base_branch (lb_base lane) \<noteq> [] \<and> branch_url \<noteq> [] \<and> head_sha \<noteq> [] \<and>
     pushed_head_sha \<noteq> Some [] \<and> recovery_ref \<noteq> Some [] \<and>
     (hex_digest (lb_body_digest lane) \<or> (case prior of None \<Rightarrow> False | Some p \<Rightarrow> lr_body_digest p \<noteq> None))"

lemma candidates_valid:
  "list_all valid_association (candidate_associations lane recovery_ref) \<longleftrightarrow>
     lb_loop_branch lane \<noteq> [] \<and> lb_deliverable_branch lane \<noteq> [] \<and> lb_run_id lane \<noteq> [] \<and>
     bs_base_branch (lb_base lane) \<noteq> [] \<and> recovery_ref \<noteq> Some []"
  by (auto simp: candidate_associations_def valid_association_def split: option.splits)

lemma next_associations_valid:
  assumes "\<And>p. prior = Some p \<Longrightarrow> valid_lane_run_state p"
    and "\<not> list_ex (rebinds lane) (prior_associations prior)"
  shows "distinct (delivering_runs (add_missing (prior_associations prior) (candidate_associations lane recovery_ref)))"
    and "list_ex (\<lambda>a. ba_role a = LoopBranch \<and> ba_branch a = lb_loop_branch lane)
      (add_missing (prior_associations prior) (candidate_associations lane recovery_ref))"
proof -
  have "distinct (delivering_runs (prior_associations prior))"
    using assms(1) by (cases prior) (auto simp: prior_associations_def delivering_runs_def valid_lane_run_state_def)
  then show "distinct (delivering_runs (add_missing (prior_associations prior) (candidate_associations lane recovery_ref)))"
    unfolding candidate_associations_def append_Cons
    by (rule delivering_runs_add)
      (use assms(2) in \<open>auto simp: list_ex_iff rebinds_def split: option.splits intro!: branch_association.equality\<close>)
  show "list_ex (\<lambda>a. ba_role a = LoopBranch \<and> ba_branch a = lb_loop_branch lane)
      (add_missing (prior_associations prior) (candidate_associations lane recovery_ref))"
    unfolding list_ex_iff add_missing_set by (auto simp: candidate_associations_def)
qed

lemma next_lane_record_ok:
  assumes "\<And>p. prior = Some p \<Longrightarrow> valid_lane_run_state p"
  shows "is_ok (next_lane_record prior lane branch_url head_sha pushed_head_sha changeset subject recovery_ref) \<longleftrightarrow>
    \<not> list_ex (rebinds lane) (prior_associations prior) \<and>
    statable prior lane branch_url head_sha pushed_head_sha recovery_ref"
proof (cases "list_ex (rebinds lane) (prior_associations prior)")
  case False
  note assoc = next_associations_valid [OF assms False]
  have digest: "hex_digest d" if "prior = Some p" "lr_body_digest p = Some d" for p d
    using assms [OF that(1)] that(2) by (simp add: valid_lane_run_state_def)
  show ?thesis
    using False assoc digest
    by (cases prior; cases "lr_body_digest (the prior)")
      (auto simp: next_lane_record_def require_one_binding_per_run_def Let_def statable_def candidates_valid
        valid_lane_run_state_def or_else_def)
qed (simp add: next_lane_record_def require_one_binding_per_run_def)

lemma next_lane_record_Inr:
  assumes "next_lane_record prior lane branch_url head_sha pushed_head_sha changeset subject recovery_ref = Inr r"
  shows "\<not> list_ex (rebinds lane) (prior_associations prior)" and "valid_lane_run_state r"
    and "list_all valid_association (candidate_associations lane recovery_ref)"
    and "r = \<lparr>lr_lane_key = lb_lane_key lane, lr_branch = lb_loop_branch lane, lr_branch_url = branch_url,
      lr_head_sha = head_sha, lr_pushed_head_sha = pushed_head_sha,
      lr_commits_ahead = int (cd_commit_count changeset),
      lr_files_changed = int (length (cd_file_paths changeset)),
      lr_commits = next_commits (case prior of None \<Rightarrow> [] | Some p \<Rightarrow> lr_commits p) head_sha subject
        (lb_lane_key lane),
      lr_pr = (case prior of None \<Rightarrow> None | Some p \<Rightarrow> lr_pr p),
      lr_body_digest = or_else (case prior of None \<Rightarrow> None | Some p \<Rightarrow> lr_body_digest p) (Some (lb_body_digest lane)),
      lr_dispatch_base = or_else (case prior of None \<Rightarrow> None | Some p \<Rightarrow> lr_dispatch_base p) (Some (lb_base lane)),
      lr_associations = add_missing (prior_associations prior) (candidate_associations lane recovery_ref)\<rparr>"
  using assms
  by (auto simp: next_lane_record_def require_one_binding_per_run_def bind_sum_Inr Let_def split: if_splits)

lemma next_commits_spec:
  "\<exists>more. next_commits commits head_sha subject key = commits @ more \<and> length more \<le> 1"
  "next_commits commits head_sha subject key \<noteq> []"
  "cm_sha (last (next_commits commits head_sha subject key)) = head_sha"
  "next_commits (next_commits commits head_sha subject key) head_sha subject key =
     next_commits commits head_sha subject key"
  by (auto simp: next_commits_def)

lemma candidates_not_rebinding: "a \<in> set (candidate_associations lane recovery_ref) \<Longrightarrow> \<not> rebinds lane a"
  by (auto simp: candidate_associations_def rebinds_def split: option.splits)

lemma next_lane_record_replay:
  assumes "next_lane_record prior lane branch_url head_sha pushed_head_sha changeset subject recovery_ref = Inr r"
  shows "next_lane_record (Some r) lane branch_url head_sha pushed_head_sha changeset subject recovery_ref = Inr r"
proof -
  note r = next_lane_record_Inr [OF assms]
  have assoc: "lr_associations r = add_missing (prior_associations prior) (candidate_associations lane recovery_ref)"
    by (subst r(4)) simp
  have known: "add_missing (lr_associations r) (candidate_associations lane recovery_ref) = lr_associations r"
    by (rule add_missing_known) (simp add: assoc add_missing_set)
  have "\<not> list_ex (rebinds lane) (lr_associations r)"
    using r(1) candidates_not_rebinding unfolding list_ex_iff assoc add_missing_set by blast
  moreover have "next_commits (lr_commits r) head_sha subject (lb_lane_key lane) = lr_commits r"
    by (subst (1 2) r(4)) (simp add: next_commits_spec(4))
  moreover have "or_else (lr_body_digest r) (Some (lb_body_digest lane)) = lr_body_digest r"
    "or_else (lr_dispatch_base r) (Some (lb_base lane)) = lr_dispatch_base r"
    unfolding r(4) by (simp_all add: or_else_def split: option.split)
  moreover have "r = \<lparr>lr_lane_key = lb_lane_key lane, lr_branch = lb_loop_branch lane, lr_branch_url = branch_url,
      lr_head_sha = head_sha, lr_pushed_head_sha = pushed_head_sha,
      lr_commits_ahead = int (cd_commit_count changeset),
      lr_files_changed = int (length (cd_file_paths changeset)),
      lr_commits = lr_commits r, lr_pr = lr_pr r, lr_body_digest = lr_body_digest r,
      lr_dispatch_base = lr_dispatch_base r, lr_associations = lr_associations r\<rparr>"
    by (simp add: r(4))
  ultimately show ?thesis
    using r(2,3) known
    by (simp add: next_lane_record_def require_one_binding_per_run_def prior_associations_def Let_def)
qed

text \<open>Claim C18. A record only grows: the next one is valid, extends the recorded associations by this run's and
  the commit rows by at most the one that names the observed head, keeps the pull request, the pinned subject
  digest and the pinned base, and writing the same observation again changes nothing.\<close>

theorem lane_record_only_grows:
  assumes "next_lane_record prior lane branch_url head_sha pushed_head_sha changeset subject recovery_ref = Inr r"
  shows "valid_lane_run_state r \<and> lr_head_sha r = head_sha \<and>
    lr_commits r \<noteq> [] \<and> cm_sha (last (lr_commits r)) = head_sha \<and>
    set (lr_associations r) = set (prior_associations prior) \<union> set (candidate_associations lane recovery_ref) \<and>
    (\<forall>p. prior = Some p \<longrightarrow>
       (\<exists>more. lr_associations r = lr_associations p @ more) \<and>
       (\<exists>more. lr_commits r = lr_commits p @ more \<and> length more \<le> 1) \<and>
       lr_pr r = lr_pr p \<and>
       (lr_body_digest p \<noteq> None \<longrightarrow> lr_body_digest r = lr_body_digest p) \<and>
       (lr_dispatch_base p \<noteq> None \<longrightarrow> lr_dispatch_base r = lr_dispatch_base p)) \<and>
    next_lane_record (Some r) lane branch_url head_sha pushed_head_sha changeset subject recovery_ref = Inr r"
proof -
  note r = next_lane_record_Inr [OF assms]
  have fields: "lr_head_sha r = head_sha" "lr_commits r = next_commits (case prior of None \<Rightarrow> [] | Some p \<Rightarrow> lr_commits p)
      head_sha subject (lb_lane_key lane)"
    "lr_associations r = add_missing (prior_associations prior) (candidate_associations lane recovery_ref)"
    by (simp_all add: r(4))
  have kept: "(\<exists>more. lr_associations r = lr_associations p @ more) \<and>
       (\<exists>more. lr_commits r = lr_commits p @ more \<and> length more \<le> 1) \<and>
       lr_pr r = lr_pr p \<and>
       (lr_body_digest p \<noteq> None \<longrightarrow> lr_body_digest r = lr_body_digest p) \<and>
       (lr_dispatch_base p \<noteq> None \<longrightarrow> lr_dispatch_base r = lr_dispatch_base p)" if "prior = Some p" for p
  proof (intro conjI)
    show "\<exists>more. lr_associations r = lr_associations p @ more"
      using add_missing_extends [of "lr_associations p"] that by (simp add: fields(3) prior_associations_def)
    show "\<exists>more. lr_commits r = lr_commits p @ more \<and> length more \<le> 1"
      using next_commits_spec(1) [of "lr_commits p"] that by (simp add: fields(2))
  qed (use that in \<open>auto simp: r(4) or_else_def\<close>)
  show ?thesis
    using kept r(2) next_lane_record_replay [OF assms] next_commits_spec(2,3) fields(1)
    by (simp add: fields(2,3) add_missing_set)
qed

definition sample_binding :: lane_binding where
  "sample_binding =
     \<lparr>lb_lane_key = ''K-7'', lb_loop_branch = ''loop'', lb_deliverable_branch = ''kodezart/K-7'',
      lb_base = trunk_base ''main'', lb_body_digest = replicate 64 CHR ''0'', lb_repo_url = None,
      lb_repo_path = None, lb_run_id = ''run'', lb_visibility = Private\<rparr>"

definition sample_changeset :: changeset_digest where
  "sample_changeset = \<lparr>cd_file_paths = [''a.py''], cd_commit_subjects = [''s''], cd_commit_count = 1\<rparr>"

lemma lane_record_only_grows_witness:
  "\<exists>r. next_lane_record (Some sample_record) sample_binding ''u'' ''b2'' None sample_changeset ''s2'' None = Inr r \<and>
     map cm_sha (lr_commits r) = [''a1'', ''b2''] \<and> cm_sha (last (lr_commits r)) = ''b2'' \<and>
     next_lane_record (Some r) sample_binding ''u'' ''b2'' None sample_changeset ''s2'' None = Inr r"
proof -
  let ?next = "next_lane_record (Some sample_record) sample_binding ''u'' ''b2'' None sample_changeset ''s2'' None"
  have shape: "case ?next of Inl _ \<Rightarrow> False | Inr r \<Rightarrow> map cm_sha (lr_commits r) = [''a1'', ''b2'']" by code_simp
  then obtain r where r: "?next = Inr r" by (cases ?next) auto
  then show ?thesis using lane_record_only_grows [OF r] shape by auto
qed

text \<open>On a valid prior record the next one is composed exactly when no recorded run is rebound to
  another deliverable or base and every stated fact has its declared shape: the loop association and the one
  deliverable per run, which the model also checks, can then not fail.\<close>

lemma lane_record_refused_exactly:
  assumes "\<And>p. prior = Some p \<Longrightarrow> valid_lane_run_state p"
  shows "is_ok (next_lane_record prior lane branch_url head_sha pushed_head_sha changeset subject recovery_ref) \<longleftrightarrow>
    (\<forall>a \<in> set (prior_associations prior).
       ba_role a = DeliverableBranch \<longrightarrow> ba_run_id a = lb_run_id lane \<longrightarrow>
       ba_branch a = lb_deliverable_branch lane \<and> ba_derived_from a = Some (bs_base_branch (lb_base lane))) \<and>
    statable prior lane branch_url head_sha pushed_head_sha recovery_ref"
proof -
  have "is_ok (next_lane_record prior lane branch_url head_sha pushed_head_sha changeset subject recovery_ref) \<longleftrightarrow>
    \<not> list_ex (rebinds lane) (prior_associations prior) \<and>
    statable prior lane branch_url head_sha pushed_head_sha recovery_ref"
    by (rule next_lane_record_ok) (rule assms)
  then show ?thesis by (auto simp: list_ex_iff rebinds_def)
qed

lemma lane_record_refused_exactly_witness:
  "is_ok (next_lane_record (Some sample_record) sample_binding ''u'' ''b2'' None sample_changeset ''s2'' None) \<and>
   \<not> is_ok (next_lane_record (Some sample_record) sample_binding ''u'' ''b2'' (Some []) sample_changeset ''s2'' None)"
proof -
  have valid: "valid_lane_run_state sample_record" by code_simp
  have "statable (Some sample_record) sample_binding ''u'' ''b2'' None None" by code_simp
  moreover have "\<not> statable (Some sample_record) sample_binding ''u'' ''b2'' (Some []) None" by code_simp
  moreover have "\<forall>a \<in> set (prior_associations (Some sample_record)). ba_role a \<noteq> DeliverableBranch" by code_simp
  ultimately show ?thesis
    using lane_record_refused_exactly [of "Some sample_record"] valid by auto
qed

end
