(* ===== verification/LaneEntry.thy ===== *)
theory LaneEntry
  imports LaneRecord
begin

section \<open>How a lane enters its fire\<close>

text \<open>
  \<^verbatim>\<open>types/domain/lane_entry.py\<close>, \<^verbatim>\<open>domain/lane_entry.py\<close>,
  \<^verbatim>\<open>services/lane_entry.py\<close> and the branch names of \<^verbatim>\<open>domain/agent.py\<close>: the one decision
  that turns a lane's record and the heads the remote holds into an entry, the reading that feeds it,
  and the comparison of the subject with the digest the record pinned. A drawn short id is an
  argument; the record, the remote and the board are functions of the caller.
\<close>

datatype entry_error =
  DeliverablesNotOne "string list"
| BasesNotOne "string list"
| NoCommitAct string
| RecordedBranchAbsent string
| RecordedBaseMoved string string
| LoopLeftItsHead string
| KeyCannotBeRef string
| SubjectAmended string string
| EntryInvalid
| EntryReadFailed string

record recorded_entry_facts =
  ef_deliverable_branch :: string
  ef_loop_branch :: "string option"
  ef_head_sha :: string
  ef_deliverable_head_sha :: "string option"
  ef_body_digest :: "string option"
  ef_base_stale :: bool

text \<open>A deliver-only entry always carries a loop branch; a resumed one may not.\<close>

datatype lane_entry =
  NewLane
| ResumedLane recorded_entry_facts
| DeliverOnlyLane recorded_entry_facts

definition valid_entry_facts :: "recorded_entry_facts \<Rightarrow> bool" where
  "valid_entry_facts f \<longleftrightarrow>
     ef_deliverable_branch f \<noteq> [] \<and> ef_loop_branch f \<noteq> Some [] \<and> ef_head_sha f \<noteq> [] \<and>
     ef_deliverable_head_sha f \<noteq> Some []"

fun valid_entry :: "lane_entry \<Rightarrow> bool" where
  "valid_entry NewLane = True"
| "valid_entry (ResumedLane f) = valid_entry_facts f"
| "valid_entry (DeliverOnlyLane f) = (valid_entry_facts f \<and> ef_loop_branch f \<noteq> None)"

definition made_entry :: "lane_entry \<Rightarrow> entry_error + lane_entry option" where
  "made_entry e = (if valid_entry e then Inr (Some e) else Inl EntryInvalid)"

fun recorded_entry :: "lane_entry option \<Rightarrow> recorded_entry_facts option" where
  "recorded_entry (Some (ResumedLane f)) = Some f"
| "recorded_entry (Some (DeliverOnlyLane f)) = Some f"
| "recorded_entry _ = None"

subsection \<open>Branch names\<close>

definition generate_ralph_branch_name :: "string \<Rightarrow> string \<Rightarrow> string" where
  "generate_ralph_branch_name feature_branch short_id = feature_branch @ ''-ralph-'' @ short_id"

text \<open>A ref segment: alphanumerics joined by single \<^verbatim>\<open>-\<close>, \<^verbatim>\<open>_\<close> or
  \<^verbatim>\<open>.\<close>; a key is such segments separated by slashes, none ending in \<^verbatim>\<open>.lock\<close>.\<close>

definition key_alnum :: "char \<Rightarrow> bool" where
  "key_alnum c \<longleftrightarrow>
     (let n = (of_char c :: nat) in 48 \<le> n \<and> n \<le> 57 \<or> 65 \<le> n \<and> n \<le> 90 \<or> 97 \<le> n \<and> n \<le> 122)"

fun segment_rest :: "string \<Rightarrow> bool" where
  "segment_rest [] = True"
| "segment_rest (c # cs) =
     (if key_alnum c then segment_rest cs
      else c \<in> set ''-_.'' \<and> cs \<noteq> [] \<and> key_alnum (hd cs) \<and> segment_rest cs)"

definition lane_key_segment :: "string \<Rightarrow> bool" where
  "lane_key_segment s \<longleftrightarrow> s \<noteq> [] \<and> key_alnum (hd s) \<and> segment_rest s"

fun split_on :: "char \<Rightarrow> string \<Rightarrow> string list" where
  "split_on sep [] = [[]]"
| "split_on sep (c # cs) =
     (if c = sep then [] # split_on sep cs
      else case split_on sep cs of [] \<Rightarrow> [[c]] | part # parts \<Rightarrow> (c # part) # parts)"

definition ends_with :: "string \<Rightarrow> string \<Rightarrow> bool" where
  "ends_with s ending \<longleftrightarrow>
     length ending \<le> length s \<and> drop (length s - length ending) s = ending"

definition valid_lane_key :: "string \<Rightarrow> bool" where
  "valid_lane_key key \<longleftrightarrow>
     list_all lane_key_segment (split_on (CHR ''/'') key) \<and>
     \<not> list_ex (\<lambda>part. ends_with part ''.lock'') (split_on (CHR ''/'') key)"

definition valid_short_id :: "string \<Rightarrow> bool" where
  "valid_short_id s \<longleftrightarrow> length s = 8 \<and> list_all (\<lambda>c. c \<in> set ''0123456789abcdef'') s"

definition lane_branch_name :: "string \<Rightarrow> string \<Rightarrow> string" where
  "lane_branch_name issue_key short_id = ''kodezart/'' @ issue_key @ ''-'' @ short_id"

definition mint_lane_branches :: "string \<Rightarrow> string \<Rightarrow> string \<Rightarrow> entry_error + string \<times> string" where
  "mint_lane_branches issue_key short_id loop_id =
     (if valid_lane_key issue_key \<and> valid_short_id short_id
      then let deliverable = lane_branch_name issue_key short_id in
           Inr (deliverable, generate_ralph_branch_name deliverable loop_id)
      else Inl (KeyCannotBeRef issue_key))"

definition best_iteration_ref :: "string \<Rightarrow> string" where
  "best_iteration_ref feature_branch = feature_branch @ ''-best''"

subsection \<open>What a record settles\<close>

record recorded_branches =
  rb_loop_branch :: string
  rb_deliverable_branch :: string
  rb_recorded_base :: string

record recorded_lane =
  rl_record :: lane_run_state
  rl_branches :: recorded_branches
  rl_head :: lane_commit

definition derived_from :: "lane_run_state \<Rightarrow> branch_role \<Rightarrow> string \<Rightarrow> string list" where
  "derived_from r role branch =
     fromkeys (List.map_filter ba_derived_from
       (filter (\<lambda>a. ba_role a = role \<and> ba_branch a = branch) (lr_associations r)))"

definition recorded_branches_of :: "lane_run_state \<Rightarrow> entry_error + recorded_branches" where
  "recorded_branches_of r =
     (case derived_from r LoopBranch (lr_branch r) of
        [deliverable] \<Rightarrow>
          (case derived_from r DeliverableBranch deliverable of
             [base] \<Rightarrow>
               Inr \<lparr>rb_loop_branch = lr_branch r, rb_deliverable_branch = deliverable,
                    rb_recorded_base = base\<rparr>
           | bases \<Rightarrow> Inl (BasesNotOne (sort bases)))
      | deliverables \<Rightarrow> Inl (DeliverablesNotOne (sort deliverables)))"

definition recorded_commit :: "lane_run_state \<Rightarrow> entry_error + lane_commit" where
  "recorded_commit r =
     (if lr_commits r = [] then Inl (NoCommitAct (lr_branch r)) else Inr (last (lr_commits r)))"

definition recorded_lane_of :: "lane_run_state \<Rightarrow> entry_error + recorded_lane" where
  "recorded_lane_of r =
     bind_sum (recorded_branches_of r) (\<lambda>branches.
     bind_sum (recorded_commit r) (\<lambda>head.
     Inr \<lparr>rl_record = r, rl_branches = branches, rl_head = head\<rparr>))"

subsection \<open>The decision\<close>

definition base_stale_at_entry :: "lane_run_state \<Rightarrow> base_spec \<Rightarrow> bool" where
  "base_stale_at_entry r implied_base =
     (case lr_dispatch_base r of None \<Rightarrow> False | Some pinned \<Rightarrow> is_base_stale pinned implied_base)"

definition decide_lane_entry ::
  "recorded_lane option \<Rightarrow> string option \<Rightarrow> string option \<Rightarrow> string list \<Rightarrow> base_spec
     \<Rightarrow> entry_error + lane_entry option" where
  "decide_lane_entry recorded remote_loop_head remote_deliverable_head open_criteria implied_base =
     (case recorded of
        None \<Rightarrow> Inr (if open_criteria \<noteq> [] then Some NewLane else None)
      | Some lane \<Rightarrow>
          let r = rl_record lane; branches = rl_branches lane; head = cm_sha (rl_head lane);
              continued = (remote_loop_head = Some head);
              facts = \<lparr>ef_deliverable_branch = rb_deliverable_branch branches,
                       ef_loop_branch = (if continued then Some (rb_loop_branch branches) else None),
                       ef_head_sha = head, ef_deliverable_head_sha = remote_deliverable_head,
                       ef_body_digest = lr_body_digest r,
                       ef_base_stale = base_stale_at_entry r implied_base\<rparr> in
          if remote_loop_head = None then Inl (RecordedBranchAbsent (rb_loop_branch branches))
          else if rb_recorded_base branches \<noteq> bs_base_branch implied_base
          then Inl (RecordedBaseMoved (rb_recorded_base branches) (bs_base_branch implied_base))
          else if open_criteria \<noteq> [] then made_entry (ResumedLane facts)
          else if lr_pr r \<noteq> None then Inr None
          else if \<not> continued then Inl (LoopLeftItsHead (rb_loop_branch branches))
          else made_entry (DeliverOnlyLane facts))"

definition require_unamended_subject ::
  "(string \<Rightarrow> string) \<Rightarrow> lane_entry option \<Rightarrow> string \<Rightarrow> entry_error + unit" where
  "require_unamended_subject sha256 entry body =
     (case recorded_entry entry of
        None \<Rightarrow> Inr ()
      | Some f \<Rightarrow>
          (case ef_body_digest f of
             None \<Rightarrow> Inr ()
           | Some pinned \<Rightarrow> if sha256 body = pinned then Inr () else Inl (SubjectAmended pinned (sha256 body))))"

subsection \<open>The reading that feeds it\<close>

record entry_reads =
  er_find :: "string \<Rightarrow> entry_error + lane_run_state option"
  er_remote :: "string \<Rightarrow> entry_error + string option"

datatype entry_note =
  RecordHeadDiffers string string string
| DeliverableHeadDiffers string string string string

definition head_notes ::
  "recorded_lane \<Rightarrow> string option \<Rightarrow> string option \<Rightarrow> string option \<Rightarrow> entry_note list" where
  "head_notes lane remote_head deliverable_head base_head =
     (case remote_head of
        None \<Rightarrow> []
      | Some h \<Rightarrow>
          if h = cm_sha (rl_head lane) then []
          else [RecordHeadDiffers (rb_loop_branch (rl_branches lane)) (cm_sha (rl_head lane)) h]) @
     (case (deliverable_head, base_head) of
        (Some d, Some b) \<Rightarrow>
          if d = b then []
          else [DeliverableHeadDiffers (rb_deliverable_branch (rl_branches lane))
                  (rb_recorded_base (rl_branches lane)) b d]
      | _ \<Rightarrow> [])"

definition read_lane_entry ::
  "entry_reads \<Rightarrow> string \<Rightarrow> string list \<Rightarrow> base_spec \<Rightarrow> entry_error + lane_entry option \<times> entry_note list"
  where
  "read_lane_entry reads issue_key open_criteria implied_base =
     bind_sum (er_find reads issue_key) (\<lambda>found.
     case found of
       None \<Rightarrow>
         bind_sum (decide_lane_entry None None None open_criteria implied_base) (\<lambda>e. Inr (e, []))
     | Some r \<Rightarrow>
         bind_sum (recorded_lane_of r) (\<lambda>lane.
         bind_sum (er_remote reads (rb_loop_branch (rl_branches lane))) (\<lambda>remote_head.
         bind_sum (er_remote reads (rb_deliverable_branch (rl_branches lane))) (\<lambda>deliverable_head.
         bind_sum (er_remote reads (rb_recorded_base (rl_branches lane))) (\<lambda>base_head.
         bind_sum (decide_lane_entry (Some lane) remote_head deliverable_head open_criteria implied_base)
           (\<lambda>e. Inr (e, head_notes lane remote_head deliverable_head base_head)))))))"

subsection \<open>What an entry stands on\<close>

lemma recorded_lane_of_ok:
  assumes "recorded_lane_of r = Inr lane"
  shows "rl_record lane = r \<and> lr_commits r \<noteq> [] \<and> rl_head lane = last (lr_commits r) \<and>
    rb_loop_branch (rl_branches lane) = lr_branch r \<and>
    derived_from r LoopBranch (lr_branch r) = [rb_deliverable_branch (rl_branches lane)] \<and>
    derived_from r DeliverableBranch (rb_deliverable_branch (rl_branches lane)) =
      [rb_recorded_base (rl_branches lane)]"
  using assms
  by (auto simp: recorded_lane_of_def recorded_branches_of_def recorded_commit_def bind_sum_Inr
      split: list.splits if_splits)

lemma made_entry_ok: "made_entry e = Inr x \<longleftrightarrow> x = Some e \<and> valid_entry e"
  by (auto simp: made_entry_def)

definition entered_on :: "recorded_lane \<Rightarrow> string option \<Rightarrow> string option \<Rightarrow> recorded_entry_facts \<Rightarrow> bool"
  where
  "entered_on lane loop_head deliverable_head f \<longleftrightarrow>
     ef_deliverable_branch f = rb_deliverable_branch (rl_branches lane) \<and>
     ef_head_sha f = cm_sha (rl_head lane) \<and> ef_deliverable_head_sha f = deliverable_head \<and>
     ef_loop_branch f =
       (if loop_head = Some (cm_sha (rl_head lane)) then Some (rb_loop_branch (rl_branches lane)) else None) \<and>
     ef_body_digest f = lr_body_digest (rl_record lane) \<and> valid_entry_facts f"

lemma decide_recorded:
  assumes "decide_lane_entry (Some lane) loop_head deliverable_head open_criteria implied = Inr (Some e)"
  shows "\<exists>f. recorded_entry (Some e) = Some f \<and> entered_on lane loop_head deliverable_head f \<and>
    loop_head \<noteq> None \<and> rb_recorded_base (rl_branches lane) = bs_base_branch implied \<and>
    ef_base_stale f = base_stale_at_entry (rl_record lane) implied \<and>
    (e = ResumedLane f \<longleftrightarrow> open_criteria \<noteq> []) \<and>
    (e = DeliverOnlyLane f \<longleftrightarrow> open_criteria = [] \<and> lr_pr (rl_record lane) = None \<and>
       loop_head = Some (cm_sha (rl_head lane)))"
  using assms
  by (cases loop_head)
    (auto simp: decide_lane_entry_def Let_def made_entry_ok entered_on_def split: if_splits)

definition derivations :: "lane_run_state \<Rightarrow> branch_role \<Rightarrow> string \<Rightarrow> string set" where
  "derivations r role branch =
     {d. \<exists>a \<in> set (lr_associations r). ba_role a = role \<and> ba_branch a = branch \<and> ba_derived_from a = Some d}"

lemma derived_from_set: "set (derived_from r role branch) = derivations r role branch"
proof -
  have "set (List.map_filter ba_derived_from as) = {d. \<exists>a \<in> set as. ba_derived_from a = Some d}"
    for as :: "branch_association list"
    by (induction as) (auto simp: List.map_filter_simps split: option.splits)
  from this [of "filter (\<lambda>a. ba_role a = role \<and> ba_branch a = branch) (lr_associations r)"]
  show ?thesis by (auto simp: derived_from_def derivations_def)
qed

lemma derived_from_one: "derived_from r role branch = [d] \<Longrightarrow> derivations r role branch = {d}"
  by (simp flip: derived_from_set)

lemma read_recorded:
  assumes "read_lane_entry reads issue_key open_criteria implied = Inr (Some e, notes)"
    and "er_find reads issue_key = Inr (Some r)"
  obtains lane loop_head deliverable_head where "recorded_lane_of r = Inr lane"
    "er_remote reads (lr_branch r) = Inr loop_head"
    "decide_lane_entry (Some lane) loop_head deliverable_head open_criteria implied = Inr (Some e)"
proof -
  obtain lane loop_head deliverable_head where lane: "recorded_lane_of r = Inr lane"
      "er_remote reads (rb_loop_branch (rl_branches lane)) = Inr loop_head"
      "decide_lane_entry (Some lane) loop_head deliverable_head open_criteria implied = Inr (Some e)"
    using assms by (auto simp: read_lane_entry_def bind_sum_Inr)
  show ?thesis
    using that [OF lane(1) _ lane(3)] lane(2) recorded_lane_of_ok [OF lane(1)] by simp
qed

text \<open>Claim C35. A lane is re-entered at what its record names and nowhere else: a lane nothing is
  recorded for is new, and is entered only while it owes a criterion; a recorded lane is never started
  again. It is entered at the sha of its record's last commit row, on the one deliverable branch its
  loop association names and the one base that branch names, which is the base that resolves now. It
  continues the recorded loop branch exactly when the remote holds that branch at that sha. It resumes
  exactly when it owes a criterion, and delivers only when it owes none, has no pull request, and its
  loop branch stands at its head.\<close>

theorem lane_reenters_at_its_record:
  assumes "read_lane_entry reads issue_key open_criteria implied = Inr (Some e, notes)"
  shows "(er_find reads issue_key = Inr None \<and> e = NewLane \<and> open_criteria \<noteq> []) \<or>
    (\<exists>r f. er_find reads issue_key = Inr (Some r) \<and> recorded_entry (Some e) = Some f \<and>
       lr_commits r \<noteq> [] \<and> ef_head_sha f = cm_sha (last (lr_commits r)) \<and>
       derivations r LoopBranch (lr_branch r) = {ef_deliverable_branch f} \<and>
       derivations r DeliverableBranch (ef_deliverable_branch f) = {bs_base_branch implied} \<and>
       ef_loop_branch f =
         (if er_remote reads (lr_branch r) = Inr (Some (ef_head_sha f)) then Some (lr_branch r) else None) \<and>
       (e = ResumedLane f \<longleftrightarrow> open_criteria \<noteq> []) \<and>
       (e = DeliverOnlyLane f \<longleftrightarrow>
          open_criteria = [] \<and> lr_pr r = None \<and> ef_loop_branch f = Some (lr_branch r)))"
proof (cases "er_find reads issue_key")
  case (Inr found)
  show ?thesis
  proof (cases found)
    case None
    then show ?thesis
      using assms Inr
      by (auto simp: read_lane_entry_def decide_lane_entry_def bind_sum_Inr split: if_splits)
  next
    case (Some r)
    obtain lane loop_head deliverable_head where lane: "recorded_lane_of r = Inr lane"
        "er_remote reads (lr_branch r) = Inr loop_head"
        "decide_lane_entry (Some lane) loop_head deliverable_head open_criteria implied = Inr (Some e)"
      using read_recorded [OF assms] Inr Some by blast
    note r = recorded_lane_of_ok [OF lane(1)]
    obtain f where f: "recorded_entry (Some e) = Some f" "entered_on lane loop_head deliverable_head f"
        "rb_recorded_base (rl_branches lane) = bs_base_branch implied"
        "e = ResumedLane f \<longleftrightarrow> open_criteria \<noteq> []"
        "e = DeliverOnlyLane f \<longleftrightarrow> open_criteria = [] \<and> lr_pr (rl_record lane) = None \<and>
           loop_head = Some (cm_sha (rl_head lane))"
      using decide_recorded [OF lane(3)] by blast
    have "derivations r LoopBranch (lr_branch r) = {ef_deliverable_branch f}"
      using r f(2) by (simp add: entered_on_def derived_from_one)
    moreover have "derivations r DeliverableBranch (ef_deliverable_branch f) = {bs_base_branch implied}"
      using r f(2,3) by (simp add: entered_on_def derived_from_one)
    moreover have "ef_loop_branch f =
        (if er_remote reads (lr_branch r) = Inr (Some (ef_head_sha f)) then Some (lr_branch r) else None)"
      using r f(2) lane(2) by (simp add: entered_on_def)
    moreover have "e = DeliverOnlyLane f \<longleftrightarrow>
        open_criteria = [] \<and> lr_pr r = None \<and> ef_loop_branch f = Some (lr_branch r)"
      using r f(2,5) by (simp add: entered_on_def)
    ultimately show ?thesis
      using Inr Some r f(1,2,4) by (intro disjI2 exI [of _ r] exI [of _ f]) (simp add: entered_on_def)
  qed
qed (use assms in \<open>simp add: read_lane_entry_def\<close>)

definition sample_entry_record :: lane_run_state where
  "sample_entry_record =
     \<lparr>lr_lane_key = ''K-1'', lr_branch = ''l'', lr_branch_url = ''u'', lr_head_sha = ''b'',
      lr_pushed_head_sha = Some ''b'', lr_commits_ahead = 2, lr_files_changed = 1,
      lr_commits = [\<lparr>cm_sha = ''a'', cm_subject = ''s'', cm_issue_id = ''K-1''\<rparr>,
                    \<lparr>cm_sha = ''b'', cm_subject = ''t'', cm_issue_id = ''K-1''\<rparr>],
      lr_pr = None, lr_body_digest = None, lr_dispatch_base = None,
      lr_associations =
        [\<lparr>ba_branch = ''l'', ba_role = LoopBranch, ba_derived_from = Some ''d'', ba_run_id = ''r''\<rparr>,
         \<lparr>ba_branch = ''d'', ba_role = DeliverableBranch, ba_derived_from = Some ''main'',
          ba_run_id = ''r''\<rparr>]\<rparr>"

definition sample_entry_reads :: "string \<Rightarrow> entry_reads" where
  "sample_entry_reads loop_head =
     \<lparr>er_find = (\<lambda>_. Inr (Some sample_entry_record)),
      er_remote = (\<lambda>b. Inr (if b = ''l'' then Some loop_head else None))\<rparr>"

definition sample_facts :: "string option \<Rightarrow> recorded_entry_facts" where
  "sample_facts loop_branch =
     \<lparr>ef_deliverable_branch = ''d'', ef_loop_branch = loop_branch, ef_head_sha = ''b'',
      ef_deliverable_head_sha = None, ef_body_digest = None, ef_base_stale = False\<rparr>"

lemma sample_entries:
  "read_lane_entry (sample_entry_reads ''b'') ''K-1'' [''C''] (trunk_base ''main'') =
     Inr (Some (ResumedLane (sample_facts (Some ''l''))), [])"
  "read_lane_entry (sample_entry_reads ''x'') ''K-1'' [''C''] (trunk_base ''main'') =
     Inr (Some (ResumedLane (sample_facts None)), [RecordHeadDiffers ''l'' ''b'' ''x''])"
  "read_lane_entry (sample_entry_reads ''x'') ''K-1'' [] (trunk_base ''main'') = Inl (LoopLeftItsHead ''l'')"
  by code_simp+

theorem lane_reenters_at_its_record_witness:
  "read_lane_entry (sample_entry_reads ''x'') ''K-1'' [''C''] (trunk_base ''main'') =
     Inr (Some (ResumedLane (sample_facts None)), [RecordHeadDiffers ''l'' ''b'' ''x'']) \<and>
   (\<exists>r f. er_find (sample_entry_reads ''x'') ''K-1'' = Inr (Some r) \<and>
      ResumedLane (sample_facts None) = ResumedLane f \<and> ef_head_sha f = cm_sha (last (lr_commits r)))"
  using lane_reenters_at_its_record [OF sample_entries(2)] sample_entries(2)
  by (auto simp: sample_entry_reads_def)

text \<open>Two lanes never draw the same deliverable branch.\<close>

lemma minted_names_differ:
  assumes "mint_lane_branches key short_id loop_id = Inr (branch, loop_branch)"
    and "mint_lane_branches key' short_id' loop_id' = Inr (branch, loop_branch')"
  shows "key = key' \<and> short_id = short_id'"
proof -
  have name: "branch = lane_branch_name key short_id" "branch = lane_branch_name key' short_id'"
      "length short_id = length short_id'"
    using assms by (auto simp: mint_lane_branches_def Let_def valid_short_id_def split: if_splits)
  then show ?thesis by (simp add: lane_branch_name_def)
qed

end
