(* ===== verification/FireCriteria.thy ===== *)
theory FireCriteria
  imports FireSpec LaneEntry
begin

section \<open>What a native fire owes, read off the tracker\<close>

text \<open>
  \<^verbatim>\<open>domain/gap.py\<close>, \<^verbatim>\<open>services/scope_membership.py\<close>, the readings of
  \<^verbatim>\<open>chains/criteria.py\<close> and the readers of \<^verbatim>\<open>domain/workflow_state.py\<close>: the subtree a
  subject holds, which of its criteria are owed, which are finished, and the barrier that reads them
  again. What the tracker answers is an argument; a dictionary comprehension stops at the first entry
  that refuses.
\<close>

subsection \<open>The gap\<close>

datatype gap_membership = Owed | Discharged | Excluded

fun state_membership :: "workflow_state_kind \<Rightarrow> gap_membership" where
  "state_membership CompletedState = Discharged"
| "state_membership CanceledState = Excluded"
| "state_membership DuplicateState = Excluded"
| "state_membership TriageState = Owed"
| "state_membership BacklogState = Owed"
| "state_membership UnstartedState = Owed"
| "state_membership StartedState = Owed"

datatype criteria_read_error =
  TransportFailure string
| ProtocolFailure string
| ScopeRead string
| SpecRefused spec_error
| CriterionReadError string string
| EntryRefused entry_error
| NotACriterion
| RepeatedCriterion
| SetInvalid criteria_error
| PersistedCriterionSet
| StateInvalid string

definition CRITERION_LABEL :: string where "CRITERION_LABEL = ''criterion''"

definition is_criterion :: "tracker_issue \<Rightarrow> bool" where
  "is_criterion issue \<longleftrightarrow> CRITERION_LABEL \<in> set (ti_issue_labels issue)"

definition gap_membership_of :: "tracker_issue \<Rightarrow> criteria_read_error + gap_membership" where
  "gap_membership_of criterion =
     (if is_criterion criterion then Inr (state_membership (ti_state_kind criterion)) else Inl NotACriterion)"

definition open_state_kind :: "workflow_state_kind \<Rightarrow> bool" where
  "open_state_kind kind \<longleftrightarrow> state_membership kind = Owed"

record criterion_gap =
  cg_owed :: "tracker_issue list"
  cg_excluded :: "string list"

definition compute_gap :: "tracker_issue list \<Rightarrow> criteria_read_error + criterion_gap" where
  "compute_gap criteria =
     (if \<not> distinct (map ti_issue_key criteria) then Inl RepeatedCriterion
      else
        bind_sum (read_each gap_membership_of criteria) (\<lambda>memberships.
        Inr \<lparr>cg_owed = map fst (filter (\<lambda>(_, m). m = Owed) memberships),
             cg_excluded = map (ti_issue_key \<circ> fst) (filter (\<lambda>(_, m). m = Excluded) memberships)\<rparr>))"

subsection \<open>The subtree\<close>

record subject_reads =
  sj_subject :: "string \<Rightarrow> criteria_read_error + tracker_issue"
  sj_scope :: "string \<Rightarrow> criteria_read_error + tracker_issue list"
  sj_criteria :: "string \<Rightarrow> criteria_read_error + tracker_issue list"

fun scoped_members ::
  "(string, tracker_issue) pydict \<Rightarrow> tracker_issue list \<Rightarrow> criteria_read_error + (string, tracker_issue) pydict"
  where
  "scoped_members members [] = Inr members"
| "scoped_members members (issue # issues) =
     (if ti_issue_key issue \<in> set (dict_keys members) then Inl (ScopeRead ''duplicate scope member'')
      else scoped_members (AList.update (ti_issue_key issue) issue members) issues)"

fun add_criteria ::
  "string \<Rightarrow> string list \<Rightarrow> (string, tracker_issue) pydict \<Rightarrow> tracker_issue list
     \<Rightarrow> criteria_read_error + (string, tracker_issue) pydict" where
  "add_criteria parent seen members [] = Inr members"
| "add_criteria parent seen members (criterion # criteria) =
     (let key = ti_issue_key criterion in
      if key \<in> set seen then Inl (ScopeRead ''duplicate scope criterion member'')
      else if ti_parent_key criterion \<noteq> Some parent \<or>
              (case map_of members key of None \<Rightarrow> False | Some previous \<Rightarrow> previous \<noteq> criterion)
      then Inl (ScopeRead ''scope criterion membership changed'')
      else add_criteria parent (key # seen) (AList.update key criterion members) criteria)"

fun criterion_members ::
  "(string \<Rightarrow> criteria_read_error + tracker_issue list) \<Rightarrow> (string, tracker_issue) pydict \<Rightarrow> tracker_issue list
     \<Rightarrow> criteria_read_error + (string, tracker_issue) pydict" where
  "criterion_members read members [] = Inr members"
| "criterion_members read members (issue # issues) =
     bind_sum (read (ti_issue_key issue)) (\<lambda>criteria.
     bind_sum (add_criteria (ti_issue_key issue) [] members criteria) (\<lambda>members.
     criterion_members read members issues))"

definition read_scope_members ::
  "subject_reads \<Rightarrow> string \<Rightarrow> criteria_read_error + (string, tracker_issue) pydict" where
  "read_scope_members reads subject =
     bind_sum (sj_scope reads subject) (\<lambda>issues.
     bind_sum (scoped_members [] issues) (\<lambda>members.
     criterion_members (sj_criteria reads) members issues))"

definition subtree_criteria :: "(string, tracker_issue) pydict \<Rightarrow> (string, tracker_issue) pydict" where
  "subtree_criteria members = filter (\<lambda>(_, issue). is_criterion issue) members"

definition read_subtree_criteria ::
  "subject_reads \<Rightarrow> string \<Rightarrow> criteria_read_error + (string, tracker_issue) pydict" where
  "read_subtree_criteria reads subject =
     bind_sum (read_scope_members reads subject) (\<lambda>members. Inr (subtree_criteria members))"

subsection \<open>The readings of a fire\<close>

definition OWED_CRITERION_STATE :: workflow_state_kind where
  "OWED_CRITERION_STATE = UnstartedState"

definition HELD_CRITERION_STATE :: workflow_state_kind where
  "HELD_CRITERION_STATE = CompletedState"

definition sorted_items :: "(string, 'v) pydict \<Rightarrow> (string \<times> 'v) list" where
  "sorted_items d = sort_key fst d"

definition owes :: "string list \<Rightarrow> string \<times> tracker_issue \<Rightarrow> bool" where
  "owes held_keys entry \<longleftrightarrow>
     (case entry of (key, issue) \<Rightarrow>
        ti_state_kind issue = OWED_CRITERION_STATE \<or>
        (ti_state_kind issue = HELD_CRITERION_STATE \<and> key \<in> set held_keys))"

text \<open>The Check of each selected criterion, in key order, and the set it is shaped into.\<close>

definition checked_set ::
  "string \<Rightarrow> string \<Rightarrow> (string \<times> tracker_issue) list \<Rightarrow> criteria_read_error + tracker_criterion_set" where
  "checked_set issue_key refusal selected =
     bind_sum (read_each (\<lambda>(key, issue). map_error SpecRefused (criterion_check issue issue_key)) selected)
       (\<lambda>checks.
     if checks = [] then Inl (SpecRefused (FireSpecEntry issue_key refusal))
     else map_error SetInvalid (criterion_set (map (\<lambda>((key, _), check). (key, check)) checks)))"

definition owed ::
  "string \<Rightarrow> (string, tracker_issue) pydict \<Rightarrow> string list \<Rightarrow> criteria_read_error + tracker_criterion_set" where
  "owed issue_key criteria held_keys =
     checked_set issue_key ''the subtree has no Todo criteria to execute''
       (filter (owes held_keys) (sorted_items criteria))"

definition finished ::
  "string \<Rightarrow> (string, tracker_issue) pydict \<Rightarrow> criteria_read_error + tracker_criterion_set" where
  "finished issue_key criteria =
     bind_sum (compute_gap (map snd (sorted_items criteria))) (\<lambda>gap.
     if cg_owed gap \<noteq> []
     then Inl (SpecRefused (FireSpecEntry issue_key
            (''a criterion of the subtree is not finished: '' @ join '', '' (map ti_issue_key (cg_owed gap)))))
     else checked_set issue_key ''the subtree has no criteria to deliver''
            (filter (\<lambda>(_, issue). state_membership (ti_state_kind issue) = Discharged)
              (sorted_items criteria)))"

definition capture ::
  "(instant \<Rightarrow> string) \<Rightarrow> subject_reads \<Rightarrow> string
     \<Rightarrow> criteria_read_error + tracker_spec \<times> (string, tracker_issue) pydict" where
  "capture isoformat reads issue_key =
     (case bind_sum (sj_subject reads issue_key) (\<lambda>subject.
             bind_sum (read_subtree_criteria reads (ti_issue_key subject)) (\<lambda>criteria. Inr (subject, criteria))) of
        Inl (TransportFailure _) \<Rightarrow>
          Inl (SpecRefused (FireSpecEntry issue_key ''the tracker subject spec could not be read''))
      | Inl (ProtocolFailure _) \<Rightarrow>
          Inl (CriterionReadError issue_key ''the tracker read failed or was incomplete'')
      | Inl e \<Rightarrow> Inl e
      | Inr (subject, criteria) \<Rightarrow>
          bind_sum (map_error SpecRefused
              (tracker_spec_from_issues isoformat subject (map snd (sorted_items criteria))))
            (\<lambda>spec. Inr (spec, criteria)))"

definition read_entry ::
  "(instant \<Rightarrow> string) \<Rightarrow> subject_reads \<Rightarrow> string \<Rightarrow> bool
     \<Rightarrow> criteria_read_error + tracker_spec \<times> tracker_criterion_set" where
  "read_entry isoformat reads issue_key delivering =
     bind_sum (capture isoformat reads issue_key) (\<lambda>(spec, criteria).
     bind_sum (if delivering then finished (tk_subject spec) criteria else owed (tk_subject spec) criteria [])
       (\<lambda>roster. Inr (spec, roster)))"

fun require_named :: "string \<Rightarrow> string list \<Rightarrow> (string, tracker_issue) pydict \<Rightarrow> criteria_read_error + unit"
  where
  "require_named subject [] criteria = Inr ()"
| "require_named subject (named # rest) criteria =
     (if named \<notin> set (dict_keys criteria)
      then Inl (SpecRefused (InvalidFireCriterion subject named
             ''the spec names a criterion the subtree does not hold''))
      else require_named subject rest criteria)"

definition held_keys_of :: "tracker_criterion_set option \<Rightarrow> string list" where
  "held_keys_of roster = (case roster of None \<Rightarrow> [] | Some r \<Rightarrow> map tc_id (ts_criteria r))"

definition owed_from ::
  "tracker_spec \<Rightarrow> (string, tracker_issue) pydict \<Rightarrow> tracker_criterion_set option
     \<Rightarrow> criteria_read_error + tracker_criterion_set" where
  "owed_from spec criteria roster = owed (tk_subject spec) criteria (held_keys_of roster)"

definition read_current ::
  "subject_reads \<Rightarrow> tracker_spec \<Rightarrow> tracker_criterion_set option
     \<Rightarrow> criteria_read_error + tracker_criterion_set" where
  "read_current reads spec roster =
     (case bind_sum (read_subtree_criteria reads (tk_subject spec)) (\<lambda>criteria.
             bind_sum (require_named (tk_subject spec) (tk_criteria spec) criteria) (\<lambda>_. Inr criteria)) of
        Inl (TransportFailure _) \<Rightarrow>
          Inl (SpecRefused (FireSpecEntry (tk_subject spec) ''current tracker criteria could not be read''))
      | Inl e \<Rightarrow> Inl e
      | Inr criteria \<Rightarrow> owed_from spec criteria roster)"

subsection \<open>What a reading holds\<close>

lemma wf_add_criteria:
  "add_criteria parent seen members criteria = Inr result \<Longrightarrow> wf_dict members \<Longrightarrow> wf_dict result"
proof (induction criteria arbitrary: seen members)
  case (Cons criterion criteria)
  then have "add_criteria parent (ti_issue_key criterion # seen)
      (AList.update (ti_issue_key criterion) criterion members) criteria = Inr result"
    by (simp add: Let_def split: if_split_asm)
  then show ?case by (rule Cons.IH) (rule wf_dict_set [OF Cons.prems(2)])
qed simp

lemma wf_criterion_members:
  "criterion_members read members issues = Inr result \<Longrightarrow> wf_dict members \<Longrightarrow> wf_dict result"
  by (induction issues arbitrary: members) (auto simp: bind_sum_Inr dest: wf_add_criteria)

lemma wf_scoped_members:
  "scoped_members members issues = Inr result \<Longrightarrow> wf_dict members \<Longrightarrow> wf_dict result"
  by (induction issues arbitrary: members) (auto simp: wf_dict_set split: if_splits)

lemma wf_subtree:
  assumes "read_subtree_criteria reads subject = Inr criteria"
  shows "wf_dict criteria"
proof -
  obtain issues scoped members where "scoped_members [] issues = Inr scoped"
      "criterion_members (sj_criteria reads) scoped issues = Inr members"
      "criteria = subtree_criteria members"
    using assms by (auto simp: read_subtree_criteria_def read_scope_members_def bind_sum_Inr)
  then have "wf_dict members" "criteria = subtree_criteria members"
    using wf_scoped_members wf_criterion_members by fastforce+
  then show ?thesis by (simp add: subtree_criteria_def distinct_map_filter)
qed

lemma sorted_items_keys:
  "wf_dict d \<Longrightarrow> map fst (sorted_items d) = sorted_list_of_set (set (dict_keys d))"
proof -
  assume "wf_dict d"
  moreover have "mset (map fst (sorted_items d)) = mset (dict_keys d)" by (simp add: sorted_items_def)
  ultimately have "distinct (map fst (sorted_items d))" by (metis mset_eq_imp_distinct_iff)
  moreover have "sorted (map fst (sorted_items d))" by (simp add: sorted_items_def)
  moreover have "set (map fst (sorted_items d)) = set (dict_keys d)" by (simp add: sorted_items_def)
  ultimately show ?thesis by (metis sorted_distinct_set_unique distinct_sorted_list_of_set
    finite_set set_sorted_list_of_set sorted_sorted_list_of_set)
qed

lemma checked_set_ok:
  assumes "checked_set issue_key refusal selected = Inr roster"
  shows "map tc_id (ts_criteria roster) = map fst selected"
proof -
  obtain checks where c:
      "read_each (\<lambda>(key, issue). map_error SpecRefused (criterion_check issue issue_key)) selected = Inr checks"
      "criterion_set (map (\<lambda>((key, _), check). (key, check)) checks) = Inr roster"
    using assms by (auto simp: checked_set_def bind_sum_Inr map_error_Inr split: if_splits)
  have "map tc_id (ts_criteria roster) = map (fst \<circ> fst) checks"
    using c(2) by (auto simp: criterion_set_def Let_def split: if_splits)
  also have "\<dots> = map fst selected" using read_each_ok [OF c(1)] by (metis map_map)
  finally show ?thesis .
qed

text \<open>Two readings of one roster that differ in nothing but what the fire itself crossed off.\<close>

definition crossed_off_since ::
  "tracker_criterion_set \<Rightarrow> (string, tracker_issue) pydict \<Rightarrow> (string, tracker_issue) pydict \<Rightarrow> bool" where
  "crossed_off_since roster before after \<longleftrightarrow>
     set (dict_keys after) = set (dict_keys before) \<and>
     (\<forall>key i j. map_of before key = Some i \<and> map_of after key = Some j \<longrightarrow>
        criterion_field_bodies (ti_body j) CheckField = criterion_field_bodies (ti_body i) CheckField \<and>
        (ti_state_kind j = ti_state_kind i \<or>
         key \<in> set (held_keys_of (Some roster)) \<and>
           ti_state_kind j \<in> {OWED_CRITERION_STATE, HELD_CRITERION_STATE}))"

lemma check_reads_the_field:
  "criterion_field_bodies (ti_body j) CheckField = criterion_field_bodies (ti_body i) CheckField \<Longrightarrow>
     criterion_check i key = Inr check \<Longrightarrow> criterion_check j key' = Inr check"
  by (auto simp: criterion_check_def split: list.splits if_splits)

lemma same_checks:
  assumes "list_all2 (\<lambda>(k, i) (l, j). k = l \<and>
      criterion_field_bodies (ti_body j) CheckField = criterion_field_bodies (ti_body i) CheckField) xs ys"
    and "read_each (\<lambda>(key, issue). map_error SpecRefused (criterion_check issue issue_key)) xs = Inr checks"
  shows "\<exists>checks'.
    read_each (\<lambda>(key, issue). map_error SpecRefused (criterion_check issue issue_key)) ys = Inr checks' \<and>
    map (\<lambda>((key, _), check). (key, check)) checks' = map (\<lambda>((key, _), check). (key, check)) checks"
  using assms
proof (induction arbitrary: checks rule: list_all2_induct)
  case (Cons x xs y ys)
  obtain k i where x: "x = (k, i)" by (cases x)
  obtain l j where y: "y = (l, j)" by (cases y)
  obtain check rest where c: "criterion_check i issue_key = Inr check"
      "read_each (\<lambda>(key, issue). map_error SpecRefused (criterion_check issue issue_key)) xs = Inr rest"
      "checks = ((k, i), check) # rest"
    using Cons.prems x by (auto simp: bind_sum_Inr map_error_Inr)
  obtain rest' where "read_each (\<lambda>(key, issue). map_error SpecRefused (criterion_check issue issue_key)) ys
      = Inr rest'" "map (\<lambda>((key, _), check). (key, check)) rest' = map (\<lambda>((key, _), check). (key, check)) rest"
    using Cons.IH [OF c(2)] by blast
  moreover have "criterion_check j issue_key = Inr check" "k = l"
    using Cons.hyps(1) c(1) x y by (auto intro: check_reads_the_field)
  ultimately show ?case using c(3) x y by (auto simp: bind_sum_Inr map_error_Inr)
qed simp

lemma list_all2_filtered:
  assumes "list_all2 R xs ys" and "\<And>x y. x \<in> set xs \<Longrightarrow> y \<in> set ys \<Longrightarrow> R x y \<Longrightarrow> P x \<longleftrightarrow> Q y"
  shows "list_all2 R (filter P xs) (filter Q ys)"
  using assms by (induction rule: list_all2_induct) auto

lemma sorted_items_get: "wf_dict d \<Longrightarrow> (k, v) \<in> set (sorted_items d) \<Longrightarrow> map_of d k = Some v"
  by (simp add: sorted_items_def)

lemma sorted_items_aligned:
  assumes "wf_dict d" and "wf_dict e" and "set (dict_keys e) = set (dict_keys d)"
  shows "list_all2 (\<lambda>(k, i) (l, j). k = l \<and> map_of d k = Some i \<and> map_of e k = Some j)
    (sorted_items d) (sorted_items e)"
proof -
  let ?d = "sorted_items d" and ?e = "sorted_items e"
  have keys: "map fst ?e = map fst ?d" using assms by (simp add: sorted_items_keys)
  then have len: "length ?e = length ?d" by (metis length_map)
  have "(\<lambda>(k, i) (l, j). k = l \<and> map_of d k = Some i \<and> map_of e k = Some j) (?d ! n) (?e ! n)"
    if "n < length ?d" for n
  proof -
    have same: "fst (?e ! n) = fst (?d ! n)" using keys that len by (metis nth_map)
    have "map_of d (fst (?d ! n)) = Some (snd (?d ! n))"
      using sorted_items_get [OF assms(1)] that by (metis nth_mem prod.collapse)
    moreover have "map_of e (fst (?e ! n)) = Some (snd (?e ! n))"
      using sorted_items_get [OF assms(2)] that len by (metis nth_mem prod.collapse)
    ultimately show ?thesis using same by (simp add: case_prod_unfold)
  qed
  then show ?thesis using len by (simp add: list_all2_conv_all_nth)
qed

lemma owed_again:
  assumes "wf_dict before" and "wf_dict after" and "owed issue_key before [] = Inr roster"
    and "crossed_off_since roster before after"
  shows "owed issue_key after (held_keys_of (Some roster)) = Inr roster"
proof -
  let ?held = "held_keys_of (Some roster)"
  let ?R = "\<lambda>(k, i) (l, j). k = l \<and> map_of before k = Some i \<and> map_of after k = Some j"
  have ids: "?held = map fst (filter (owes []) (sorted_items before))"
    using checked_set_ok assms(3) by (simp add: held_keys_of_def owed_def)
  have unstarted: "k \<in> set ?held \<longleftrightarrow> ti_state_kind i = OWED_CRITERION_STATE" if "map_of before k = Some i" for k i
  proof -
    have "k \<in> set ?held \<longleftrightarrow> (\<exists>v. (k, v) \<in> set before \<and> owes [] (k, v))"
      unfolding ids by (force simp: sorted_items_def)
    also have "\<dots> \<longleftrightarrow> owes [] (k, i)"
      using that assms(1) by (metis map_of_SomeD map_of_is_SomeI option.inject)
    finally show ?thesis by (simp add: owes_def)
  qed
  have aligned: "list_all2 ?R (sorted_items before) (sorted_items after)"
    using assms by (intro sorted_items_aligned) (simp_all add: crossed_off_since_def)
  have agree: "owes [] x \<longleftrightarrow> owes ?held y" if related: "?R x y" for x y
  proof -
    obtain k i j where k: "x = (k, i)" "y = (k, j)" "map_of before k = Some i" "map_of after k = Some j"
      using related by (cases x; cases y) auto
    then have "ti_state_kind j = ti_state_kind i \<or>
        k \<in> set ?held \<and> ti_state_kind j \<in> {OWED_CRITERION_STATE, HELD_CRITERION_STATE}"
      using assms(4) unfolding crossed_off_since_def by blast
    then show ?thesis
      using unstarted [OF k(3)] k(1,2)
      by (auto simp: owes_def OWED_CRITERION_STATE_def HELD_CRITERION_STATE_def)
  qed
  have "list_all2 ?R (filter (owes []) (sorted_items before)) (filter (owes ?held) (sorted_items after))"
    using aligned by (rule list_all2_filtered) (rule agree)
  then have same: "list_all2 (\<lambda>(k, i) (l, j). k = l \<and>
      criterion_field_bodies (ti_body j) CheckField = criterion_field_bodies (ti_body i) CheckField)
      (filter (owes []) (sorted_items before)) (filter (owes ?held) (sorted_items after))"
    by (rule list_all2_mono) (use assms(4) in \<open>auto simp: crossed_off_since_def\<close>)
  obtain checks where c:
      "read_each (\<lambda>(key, issue). map_error SpecRefused (criterion_check issue issue_key))
         (filter (owes []) (sorted_items before)) = Inr checks" "checks \<noteq> []"
      "map_error SetInvalid (criterion_set (map (\<lambda>((key, _), check). (key, check)) checks)) = Inr roster"
    using assms(3) unfolding owed_def checked_set_def bind_sum_Inr by (auto split: if_split_asm)
  obtain checks' where c':
      "read_each (\<lambda>(key, issue). map_error SpecRefused (criterion_check issue issue_key))
         (filter (owes ?held) (sorted_items after)) = Inr checks'"
      "map (\<lambda>((key, _), check). (key, check)) checks' = map (\<lambda>((key, _), check). (key, check)) checks"
    using same_checks [OF same c(1)] by blast
  have "checks' \<noteq> []" using c(2) c'(2) by auto
  then show ?thesis using c(3) c' by (simp add: owed_def checked_set_def)
qed

lemma require_named_ok: "set names \<subseteq> set (dict_keys criteria) \<Longrightarrow> require_named subject names criteria = Inr ()"
  by (induction names) auto

lemma spec_names_the_subtree:
  "tracker_spec_from_issues isoformat subject criteria = Inr spec \<Longrightarrow>
     tk_subject spec = ti_issue_key subject \<and>
     tk_criteria spec = map ti_issue_key (filter (\<lambda>c. \<not> is_non_counting (ti_state_kind c)) criteria)"
  by (auto simp: tracker_spec_from_issues_def made_spec_def Let_def bind_sum_Inr split: if_splits)

definition keyed :: "(string, tracker_issue) pydict \<Rightarrow> bool" where
  "keyed members \<longleftrightarrow> (\<forall>k i. (k, i) \<in> set members \<longrightarrow> ti_issue_key i = k)"

lemma keyed_update: "keyed members \<Longrightarrow> keyed (AList.update (ti_issue_key i) i members)"
  unfolding keyed_def by (induction members) (auto split: if_splits)

lemma keyed_add_criteria:
  "add_criteria parent seen members criteria = Inr result \<Longrightarrow> keyed members \<Longrightarrow> keyed result"
proof (induction criteria arbitrary: seen members)
  case (Cons criterion criteria)
  then have "add_criteria parent (ti_issue_key criterion # seen)
      (AList.update (ti_issue_key criterion) criterion members) criteria = Inr result"
    by (simp add: Let_def split: if_split_asm)
  then show ?case by (rule Cons.IH) (rule keyed_update [OF Cons.prems(2)])
qed simp

lemma keyed_criterion_members:
  "criterion_members read members issues = Inr result \<Longrightarrow> keyed members \<Longrightarrow> keyed result"
  by (induction issues arbitrary: members) (auto simp: bind_sum_Inr dest: keyed_add_criteria)

lemma keyed_scoped_members:
  "scoped_members members issues = Inr result \<Longrightarrow> keyed members \<Longrightarrow> keyed result"
  by (induction issues arbitrary: members) (auto simp: keyed_update split: if_splits)

lemma keyed_subtree:
  assumes "read_subtree_criteria reads subject = Inr criteria"
  shows "keyed criteria"
proof -
  obtain issues scoped members where "scoped_members [] issues = Inr scoped"
      "criterion_members (sj_criteria reads) scoped issues = Inr members"
      "criteria = subtree_criteria members"
    using assms by (auto simp: read_subtree_criteria_def read_scope_members_def bind_sum_Inr)
  moreover have "keyed []" by (simp add: keyed_def)
  ultimately have "keyed members" "criteria = subtree_criteria members"
    using keyed_scoped_members keyed_criterion_members by fastforce+
  then show ?thesis by (simp add: keyed_def subtree_criteria_def)
qed

lemma capture_ok:
  assumes "capture isoformat reads issue_key = Inr (spec, criteria)"
  shows "read_subtree_criteria reads (tk_subject spec) = Inr criteria \<and>
    set (tk_criteria spec) \<subseteq> set (dict_keys criteria)"
proof -
  obtain subject where s: "read_subtree_criteria reads (ti_issue_key subject) = Inr criteria"
      "tracker_spec_from_issues isoformat subject (map snd (sorted_items criteria)) = Inr spec"
    using assms
    by (auto simp: capture_def bind_sum_Inr map_error_Inr split: sum.splits criteria_read_error.splits)
  have "ti_issue_key i \<in> set (dict_keys criteria)" if "(k, i) \<in> set criteria" for k i
    using that keyed_subtree [OF s(1)] by (force simp: keyed_def)
  then show ?thesis using s(1) spec_names_the_subtree [OF s(2)] by (auto simp: sorted_items_def)
qed

text \<open>Claim C38. A fire's own work never changes what it is judged against: let a fire enter on a
  subtree and a later barrier read that subtree again, holding the same criteria with the same Checks,
  where nothing moved except that criteria of the fire's own roster were crossed off. Then the barrier
  succeeds and reads exactly the roster the fire entered with, and that roster is exactly the criteria
  that were unstarted at the entry, in key order.\<close>

theorem own_work_keeps_the_roster:
  assumes "read_entry isoformat reads issue_key False = Inr (spec, roster)"
    and "read_subtree_criteria reads (tk_subject spec) = Inr before"
    and "read_subtree_criteria later (tk_subject spec) = Inr after"
    and "crossed_off_since roster before after"
  shows "read_current later spec (Some roster) = Inr roster \<and>
    map tc_id (ts_criteria roster) =
      map fst (filter (\<lambda>(_, issue). ti_state_kind issue = UnstartedState) (sorted_items before))"
proof -
  obtain criteria where c: "capture isoformat reads issue_key = Inr (spec, criteria)"
      "owed (tk_subject spec) criteria [] = Inr roster"
    using assms(1) by (auto simp: read_entry_def bind_sum_Inr)
  have before: "criteria = before" using capture_ok [OF c(1)] assms(2) by simp
  have "owed (tk_subject spec) after (held_keys_of (Some roster)) = Inr roster"
    using owed_again [OF wf_subtree [OF assms(2)] wf_subtree [OF assms(3)]] c(2) assms(4) before by simp
  moreover have "require_named (tk_subject spec) (tk_criteria spec) after = Inr ()"
    using capture_ok [OF c(1)] assms(4) before
    by (intro require_named_ok) (simp add: crossed_off_since_def)
  moreover have "map tc_id (ts_criteria roster) = map fst (filter (owes []) (sorted_items before))"
    using checked_set_ok c(2) before by (simp add: owed_def)
  moreover have "owes [] = (\<lambda>(_, issue). ti_state_kind issue = UnstartedState)"
    by (auto simp: fun_eq_iff owes_def OWED_CRITERION_STATE_def)
  ultimately show ?thesis using assms(3) by (simp add: read_current_def owed_from_def)
qed

definition sample_tree_issue :: "string \<Rightarrow> workflow_state_kind \<Rightarrow> string list \<Rightarrow> tracker_issue" where
  "sample_tree_issue key kind labels =
     (sample_board_issue key kind [] (if labels = [] then None else Some ''S''))
       \<lparr>ti_body := ''**Check:** '' @ key, ti_issue_labels := labels\<rparr>"

definition sample_tree :: "workflow_state_kind \<Rightarrow> subject_reads" where
  "sample_tree kind =
     \<lparr>sj_subject = (\<lambda>_. Inr (sample_tree_issue ''S'' StartedState [])),
      sj_scope = (\<lambda>_. Inr [sample_tree_issue ''S'' StartedState []]),
      sj_criteria = (\<lambda>_. Inr [sample_tree_issue ''B'' CanceledState [''criterion''],
                             sample_tree_issue ''A'' kind [''criterion'']])\<rparr>"

definition sample_tracker_spec :: tracker_spec where
  "sample_tracker_spec =
     \<lparr>tk_subject = ''S'', tk_body = ''**Check:** S'', tk_criteria = [''A''], tk_read_at_version = ''v''\<rparr>"

definition sample_roster :: tracker_criterion_set where
  "sample_roster = \<lparr>ts_criteria = [\<lparr>tc_id = ''A'', tc_text = ''A''\<rparr>]\<rparr>"

definition sample_subtree :: "workflow_state_kind \<Rightarrow> (string, tracker_issue) pydict" where
  "sample_subtree kind =
     [(''B'', sample_tree_issue ''B'' CanceledState [''criterion'']),
      (''A'', sample_tree_issue ''A'' kind [''criterion''])]"

lemma sample_fire_entry:
  "read_entry (\<lambda>_. ''v'') (sample_tree UnstartedState) ''S'' False = Inr (sample_tracker_spec, sample_roster)"
  by code_simp

lemma sample_subtree_reads:
  "read_subtree_criteria (sample_tree UnstartedState) (tk_subject sample_tracker_spec) =
     Inr (sample_subtree UnstartedState)"
  "read_subtree_criteria (sample_tree CompletedState) (tk_subject sample_tracker_spec) =
     Inr (sample_subtree CompletedState)"
  by code_simp+

lemma sample_crossed_off:
  "crossed_off_since sample_roster (sample_subtree UnstartedState) (sample_subtree CompletedState)"
  by (auto simp: crossed_off_since_def sample_subtree_def sample_roster_def held_keys_of_def
      sample_tree_issue_def sample_board_issue_def HELD_CRITERION_STATE_def split: if_splits)

theorem own_work_keeps_the_roster_witness:
  "read_current (sample_tree CompletedState) sample_tracker_spec (Some sample_roster) = Inr sample_roster"
  using own_work_keeps_the_roster [OF sample_fire_entry sample_subtree_reads sample_crossed_off] by (rule conjunct1)

end
