(* ===== verification/FireGraph.thy ===== *)
theory FireGraph
  imports FireCriteria RalphLoop Feasibility
begin

section \<open>The fire graph: its state and its nodes\<close>

text \<open>
  \<^verbatim>\<open>chains/ralph_workflow.py\<close> with the phases it composes: \<^verbatim>\<open>chains/fire_specification.py\<close>,
  \<^verbatim>\<open>chains/fire_implementation.py\<close>, \<^verbatim>\<open>chains/fire_consolidation.py\<close>,
  \<^verbatim>\<open>chains/fire_review.py\<close>, \<^verbatim>\<open>chains/fire_remediation.py\<close>,
  \<^verbatim>\<open>chains/scope_stages.py\<close>, \<^verbatim>\<open>chains/fire_time_ruling.py\<close>, the node of
  \<^verbatim>\<open>chains/criteria.py\<close>, \<^verbatim>\<open>services/gained_commits.py\<close> and
  \<^verbatim>\<open>types/domain/workflow.py\<close>. A node takes the state and the answers of the visit it is on
  (sessions, tracker, git, merger, drawn ids) and gives the state it leaves or the exception it raises,
  and, in order, what it emitted or did. A node the graph retries starts over on the same state: the
  answers are those of the attempt that counted. What a session is prompted with beyond the task, its
  permission mode and its tools are not modelled.
\<close>

subsection \<open>State and context\<close>

datatype remediation_entry = CiFailure | ReviewFailure | LoopNotAccepted

datatype remediation_ticket = DraftedTicket ticket_draft | RemediationPlan string

datatype criterion_source = Artifact criteria_artifact | TrackerSet tracker_criterion_set

record fire_state = workflow_state +
  fs_issue_key :: "string option"
  fs_lane_entry :: "lane_entry option"
  fs_feature_branch :: string
  fs_ralph_branch :: string
  fs_work_base_ref :: string
  fs_fire_spec :: "fire_spec option"
  fs_acceptance_criteria :: "generated_criterion list"
  fs_criterion_set :: "criterion_source option"
  fs_criteria_validation :: "criteria_validation option"
  fs_regeneration_rounds :: nat
  fs_flagged_items :: "flagged_item list"
  fs_total_iterations :: nat
  fs_feature_tip_sha :: "sha option"
  fs_review_base_sha :: "sha option"
  fs_review_head_sha :: "sha option"
  fs_review_feedback :: "string option"
  fs_remediation_ticket :: "remediation_ticket option"
  fs_remediation_entry :: "remediation_entry option"
  fs_best_iteration_branch :: "string option"
  fs_repo_url :: "string option"
  fs_repo_visibility :: repo_visibility

record exec_ctx =
  xc_prompt :: string
  xc_repo_path :: "string option"
  xc_repo_url :: "string option"
  xc_surface_holder :: "string option"
  xc_base_spec :: base_spec
  xc_scope :: "string option"

record repo_entry =
  rp_url :: string
  rp_trunk :: string

record fire_wiring =
  fw_persists :: bool
  fw_has_remediator :: bool
  fw_max_remediation :: int
  fw_max_regeneration :: int
  fw_fan_in_attempts :: int
  fw_has_reader :: bool
  fw_has_rulings :: bool
  fw_has_publisher :: bool
  fw_has_visibility :: bool
  fw_repositories :: "repo_entry list"

datatype fire_exn =
  RuntimeFault string
| ValueFault string
| TypeFault string
| NativeRefused string
| CriteriaFault criteria_read_error
| EntryFault entry_error
| SweepFault sweep_error
| CriterionFault criteria_error
| GradingFault grading_error
| FanInFault criteria_fan_in_error
| SpecFault spec_error
| AmendmentRefused amendment_event "iteration_event option"
| ScopeUnavailable string
| StaleBase string string "string list"
| OutsideFault string

datatype consolidation_status = AlreadyIntegrated | FastForwarded | Divergent | SourceMissing

record consolidation_outcome =
  oc_status :: consolidation_status
  oc_feature_tip_sha :: sha

record loop_call =
  lp_prompt :: string
  lp_feature_branch :: string
  lp_ralph_branch :: string
  lp_work_base_ref :: string
  lp_resumed_head_sha :: "sha option"
  lp_base_stale :: bool
  lp_criteria :: "execution_criterion list"
  lp_tracker_spec :: "tracker_spec option"

datatype loop_event = LoopOther | LoopAmendment amendment_event | LoopIteration iteration_event

record remediation_request =
  rq_entry :: remediation_entry
  rq_round_index :: int
  rq_original_spec :: fire_spec
  rq_work_branch :: string
  rq_work_base_ref :: string
  rq_total_iterations :: nat
  rq_trajectory :: "loop_trajectory option"
  rq_criteria :: "execution_criterion list"
  rq_failure_evidence :: string

record scope_item =
  si_key :: string
  si_criterion :: bool
  si_text :: string
  si_done :: bool

record scope_items =
  sc_items :: "scope_item list"
  sc_reason :: string

record workflow_complete =
  wc_feature_branch :: string
  wc_ralph_branch :: string
  wc_total_iterations :: nat
  wc_accepted :: bool
  wc_outcome :: workflow_outcome
  wc_merged :: bool
  wc_final_commit_sha :: "sha option"
  wc_merge_error :: "string option"
  wc_trajectory :: "loop_trajectory option"
  wc_criteria_validation :: "criteria_validation option"

datatype fire_act =
  VisibilityResolved repo_visibility
| ScopeBaseStated base_spec
| TicketDrafted ticket_draft
| CriteriaDrafted "generated_criterion list"
| CriteriaSwept nat criteria_validation "criterion_id list" "contract_correction option"
| ArtifactsWritten string string
| LoopRun loop_call
| Consolidated consolidation_status string string sha
| BestPublished sha string
| Reviewed bool "criterion_result list" int "fan_in_report option"
| RoundDrafted remediation_request
| BoardSession string
| Completed workflow_complete
| BackupsCleaned string "string option"

datatype ruling_answer = Ruled | Unrecorded | RulingFailed fire_exn

type_synonym 'a doing = "(fire_exn + 'a) \<times> fire_act list"

definition asks :: "fire_exn + 'a \<Rightarrow> 'a doing" where
  "asks r = (r, [])"

definition does :: "fire_exn + 'a \<Rightarrow> fire_act list \<Rightarrow> 'a doing" where
  "does r emitted = (r, case r of Inl _ \<Rightarrow> [] | Inr _ \<Rightarrow> emitted)"

text \<open>What answers one visit.\<close>

record fire_answers =
  fa_visibility :: "string \<Rightarrow> fire_exn + repo_visibility"
  fa_slug :: "string \<Rightarrow> fire_exn + string"
  fa_feature_id :: string
  fa_loop_id :: string
  fa_ticket :: "fire_exn + ticket_draft option"
  fa_criteria :: "string \<Rightarrow> string option \<Rightarrow> fire_exn + drafted_criterion list"
  fa_validate :: "(criteria_validation_output, sweep_error, fire_exn) dispatcher"
  fa_breach_text :: "sweep_error \<Rightarrow> string"
  fa_persist :: "fire_exn + unit"
  fa_sha256 :: "string \<Rightarrow> string"
  fa_entry :: "bool \<Rightarrow> criteria_read_error + tracker_spec \<times> tracker_criterion_set"
  fa_current :: "tracker_spec \<Rightarrow> tracker_criterion_set option
                   \<Rightarrow> criteria_read_error + tracker_criterion_set"
  fa_ruling :: ruling_answer
  fa_loop :: "loop_call \<Rightarrow> loop_event list \<times> fire_exn option"
  fa_clone :: "string \<Rightarrow> fire_exn + unit"
  fa_clone_head :: "string \<Rightarrow> string \<Rightarrow> fire_exn + sha option"
  fa_diff_count :: "string \<Rightarrow> string \<Rightarrow> fire_exn + nat"
  fa_consolidate :: "string option \<Rightarrow> string \<Rightarrow> string \<Rightarrow> string \<Rightarrow> fire_exn + consolidation_outcome"
  fa_remote_sha :: "string \<Rightarrow> fire_exn + sha option"
  fa_changeset :: "fire_exn + unit"
  fa_review_current :: "nat \<Rightarrow> tracker_spec \<Rightarrow> tracker_criterion_set option
                          \<Rightarrow> criteria_read_error + tracker_criterion_set"
  fa_review :: "nat \<Rightarrow> execution_criterion list \<Rightarrow> fire_exn + acceptance_criteria_output"
  fa_publish :: "fire_exn + unit"
  fa_remediate :: "remediation_request \<Rightarrow> fire_exn + remediation_ticket option"
  fa_board_session :: "string \<Rightarrow> fire_exn + unit"
  fa_scope_items :: "fire_exn + scope_items option"
  fa_cleanup :: "string option \<Rightarrow> fire_exn + unit"

subsection \<open>Readers of the state\<close>

definition recorded_native_roster ::
  "criterion_source option \<Rightarrow> fire_exn + tracker_criterion_set option" where
  "recorded_native_roster source =
     (case source of
        None \<Rightarrow> Inr None
      | Some (TrackerSet roster) \<Rightarrow> Inr (Some roster)
      | Some (Artifact _) \<Rightarrow> Inl (CriteriaFault PersistedCriterionSet))"

definition validated_artifact :: "fire_state \<Rightarrow> fire_exn + criteria_artifact" where
  "validated_artifact st =
     (case fs_criterion_set st of
        Some (Artifact artifact) \<Rightarrow> Inr artifact
      | _ \<Rightarrow> Inl (RuntimeFault ''An authored artifact requires a completed criteria sweep''))"

fun source_criteria :: "criterion_source \<Rightarrow> execution_criterion list" where
  "source_criteria (Artifact artifact) = map Validated (ca_criteria artifact)"
| "source_criteria (TrackerSet roster) = map Tracker (ts_criteria roster)"

definition validated_criteria :: "criterion_source option \<Rightarrow> fire_exn + execution_criterion list" where
  "validated_criteria source =
     (case source of
        None \<Rightarrow> Inl (RuntimeFault ''Criteria are read after the entry barrier'')
      | Some s \<Rightarrow> Inr (source_criteria s))"

definition original_fire_spec :: "fire_state \<Rightarrow> fire_exn + fire_spec" where
  "original_fire_spec st =
     (case fs_fire_spec st of
        None \<Rightarrow> Inl (RuntimeFault ''The fire spec is read after its entry stage'')
      | Some spec \<Rightarrow> Inr spec)"

definition current_fire_spec :: "fire_state \<Rightarrow> fire_exn + fire_spec" where
  "current_fire_spec st =
     bind_sum (original_fire_spec st) (\<lambda>spec.
     case (spec, fs_remediation_ticket st) of
       (AuthoredSpec _, Some (DraftedTicket ticket)) \<Rightarrow> Inr (AuthoredSpec ticket)
     | (AuthoredSpec _, Some (RemediationPlan _)) \<Rightarrow>
         Inl (RuntimeFault ''An authored remediation requires an authored ticket'')
     | _ \<Rightarrow> Inr spec)"

definition current_ticket :: "fire_state \<Rightarrow> fire_exn + ticket_draft" where
  "current_ticket st =
     bind_sum (current_fire_spec st) (\<lambda>spec.
     case spec of
       AuthoredSpec ticket \<Rightarrow> Inr ticket
     | TrackerSpec _ \<Rightarrow> Inl (RuntimeFault ''An authored ticket is unavailable on the tracker arm''))"

definition native_criteria ::
  "fire_wiring \<Rightarrow> (tracker_spec \<Rightarrow> tracker_criterion_set option \<Rightarrow> criteria_read_error + tracker_criterion_set)
     \<Rightarrow> tracker_spec \<Rightarrow> criterion_source option \<Rightarrow> fire_exn + tracker_criterion_set" where
  "native_criteria w current spec source =
     bind_sum (recorded_native_roster source) (\<lambda>roster.
     if \<not> fw_has_reader w
     then Inl (CriteriaFault (SpecRefused (FireSpecEntry (tk_subject spec)
            ''the current tracker criteria reader is not configured'')))
     else map_error CriteriaFault (current spec roster))"

definition scope_repositories :: "string option \<Rightarrow> repo_entry list \<Rightarrow> repo_entry list" where
  "scope_repositories scope declared = (if scope = None then [] else declared)"

definition resolve_workflow_cwd :: "exec_ctx \<Rightarrow> fire_answers \<Rightarrow> fire_exn + unit" where
  "resolve_workflow_cwd ctx a =
     (if xc_repo_path ctx \<noteq> None then Inr ()
      else case xc_repo_url ctx of
             None \<Rightarrow> Inl (RuntimeFault ''Neither repo_path nor repo_url set on ExecutionContext'')
           | Some url \<Rightarrow> fa_clone a url)"

text \<open>The repositories whose clone holds commits on a branch beyond its trunk.\<close>

fun gained_commits :: "fire_answers \<Rightarrow> string \<Rightarrow> repo_entry list \<Rightarrow> fire_exn + repo_entry list" where
  "gained_commits a branch [] = Inr []"
| "gained_commits a branch (repository # repositories) =
     bind_sum (fa_clone a (rp_url repository)) (\<lambda>_.
     bind_sum (fa_clone_head a (rp_url repository) branch) (\<lambda>head_sha.
     bind_sum (if head_sha = None then Inr False
               else bind_sum (fa_diff_count a (rp_url repository) branch) (\<lambda>n. Inr (0 < n))) (\<lambda>gained.
     bind_sum (gained_commits a branch repositories) (\<lambda>rest.
     Inr (if gained then repository # rest else rest)))))"

subsection \<open>Authoring the subject and its criteria\<close>

fun each_visibility ::
  "(string \<Rightarrow> fire_exn + repo_visibility) \<Rightarrow> string list \<Rightarrow> fire_exn + repo_visibility list" where
  "each_visibility read [] = Inr []"
| "each_visibility read (url # urls) =
     bind_sum (read url) (\<lambda>v. bind_sum (each_visibility read urls) (\<lambda>vs. Inr (v # vs)))"

definition resolved_visibility :: "fire_wiring \<Rightarrow> exec_ctx \<Rightarrow> fire_answers \<Rightarrow> fire_exn + repo_visibility" where
  "resolved_visibility w ctx a =
     (case (fw_has_visibility w, xc_repo_url ctx) of
        (True, Some repo_url) \<Rightarrow>
          let declared = map rp_url (scope_repositories (xc_scope ctx) (fw_repositories w));
              urls = (if declared = [] then [repo_url] else declared) in
          bind_sum (each_visibility (fa_visibility a) urls) (\<lambda>resolved.
          Inr (case find (\<lambda>seen. seen \<noteq> Private) resolved of None \<Rightarrow> Private | Some seen \<Rightarrow> seen))
      | _ \<Rightarrow> Inr UnknownVisibility)"

definition resolve_visibility :: "fire_wiring \<Rightarrow> exec_ctx \<Rightarrow> fire_answers \<Rightarrow> fire_state \<Rightarrow> fire_state doing" where
  "resolve_visibility w ctx a st =
     then_do (asks (resolved_visibility w ctx a)) (\<lambda>visibility.
     does (Inr (st\<lparr>fs_repo_visibility := visibility\<rparr>))
       [VisibilityResolved visibility, ScopeBaseStated (xc_base_spec ctx)])"

definition generate_branch :: "exec_ctx \<Rightarrow> fire_answers \<Rightarrow> fire_state \<Rightarrow> fire_state doing" where
  "generate_branch ctx a st =
     then_do (asks (fa_slug a (xc_prompt ctx))) (\<lambda>slug.
     let feature_branch = ''kodezart/'' @ slug @ ''-'' @ fa_feature_id a in
     does (Inr (st\<lparr>fs_feature_branch := feature_branch,
                   fs_ralph_branch := generate_ralph_branch_name feature_branch (fa_loop_id a)\<rparr>)) [])"

definition generate_ticket :: "fire_answers \<Rightarrow> fire_state \<Rightarrow> fire_state doing" where
  "generate_ticket a st =
     then_do (asks (fa_ticket a)) (\<lambda>answer.
     case answer of
       None \<Rightarrow> asks (Inl (RuntimeFault ''Ticket generator did not emit a WorkflowTicketEvent.''))
     | Some ticket \<Rightarrow> does (Inr (st\<lparr>fs_fire_spec := Some (AuthoredSpec ticket)\<rparr>)) [TicketDrafted ticket])"

definition or_none :: "string option \<Rightarrow> string" where
  "or_none v = (case v of None \<Rightarrow> ''None'' | Some x \<Rightarrow> x)"

definition render_validation_findings ::
  "generated_criterion list \<Rightarrow> criteria_validation option \<Rightarrow> string option" where
  "render_validation_findings criteria validation =
     (case validation of
        None \<Rightarrow> None
      | Some v \<Rightarrow>
          let texts = dict_of gc_id gc_text criteria;
              lines =
                map (\<lambda>verdict. fs_criterion_id verdict @ '' infeasible: '' @
                      (case map_of texts (fs_criterion_id verdict) of None \<Rightarrow> [] | Some t \<Rightarrow> t) @ newline @
                      ''  refutation: '' @ or_none (fs_refutation verdict))
                  (filter (\<lambda>verdict. fs_verdict verdict = Infeasible) (va_verdicts v)) @
                map (\<lambda>c. ''conjunction unsatisfiable over '' @ join '', '' (co_criterion_ids c) @ '': '' @
                      co_explanation c)
                  (cj_contradictions (va_conjunction v)) in
          if lines = [] then None else Some (join newline lines))"

definition generate_criteria :: "exec_ctx \<Rightarrow> fire_answers \<Rightarrow> fire_state \<Rightarrow> fire_state doing" where
  "generate_criteria ctx a st =
     then_do (asks (current_fire_spec st)) (\<lambda>spec.
     then_do (asks (fa_criteria a (format_fire_spec spec)
         (render_validation_findings (fs_acceptance_criteria st) (fs_criteria_validation st)))) (\<lambda>drafted.
     then_do (asks (map_error CriterionFault (mint_criteria drafted))) (\<lambda>criteria.
     does (Inr (st\<lparr>fs_acceptance_criteria := criteria\<rparr>)) [CriteriaDrafted criteria])))"

fun breach_class :: "sweep_error \<Rightarrow> string" where
  "breach_class (FanInBreach _) = ''CriteriaFanInError''"
| "breach_class (UngroundedVerdict _) = ''UngroundedVerdictError''"
| "breach_class SweepInvalid = ''ValidationError''"

definition sweep_check ::
  "generated_criterion list \<Rightarrow> criteria_validation_output \<Rightarrow> (sweep_error, fire_exn) checked" where
  "sweep_check criteria candidate =
     (case sweep criteria candidate of Inl e \<Rightarrow> RefusedOutput e | Inr _ \<Rightarrow> Conforms)"

definition validated_dispatch ::
  "(criteria_validation_output, sweep_error, fire_exn) dispatcher
     \<Rightarrow> (criteria_validation_output, sweep_error, fire_exn) dispatcher" where
  "validated_dispatch dispatch attempt breach =
     (case dispatch attempt breach of
        Produced output \<Rightarrow> if valid_validation_output output then Produced output
                           else RefusedDispatch SweepInvalid
      | refused \<Rightarrow> refused)"

definition swept ::
  "fire_wiring \<Rightarrow> fire_answers \<Rightarrow> generated_criterion list
     \<Rightarrow> fire_exn + criteria_validation \<times> contract_correction option" where
  "swept w a criteria =
     (case snd (until_conforming (validated_dispatch (fa_validate a)) (sweep_check criteria) (fw_fan_in_attempts w)) of
        Escaped e \<Rightarrow> Inl e
      | RaisedBreach e \<Rightarrow> Inl (SweepFault e)
      | Returned r \<Rightarrow>
          (case rd_unresolved r of
             Some e \<Rightarrow> Inl (SweepFault e)
           | None \<Rightarrow>
               bind_sum (map_error SweepFault (sweep criteria (rd_output r))) (\<lambda>validation.
               bind_sum (map_error CriterionFault (correction_report breach_class (fa_breach_text a) r))
                 (\<lambda>correction. Inr (validation, correction)))))"

definition validate_criteria :: "fire_wiring \<Rightarrow> fire_answers \<Rightarrow> fire_state \<Rightarrow> fire_state doing" where
  "validate_criteria w a st =
     then_do (asks (current_fire_spec st)) (\<lambda>_.
     let criteria = fs_acceptance_criteria st in
     then_do (asks (swept w a criteria)) (\<lambda>(validation, correction).
     let targets = regeneration_targets validation;
         rounds_used = fs_regeneration_rounds st;
         bound_exhausted = (targets \<noteq> [] \<and> int rounds_used \<ge> fw_max_regeneration w) in
     then_do (does (Inr ()) [CriteriaSwept rounds_used validation targets correction]) (\<lambda>_.
     then_do (asks (map_error CriterionFault (build_artifact criteria validation))) (\<lambda>artifact.
     asks (Inr (st\<lparr>fs_criteria_validation := Some validation,
                   fs_criterion_set := Some (Artifact artifact),
                   fs_regeneration_rounds :=
                     (if bound_exhausted \<or> targets = [] then rounds_used else Suc rounds_used),
                   ws_criteria_infeasible := bound_exhausted\<rparr>))))))"

definition persist_ticket :: "fire_wiring \<Rightarrow> fire_answers \<Rightarrow> fire_state \<Rightarrow> fire_state doing" where
  "persist_ticket w a st =
     then_do (asks (if fw_persists w then Inr ()
                    else Inl (RuntimeFault ''persist_ticket node requires artifact_persister''))) (\<lambda>_.
     then_do (asks (current_ticket st)) (\<lambda>_.
     then_do (asks (fa_persist a)) (\<lambda>_.
     does (Inr st) [ArtifactsWritten (fs_ralph_branch st) (fs_work_base_ref st)])))"

definition persist_artifacts :: "fire_wiring \<Rightarrow> fire_answers \<Rightarrow> fire_state \<Rightarrow> fire_state doing" where
  "persist_artifacts w a st =
     then_do (asks (if fw_persists w then Inr ()
                    else Inl (RuntimeFault ''persist_ticket node requires artifact_persister''))) (\<lambda>_.
     then_do (asks (current_ticket st)) (\<lambda>_.
     then_do (asks (validated_artifact st)) (\<lambda>_.
     then_do (asks (fa_persist a)) (\<lambda>_.
     does (Inr st) [ArtifactsWritten (fs_ralph_branch st) (fs_work_base_ref st)]))))"

subsection \<open>The entry of a native fire\<close>

fun delivers :: "lane_entry option \<Rightarrow> bool" where
  "delivers (Some (DeliverOnlyLane _)) = True"
| "delivers _ = False"

definition entered_spec ::
  "fire_answers \<Rightarrow> fire_state \<Rightarrow> fire_exn + fire_spec \<times> tracker_criterion_set option" where
  "entered_spec a st =
     (case fs_fire_spec st of
        None \<Rightarrow> bind_sum (map_error CriteriaFault (fa_entry a (delivers (fs_lane_entry st))))
                  (\<lambda>(spec, roster). Inr (TrackerSpec spec, Some roster))
      | Some spec \<Rightarrow> Inr (spec, None))"

definition revalidate_criteria :: "fire_answers \<Rightarrow> fire_state \<Rightarrow> fire_state doing" where
  "revalidate_criteria a st =
     (case fs_issue_key st of
        None \<Rightarrow> asks (Inl (ValueFault ''A tracker-native fire carries its subject as issue_key''))
      | Some issue_key \<Rightarrow>
          then_do (asks (entered_spec a st)) (\<lambda>(spec, entry_set).
          case spec of
            AuthoredSpec _ \<Rightarrow>
              asks (Inl (ValueFault ''The native fire spec must match its addressed subject''))
          | TrackerSpec tracked \<Rightarrow>
              if tk_subject tracked \<noteq> issue_key
              then asks (Inl (ValueFault ''The native fire spec must match its addressed subject''))
              else
                then_do (asks (map_error EntryFault
                    (require_unamended_subject (fa_sha256 a) (fs_lane_entry st) (tk_body tracked)))) (\<lambda>_.
                case entry_set of
                  Some roster \<Rightarrow>
                    asks (Inr (st\<lparr>fs_fire_spec := Some spec, fs_criterion_set := Some (TrackerSet roster)\<rparr>))
                | None \<Rightarrow>
                    then_do (asks (recorded_native_roster (fs_criterion_set st))) (\<lambda>roster.
                    then_do (asks (map_error CriteriaFault (fa_current a tracked roster))) (\<lambda>now.
                    asks (Inr (st\<lparr>fs_fire_spec := Some spec,
                                  fs_criterion_set := Some (TrackerSet now)\<rparr>)))))))"

definition rule_open_questions :: "fire_wiring \<Rightarrow> fire_answers \<Rightarrow> fire_state \<Rightarrow> fire_state doing" where
  "rule_open_questions w a st =
     (if \<not> fw_has_rulings w
      then asks (Inl (NativeRefused ''Native execution requires the open-question phase''))
      else case (fs_fire_spec st, fs_criterion_set st) of
          (Some (TrackerSpec _), Some (TrackerSet _)) \<Rightarrow>
            (case fa_ruling a of
               Ruled \<Rightarrow> asks (Inr st)
             | Unrecorded \<Rightarrow> asks (Inr (st\<lparr>ws_ruling_unrecorded := Some True\<rparr>))
             | RulingFailed e \<Rightarrow> asks (Inl e))
        | (Some (TrackerSpec _), _) \<Rightarrow>
            asks (Inl (ValueFault ''The open-question step needs the current tracker Checks''))
        | _ \<Rightarrow> asks (Inl (ValueFault ''The open-question step runs only on a tracker subject'')))"

subsection \<open>The stages of a scope run\<close>

definition scope_of :: "exec_ctx \<Rightarrow> fire_exn + string" where
  "scope_of ctx =
     (case xc_scope ctx of
        None \<Rightarrow> Inl (ValueFault ''A scope node runs only on a run addressed at a scope'')
      | Some scope \<Rightarrow> Inr scope)"

definition items_of :: "fire_answers \<Rightarrow> fire_exn + scope_items" where
  "items_of a =
     bind_sum (fa_scope_items a) (\<lambda>answer.
     Inr (case answer of
            None \<Rightarrow> \<lparr>sc_items = [], sc_reason = ''The scope-done question went unanswered.''\<rparr>
          | Some items \<Rightarrow> items))"

definition board_session :: "exec_ctx \<Rightarrow> fire_answers \<Rightarrow> string \<Rightarrow> string doing" where
  "board_session ctx a phase =
     then_do (asks (scope_of ctx)) (\<lambda>scope.
     does (bind_sum (fa_board_session a phase) (\<lambda>_. Inr scope)) [BoardSession phase])"

definition groom :: "exec_ctx \<Rightarrow> fire_answers \<Rightarrow> fire_state \<Rightarrow> fire_state doing" where
  "groom ctx a st = then_do (board_session ctx a ''phase_ticket'') (\<lambda>_. asks (Inr st))"

definition prep :: "exec_ctx \<Rightarrow> fire_answers \<Rightarrow> fire_state \<Rightarrow> fire_state doing" where
  "prep ctx a st =
     then_do (board_session ctx a ''phase_criteria'') (\<lambda>scope.
     then_do (asks (items_of a)) (\<lambda>answer.
     let checks = dict_of si_key si_text (filter si_criterion (sc_items answer)) in
     if checks = [] then asks (Inr (st\<lparr>ws_criteria_infeasible := True\<rparr>))
     else
       then_do (asks (map_error CriterionFault (criterion_set checks))) (\<lambda>roster.
       then_do (asks (map_error SpecFault
           (tracker_spec_from_board scope (xc_prompt ctx) (map tc_id (ts_criteria roster))))) (\<lambda>spec.
       asks (Inr (st\<lparr>fs_fire_spec := Some (TrackerSpec spec),
                     fs_criterion_set := Some (TrackerSet roster)\<rparr>))))))"

definition scope_done :: "exec_ctx \<Rightarrow> fire_answers \<Rightarrow> fire_state \<Rightarrow> fire_state doing" where
  "scope_done ctx a st =
     then_do (asks (scope_of ctx)) (\<lambda>_.
     then_do (asks (items_of a)) (\<lambda>answer.
     if sc_items answer \<noteq> [] \<and> list_all si_done (sc_items answer)
     then asks (Inr (st\<lparr>ws_review_passed := True\<rparr>))
     else
       let still_open = join '', '' (map si_key (filter (\<lambda>i. \<not> si_done i) (sc_items answer))) in
       asks (Inr (st\<lparr>ws_review_passed := False,
                     fs_review_feedback := Some (''Open below the parent: '' @
                       (if still_open = [] then ''none'' else still_open) @ ''. '' @ sc_reason answer)\<rparr>))))"

subsection \<open>The implementation loop\<close>

record gate_reading =
  gr_last_iteration :: "iteration_event option"
  gr_last_amendment :: "amendment_event option"

fun read_gate :: "gate_reading \<Rightarrow> loop_event list \<Rightarrow> gate_reading" where
  "read_gate r [] = r"
| "read_gate r (LoopOther # es) = read_gate r es"
| "read_gate r (LoopAmendment event # es) = read_gate (r\<lparr>gr_last_amendment := Some event\<rparr>) es"
| "read_gate r (LoopIteration event # es) =
     read_gate (r\<lparr>gr_last_iteration := Some event, gr_last_amendment := None\<rparr>) es"

definition run_quality_gate :: "fire_answers \<Rightarrow> loop_call \<Rightarrow> iteration_event doing" where
  "run_quality_gate a call =
     (let (events, failure) = fa_loop a call;
          r = read_gate \<lparr>gr_last_iteration = None, gr_last_amendment = None\<rparr> events in
      then_do (does (Inr ()) [LoopRun call]) (\<lambda>_.
      then_do (asks (case failure of None \<Rightarrow> Inr () | Some e \<Rightarrow> Inl e)) (\<lambda>_.
      asks (case gr_last_amendment r of
          Some event \<Rightarrow>
            if upheld (ae_report event) \<noteq> [] then Inl (AmendmentRefused event (gr_last_iteration r))
            else (case gr_last_iteration r of
                    None \<Rightarrow> Inl (RuntimeFault ''Ralph loop completed without emitting an iteration event.'')
                  | Some iteration \<Rightarrow> Inr iteration)
        | None \<Rightarrow>
            (case gr_last_iteration r of
               None \<Rightarrow> Inl (RuntimeFault ''Ralph loop completed without emitting an iteration event.'')
             | Some iteration \<Rightarrow> Inr iteration)))))"

fun native_spec :: "string option \<Rightarrow> fire_spec \<Rightarrow> tracker_spec option" where
  "native_spec None (TrackerSpec spec) = Some spec"
| "native_spec _ _ = None"

definition task_md :: "fire_spec \<Rightarrow> remediation_ticket option \<Rightarrow> string" where
  "task_md spec remediation =
     format_fire_spec spec @
     (case remediation of
        Some (RemediationPlan instructions) \<Rightarrow> blank_line @ ''## Remediation'' @ newline @ instructions
      | _ \<Rightarrow> [])"

definition graded_snapshot :: "iteration_event \<Rightarrow> tracker_criterion_set" where
  "graded_snapshot event =
     \<lparr>ts_criteria = map (\<lambda>r. \<lparr>tc_id = rs_criterion_id r, tc_text = rs_criterion r\<rparr>)
        (ao_criteria_results (ie_evaluation event))\<rparr>"

definition loop_call_of :: "exec_ctx \<Rightarrow> fire_state \<Rightarrow> fire_spec \<Rightarrow> execution_criterion list \<Rightarrow> loop_call" where
  "loop_call_of ctx st spec criteria =
     (let entered = recorded_entry (fs_lane_entry st) in
      \<lparr>lp_prompt = task_md spec (fs_remediation_ticket st),
       lp_feature_branch = fs_feature_branch st, lp_ralph_branch = fs_ralph_branch st,
       lp_work_base_ref = fs_work_base_ref st,
       lp_resumed_head_sha = map_option ef_head_sha entered,
       lp_base_stale = (case entered of None \<Rightarrow> False | Some f \<Rightarrow> ef_base_stale f),
       lp_criteria = criteria, lp_tracker_spec = native_spec (xc_scope ctx) spec\<rparr>)"

definition run_ralph_loop ::
  "fire_wiring \<Rightarrow> exec_ctx \<Rightarrow> fire_answers \<Rightarrow> fire_state \<Rightarrow> fire_state doing" where
  "run_ralph_loop w ctx a st =
     then_do (asks (current_fire_spec st)) (\<lambda>spec.
     let native = native_spec (xc_scope ctx) spec in
     then_do (asks (case native of
         None \<Rightarrow> Inr (fs_criterion_set st)
       | Some tracked \<Rightarrow> bind_sum (native_criteria w (fa_current a) tracked (fs_criterion_set st))
                           (\<lambda>roster. Inr (Some (TrackerSet roster))))) (\<lambda>source.
     then_do (asks (validated_criteria source)) (\<lambda>criteria.
     then_do (run_quality_gate a (loop_call_of ctx st spec criteria)) (\<lambda>last_iteration.
     let source = (if native = None then source else Some (TrackerSet (graded_snapshot last_iteration)));
         graded = (if native = None then criteria
                   else map Tracker (ts_criteria (graded_snapshot last_iteration))) in
     then_do (asks (map_error GradingFault
         (flagged_items graded (ao_sherlock_flags (ie_evaluation last_iteration))))) (\<lambda>flagged.
     asks (Inr (st\<lparr>fs_criterion_set := source, ws_accept_verdict := ie_verdict last_iteration,
                   fs_flagged_items := flagged,
                   fs_total_iterations := fs_total_iterations st + ie_iteration last_iteration,
                   fs_feature_tip_sha := None,
                   ws_trajectory := Some (ie_trajectory last_iteration)\<rparr>)))))))"

subsection \<open>Consolidation\<close>

definition LEFT_RIGHT :: string where
  "LEFT_RIGHT = '' '' @ [CHR 0xE2, CHR 0x87, CHR 0x84] @ '' ''"

definition not_accepted :: "fire_state \<Rightarrow> fire_state" where
  "not_accepted st =
     (let cleared = st\<lparr>ws_merged := False, ws_merge_error := None, fs_feature_tip_sha := None,
                       fs_review_base_sha := None, fs_review_head_sha := None\<rparr> in
      case Option.bind (ws_trajectory st) landable_commit of
        None \<Rightarrow> cleared
      | Some best \<Rightarrow> cleared\<lparr>ws_best_iteration_sha := Some best,
                             fs_best_iteration_branch := Some (fs_ralph_branch st)\<rparr>)"

definition diverged :: "fire_state \<Rightarrow> string \<Rightarrow> sha \<Rightarrow> fire_state" where
  "diverged st message tip =
     st\<lparr>ws_merged := False, ws_merge_error := Some message, fs_feature_tip_sha := Some tip,
        fs_review_base_sha := None, fs_review_head_sha := None\<rparr>"

definition integrated :: "fire_state \<Rightarrow> sha \<Rightarrow> sha \<Rightarrow> fire_state" where
  "integrated st tip base_tip =
     st\<lparr>ws_merged := True, ws_merge_error := None, fs_feature_tip_sha := Some tip,
        fs_review_base_sha := Some base_tip, fs_review_head_sha := Some tip,
        fs_work_base_ref := fs_feature_branch st\<rparr>"

text \<open>One consolidation: the outcome is emitted before a missing source raises.\<close>

definition consolidate ::
  "fire_answers \<Rightarrow> string option \<Rightarrow> string \<Rightarrow> string \<Rightarrow> string \<Rightarrow> string \<Rightarrow> consolidation_outcome doing" where
  "consolidate a url base_branch feature_branch source_branch missing =
     then_do (asks (fa_consolidate a url base_branch feature_branch source_branch)) (\<lambda>outcome.
     then_do (does (Inr ()) [Consolidated (oc_status outcome) feature_branch source_branch
         (oc_feature_tip_sha outcome)]) (\<lambda>_.
     asks (if oc_status outcome = SourceMissing \<and> missing \<noteq> [] then Inl (RuntimeFault missing)
           else Inr outcome)))"

definition base_tip :: "fire_answers \<Rightarrow> string \<Rightarrow> fire_exn + sha" where
  "base_tip a branch =
     bind_sum (fa_remote_sha a branch) (\<lambda>found.
     case found of
       None \<Rightarrow> Inl (RuntimeFault ''Base branch not found after successful consolidation'')
     | Some tip \<Rightarrow> Inr tip)"

fun consolidate_each ::
  "fire_answers \<Rightarrow> fire_state \<Rightarrow> repo_entry list \<Rightarrow> (repo_entry \<times> consolidation_outcome) list doing" where
  "consolidate_each a st [] = asks (Inr [])"
| "consolidate_each a st (repository # repositories) =
     then_do (consolidate a (Some (rp_url repository)) (rp_trunk repository) (fs_feature_branch st)
         (fs_ralph_branch st) ''consolidate returned SOURCE_MISSING'') (\<lambda>outcome.
     then_do (consolidate_each a st repositories) (\<lambda>rest. asks (Inr ((repository, outcome) # rest))))"

definition gained_outcomes ::
  "fire_answers \<Rightarrow> fire_state \<Rightarrow> repo_entry list \<Rightarrow> (repo_entry \<times> consolidation_outcome) list doing" where
  "gained_outcomes a st repositories =
     then_do (asks (gained_commits a (fs_ralph_branch st) repositories)) (\<lambda>gained.
     consolidate_each a st gained)"

definition merge_each :: "fire_answers \<Rightarrow> fire_state \<Rightarrow> repo_entry list \<Rightarrow> fire_state doing" where
  "merge_each a st repositories =
     then_do (gained_outcomes a st repositories) (\<lambda>outcomes.
     case outcomes of
       [] \<Rightarrow> asks (Inl (RuntimeFault ''accepted with no commits in any declared repository''))
     | (first_repository, first_outcome) # _ \<Rightarrow>
         let diverging = map (rp_url \<circ> fst) (filter (\<lambda>(_, oc). oc_status oc = Divergent) outcomes) in
         if diverging \<noteq> []
         then asks (Inr (diverged st (''ralph diverged from feature in '' @ join '', '' diverging @ '': '' @
                 fs_ralph_branch st @ LEFT_RIGHT @ fs_feature_branch st)
                 (oc_feature_tip_sha first_outcome)))
         else
           then_do (asks (fa_clone a (rp_url first_repository))) (\<lambda>_.
           then_do (asks (base_tip a (rp_trunk first_repository))) (\<lambda>tip.
           asks (Inr (integrated st (oc_feature_tip_sha first_outcome) tip)))))"

definition merge_to_feature ::
  "fire_wiring \<Rightarrow> exec_ctx \<Rightarrow> fire_answers \<Rightarrow> fire_state \<Rightarrow> fire_state doing" where
  "merge_to_feature w ctx a st =
     (if \<not> gate_cleared (ws_accept_verdict st) then asks (Inr (not_accepted st))
      else
        let repositories = scope_repositories (xc_scope ctx) (fw_repositories w);
            base_branch = bs_base_branch (xc_base_spec ctx) in
        if repositories \<noteq> [] then merge_each a st repositories
        else
          then_do (consolidate a (xc_repo_url ctx) base_branch (fs_feature_branch st) (fs_ralph_branch st)
              ''consolidate returned SOURCE_MISSING: the loop must have pushed'') (\<lambda>outcome.
          if oc_status outcome = Divergent
          then asks (Inr (diverged st (''ralph diverged from feature: '' @ fs_ralph_branch st @ LEFT_RIGHT @
                 fs_feature_branch st) (oc_feature_tip_sha outcome)))
          else
            then_do (asks (resolve_workflow_cwd ctx a)) (\<lambda>_.
            then_do (asks (base_tip a base_branch)) (\<lambda>tip.
            asks (Inr (integrated st (oc_feature_tip_sha outcome) tip))))))"

definition land_each :: "fire_answers \<Rightarrow> fire_state \<Rightarrow> repo_entry list \<Rightarrow> fire_state doing" where
  "land_each a st repositories =
     then_do (gained_outcomes a st repositories) (\<lambda>outcomes.
     case map (oc_feature_tip_sha \<circ> snd) (filter (\<lambda>(_, oc). oc_status oc \<noteq> Divergent) outcomes) of
       [] \<Rightarrow> asks (Inr st)
     | tip # _ \<Rightarrow> asks (Inr (st\<lparr>fs_feature_tip_sha := Some tip\<rparr>)))"

definition landed :: "fire_state \<Rightarrow> string \<Rightarrow> sha \<Rightarrow> consolidation_outcome \<Rightarrow> fire_state" where
  "landed st best_ref best_sha outcome =
     (if oc_status outcome \<in> {FastForwarded, AlreadyIntegrated}
      then st\<lparr>fs_feature_tip_sha := Some (oc_feature_tip_sha outcome)\<rparr>
      else st\<lparr>fs_feature_branch := best_ref, fs_feature_tip_sha := Some best_sha\<rparr>)"

definition land_best_iteration ::
  "fire_wiring \<Rightarrow> exec_ctx \<Rightarrow> fire_answers \<Rightarrow> fire_state \<Rightarrow> fire_state doing" where
  "land_best_iteration w ctx a st =
     (case (ws_trajectory st, ws_best_iteration_sha st, xc_repo_url ctx) of
        (Some _, Some best_sha, Some repo_url) \<Rightarrow>
          if \<not> fw_has_publisher w then asks (Inr st)
          else
            let repositories = scope_repositories (xc_scope ctx) (fw_repositories w) in
            if repositories \<noteq> [] then land_each a st repositories
            else
              let best_ref = best_iteration_ref (fs_feature_branch st) in
              then_do (does (fa_publish a) [BestPublished best_sha best_ref]) (\<lambda>_.
              then_do (consolidate a (Some repo_url) (bs_base_branch (xc_base_spec ctx))
                  (fs_feature_branch st) best_ref []) (\<lambda>outcome.
              asks (Inr (landed st best_ref best_sha outcome))))
      | _ \<Rightarrow> asks (Inr st))"

subsection \<open>The review of the consolidated changes\<close>

text \<open>The roster the attempts are judged against: every attempt of a native review reads it again,
  held to what the attempt before it read.\<close>

fun review_source ::
  "fire_wiring \<Rightarrow> fire_answers \<Rightarrow> tracker_spec option \<Rightarrow> criterion_source option \<Rightarrow> nat
     \<Rightarrow> fire_exn + criterion_source option" where
  "review_source w a native source 0 = Inr source"
| "review_source w a native source (Suc n) =
     bind_sum (review_source w a native source n) (\<lambda>held_source.
     case native of
       None \<Rightarrow> Inr held_source
     | Some spec \<Rightarrow>
         bind_sum (native_criteria w (fa_review_current a (Suc n)) spec held_source)
           (\<lambda>roster. Inr (Some (TrackerSet roster))))"

definition review_reading ::
  "fire_wiring \<Rightarrow> fire_answers \<Rightarrow> tracker_spec option \<Rightarrow> criterion_source option \<Rightarrow> nat
     \<Rightarrow> fire_exn + criterion_source option \<times> iteration_grade" where
  "review_reading w a native source n =
     bind_sum (review_source w a native source n) (\<lambda>read_source.
     bind_sum (validated_criteria read_source) (\<lambda>criteria.
     bind_sum (fa_review a n criteria) (\<lambda>answer.
     if \<not> valid_output answer then Inl (ValueFault ''AcceptanceCriteriaOutput'')
     else bind_sum (map_error GradingFault (grade_iteration criteria answer (\<lambda>_. None))) (\<lambda>grade.
          Inr (read_source, grade)))))"

definition review_check ::
  "criterion_source option \<times> iteration_grade \<Rightarrow> (criteria_fan_in_error, fire_exn) checked" where
  "review_check reading =
     (case require_permutation (snd reading) of
        Inr _ \<Rightarrow> Conforms
      | Inl (NotAPermutation breach) \<Rightarrow> RefusedOutput breach
      | Inl e \<Rightarrow> CrashedCheck (GradingFault e))"

definition settled_review ::
  "fire_wiring \<Rightarrow> fire_answers \<Rightarrow> tracker_spec option \<Rightarrow> criterion_source option
     \<Rightarrow> fire_exn + (criterion_source option \<times> iteration_grade) \<times> fan_in_report option" where
  "settled_review w a native source =
     (case snd (until_permutation
         (\<lambda>n. case review_reading w a native source n of Inl e \<Rightarrow> CrashedDispatch e | Inr r \<Rightarrow> Produced r)
         review_check (fw_fan_in_attempts w)) of
        Inl e \<Rightarrow> Inl e
      | Inr (Inl breach) \<Rightarrow> Inl (FanInFault breach)
      | Inr (Inr (reading, unresolved, attempts)) \<Rightarrow>
          (case unresolved of
             None \<Rightarrow> Inr (reading, None)
           | Some _ \<Rightarrow> bind_sum (map_error GradingFault (fan_in_report (snd reading) attempts))
                         (\<lambda>report. Inr (reading, Some report))))"

definition render_failure :: "criterion_failure \<Rightarrow> string" where
  "render_failure f = ''- '' @ fl_criterion_id f @ '' '' @ fl_text f @ '': '' @ fl_reasoning f"

definition review_changeset ::
  "fire_wiring \<Rightarrow> exec_ctx \<Rightarrow> fire_answers \<Rightarrow> fire_state \<Rightarrow> fire_exn + unit" where
  "review_changeset w ctx a st =
     (let repositories = scope_repositories (xc_scope ctx) (fw_repositories w) in
      if repositories \<noteq> []
      then bind_sum (gained_commits a (fs_feature_branch st) repositories) (\<lambda>_. Inr ())
      else fa_changeset a)"

definition reviewed ::
  "fire_state \<Rightarrow> criterion_source option \<Rightarrow> iteration_grade \<Rightarrow> fan_in_report option \<Rightarrow> fire_state doing" where
  "reviewed st read_source grade fan_in =
     (let passed = gate_cleared (ig_verdict grade) in
      does (Inr (st\<lparr>fs_criterion_set := read_source, ws_review_passed := passed,
                    fs_review_feedback :=
                      (if passed then None else Some (join newline (map render_failure (ig_failures grade)))),
                    fs_flagged_items := fs_flagged_items st @ sherlock_items (ig_sherlock_flags grade)\<rparr>))
        [Reviewed passed (ig_results grade) (ws_remediation_rounds_used st) fan_in])"

definition review_against_ticket ::
  "fire_wiring \<Rightarrow> exec_ctx \<Rightarrow> fire_answers \<Rightarrow> fire_state \<Rightarrow> fire_state doing" where
  "review_against_ticket w ctx a st =
     (if fs_review_base_sha st = None \<or> fs_review_head_sha st = None
      then asks (Inl (RuntimeFault (''review_against_ticket requires review_base_sha and '' @
             ''review_head_sha to be set by the consolidation node'')))
      else
        then_do (asks (current_fire_spec st)) (\<lambda>spec.
        then_do (asks (resolve_workflow_cwd ctx a)) (\<lambda>_.
        then_do (asks (review_changeset w ctx a st)) (\<lambda>_.
        then_do (asks (settled_review w a (native_spec (xc_scope ctx) spec) (fs_criterion_set st)))
          (\<lambda>((read_source, grade), fan_in). reviewed st read_source grade fan_in)))))"

subsection \<open>Remediation\<close>

definition rounds_remain :: "fire_wiring \<Rightarrow> fire_state \<Rightarrow> bool" where
  "rounds_remain w st \<longleftrightarrow>
     fw_has_remediator w \<and> ws_remediation_rounds_used st < fw_max_remediation w"

definition opening_entry :: "fire_state \<Rightarrow> remediation_entry" where
  "opening_entry st =
     (if ws_merged st \<and> \<not> ws_review_passed st then ReviewFailure else LoopNotAccepted)"

definition failure_evidence :: "fire_state \<Rightarrow> remediation_entry \<Rightarrow> string" where
  "failure_evidence st entry =
     (if entry = ReviewFailure
      then case fs_review_feedback st of
             None \<Rightarrow> ''The post-merge review rejected the work with no feedback.''
           | Some feedback \<Rightarrow>
               if feedback = [] then ''The post-merge review rejected the work with no feedback.''
               else feedback
      else case ws_trajectory st of
             None \<Rightarrow> ''The loop ended without acceptance and recorded no iterations.''
           | Some t \<Rightarrow>
               let never_passed = join '', '' (lt_never_passed_ids t) in
               ''The loop ended without acceptance after '' @ decimal (fs_total_iterations st) @
               '' iterations. Best pass count '' @ decimal (lt_best_passed_count t) @
               '' at iteration '' @ decimal (lt_best_iteration t) @
               (if lt_plateaued t then ''; the run plateaued'' else []) @
               ''. Criteria that passed in no iteration: '' @
               (if never_passed = [] then ''none'' else never_passed) @ ''.'')"

definition valid_request :: "remediation_request \<Rightarrow> bool" where
  "valid_request r \<longleftrightarrow>
     0 \<le> rq_round_index r \<and> rq_work_branch r \<noteq> [] \<and> rq_work_base_ref r \<noteq> [] \<and>
     rq_failure_evidence r \<noteq> []"

fun matching_arm :: "fire_spec \<Rightarrow> remediation_ticket \<Rightarrow> bool" where
  "matching_arm (TrackerSpec _) (RemediationPlan _) = True"
| "matching_arm (AuthoredSpec _) (DraftedTicket _) = True"
| "matching_arm _ _ = False"

text \<open>The state a drafted round opens on: the native arm keeps its roster.\<close>

definition opened_round ::
  "fire_state \<Rightarrow> remediation_request \<Rightarrow> remediation_ticket \<Rightarrow> string \<Rightarrow> fire_state" where
  "opened_round st request ticket loop_id =
     st\<lparr>ws_remediation_rounds_used := ws_remediation_rounds_used st + 1,
        fs_remediation_ticket := Some ticket, fs_remediation_entry := Some (rq_entry request),
        fs_ralph_branch := generate_ralph_branch_name (fs_feature_branch st) loop_id,
        fs_acceptance_criteria := [],
        fs_criterion_set :=
          (case rq_original_spec request of
             TrackerSpec _ \<Rightarrow> fs_criterion_set st
           | AuthoredSpec _ \<Rightarrow> None),
        fs_criteria_validation := None, fs_regeneration_rounds := 0, ws_accept_verdict := Rejected,
        ws_review_passed := False, ws_merged := False, ws_merge_error := None\<rparr>"

definition draft_remediation ::
  "fire_wiring \<Rightarrow> fire_answers \<Rightarrow> fire_state \<Rightarrow> remediation_request \<Rightarrow> fire_state doing" where
  "draft_remediation w a st request =
     (if \<not> fw_has_remediator w
      then asks (Inl (RuntimeFault ''Remediation requires a configured remediator''))
      else
        then_do (asks (fa_remediate a request)) (\<lambda>answer.
        case answer of
          None \<Rightarrow> asks (Inl (RuntimeFault ''Remediator did not emit a WorkflowRemediationEvent.''))
        | Some ticket \<Rightarrow>
            then_do (does (Inr ()) [RoundDrafted request]) (\<lambda>_.
            if \<not> matching_arm (rq_original_spec request) ticket
            then asks (Inl (TypeFault ''The remediation output must match the fire spec arm''))
            else asks (Inr (opened_round st request ticket (fa_loop_id a))))))"

definition request_of :: "fire_state \<Rightarrow> fire_spec \<Rightarrow> execution_criterion list \<Rightarrow> remediation_request" where
  "request_of st spec criteria =
     (let entry = opening_entry st in
      \<lparr>rq_entry = entry, rq_round_index = ws_remediation_rounds_used st, rq_original_spec = spec,
       rq_work_branch = fs_feature_branch st, rq_work_base_ref = fs_work_base_ref st,
       rq_total_iterations = fs_total_iterations st, rq_trajectory = ws_trajectory st,
       rq_criteria = criteria, rq_failure_evidence = failure_evidence st entry\<rparr>)"

definition remediate :: "fire_wiring \<Rightarrow> fire_answers \<Rightarrow> fire_state \<Rightarrow> fire_state doing" where
  "remediate w a st =
     then_do (asks (original_fire_spec st)) (\<lambda>spec.
     then_do (asks (validated_criteria (fs_criterion_set st))) (\<lambda>criteria.
     if valid_request (request_of st spec criteria)
     then draft_remediation w a st (request_of st spec criteria)
     else asks (Inl (ValueFault ''RemediationRequest''))))"

subsection \<open>The terminal\<close>

definition fire_terminal :: "fire_state \<Rightarrow> fire_exn + workflow_complete" where
  "fire_terminal st =
     (case classify_outcome (workflow_state.truncate st) of
        Inl Unclassifiable \<Rightarrow> Inl (ValueFault ''Unclassifiable terminal state'')
      | Inr outcome \<Rightarrow> Inr
         \<lparr>wc_feature_branch = fs_feature_branch st, wc_ralph_branch = fs_ralph_branch st,
          wc_total_iterations = fs_total_iterations st,
          wc_accepted = gate_cleared (ws_accept_verdict st), wc_outcome = outcome,
          wc_merged = ws_merged st, wc_final_commit_sha = fs_feature_tip_sha st,
          wc_merge_error = ws_merge_error st, wc_trajectory = ws_trajectory st,
          wc_criteria_validation = fs_criteria_validation st\<rparr>)"

definition complete :: "fire_state \<Rightarrow> fire_state doing" where
  "complete st =
     then_do (asks (fire_terminal st)) (\<lambda>terminal. does (Inr st) [Completed terminal])"

fun cleanup_each :: "fire_answers \<Rightarrow> string \<Rightarrow> string option list \<Rightarrow> unit doing" where
  "cleanup_each a branch [] = asks (Inr ())"
| "cleanup_each a branch (origin # origins) =
     then_do (does (fa_cleanup a origin) [BackupsCleaned branch origin]) (\<lambda>_. cleanup_each a branch origins)"

definition cleanup_backups ::
  "fire_wiring \<Rightarrow> exec_ctx \<Rightarrow> fire_answers \<Rightarrow> workflow_complete \<Rightarrow> unit doing" where
  "cleanup_backups w ctx a terminal =
     (if wc_accepted terminal \<and> wc_merged terminal
      then
        let declared = map (Some \<circ> rp_url) (scope_repositories (xc_scope ctx) (fw_repositories w)) in
        cleanup_each a (wc_feature_branch terminal) (if declared = [] then [xc_repo_url ctx] else declared)
      else asks (Inr ()))"

end
