(* ===== verification/GitUrl.thy ===== *)
theory GitUrl
  imports LaneEntry
begin

section \<open>Repository URLs\<close>

text \<open>
  \<^verbatim>\<open>domain/git_url.py\<close>: what a repository reference resolves to, which owner and
  repository a URL names, and the cache directory of a clone. The shorthand pattern is anchored
  with \<^verbatim>\<open>$\<close>, which also matches before one final line feed.
\<close>

datatype url_error = UrlRefused string string

definition starts_with :: "string \<Rightarrow> string \<Rightarrow> bool" where
  "starts_with front s \<longleftrightarrow> take (length front) s = front"

definition remove_prefix :: "string \<Rightarrow> string \<Rightarrow> string" where
  "remove_prefix front s = (if starts_with front s then drop (length front) s else s)"

definition remove_suffix :: "string \<Rightarrow> string \<Rightarrow> string" where
  "remove_suffix ending s = (if ends_with s ending then take (length s - length ending) s else s)"

definition rstrip_slash :: "string \<Rightarrow> string" where
  "rstrip_slash s = rev (dropWhile (\<lambda>c. c = CHR ''/'') (rev s))"

definition https :: string where "https = ''https://''"

definition file_scheme :: string where "file_scheme = ''file://''"

definition dot_git :: string where "dot_git = ''.git''"

definition shorthand_char :: "char \<Rightarrow> bool" where
  "shorthand_char c \<longleftrightarrow> key_alnum c \<or> c \<in> set ''-_.''"

definition before_final_newline :: "string \<Rightarrow> string" where
  "before_final_newline s = (if s \<noteq> [] \<and> last s = CHR 0x0A then butlast s else s)"

definition shorthand :: "string \<Rightarrow> (string \<times> string) option" where
  "shorthand s =
     (case split_on (CHR ''/'') (before_final_newline s) of
        [owner, repo] \<Rightarrow>
          if owner \<noteq> [] \<and> repo \<noteq> [] \<and> list_all shorthand_char owner \<and> list_all shorthand_char repo
          then Some (owner, repo) else None
      | _ \<Rightarrow> None)"

definition parse_repo_url :: "string \<Rightarrow> url_error + string" where
  "parse_repo_url raw =
     (if starts_with https raw
      then let url = rstrip_slash raw in Inr (if ends_with url dot_git then url else url @ dot_git)
      else if starts_with file_scheme raw then Inr raw
      else Inl (UrlRefused ''Not a recognized git URL scheme'' raw))"

definition resolve_repo_url :: "string \<Rightarrow> string \<Rightarrow> url_error + string" where
  "resolve_repo_url raw base_url =
     (if starts_with https raw \<or> starts_with file_scheme raw then parse_repo_url raw
      else case shorthand raw of
             Some (owner, repo) \<Rightarrow>
               Inr (rstrip_slash base_url @ ''/'' @ owner @ ''/'' @ repo @ dot_git)
           | None \<Rightarrow> Inl (UrlRefused ''Not a valid repo URL or owner/repo shorthand'' raw))"

definition is_forge_less_origin :: "string \<Rightarrow> bool" where
  "is_forge_less_origin url \<longleftrightarrow> starts_with file_scheme url"

definition extract_owner_repo :: "string \<Rightarrow> url_error + string \<times> string" where
  "extract_owner_repo url =
     (case shorthand url of
        Some names \<Rightarrow> Inr names
      | None \<Rightarrow>
          if starts_with file_scheme url
          then Inl (UrlRefused ''Cannot extract owner/repo from file:// URL'' url)
          else if starts_with https url
          then (case split_on (CHR ''/'') (rstrip_slash (drop (length https) url)) of
                  host # owner # repo # _ \<Rightarrow> Inr (owner, remove_suffix dot_git repo)
                | _ \<Rightarrow> Inl (UrlRefused ''Cannot extract owner/repo from URL'' url))
          else Inl (UrlRefused ''Cannot extract owner/repo from URL'' url))"

definition cache_slug :: "string \<Rightarrow> string" where
  "cache_slug clone_url =
     concat (map (\<lambda>c. if c = CHR ''/'' then ''--'' else [c])
       (remove_suffix dot_git (remove_prefix file_scheme (remove_prefix https clone_url))))"


subsection \<open>What a resolved reference names\<close>

lemma split_on_free: "sep \<notin> set s \<Longrightarrow> split_on sep s = [s]"
  by (induction s) auto

lemma split_on_cons: "sep \<notin> set s \<Longrightarrow> split_on sep (s @ sep # t) = s # split_on sep t"
  by (induction s) auto

lemma split_on_concat: "concat (split_on sep s) = filter (\<lambda>c. c \<noteq> sep) s"
proof (induction s)
  case (Cons c s)
  then show ?case by (cases "split_on sep s") auto
qed simp

lemma split_on_nonempty: "split_on sep s \<noteq> []"
  by (cases s) (auto split: list.splits)

lemma shorthand_parts:
  assumes "shorthand s = Some (owner, repo)"
  shows "owner \<noteq> []" "repo \<noteq> []" "CHR ''/'' \<notin> set owner" "CHR ''/'' \<notin> set repo"
proof -
  have "split_on (CHR ''/'') (before_final_newline s) = [owner, repo]" "owner \<noteq> []" "repo \<noteq> []"
    using assms by (auto simp: shorthand_def split: list.splits if_splits)
  moreover have "CHR ''/'' \<notin> set (concat (split_on (CHR ''/'') (before_final_newline s)))"
    by (simp add: split_on_concat)
  ultimately show "owner \<noteq> []" "repo \<noteq> []" "CHR ''/'' \<notin> set owner" "CHR ''/'' \<notin> set repo" by auto
qed

lemma rstrip_slash_fixed: "s \<noteq> [] \<Longrightarrow> last s \<noteq> CHR ''/'' \<Longrightarrow> rstrip_slash s = s"
  by (cases s rule: rev_cases) (simp_all add: rstrip_slash_def)

lemma not_shorthand: "starts_with https u \<Longrightarrow> shorthand u = None"
proof (rule ccontr)
  assume u: "starts_with https u" and "shorthand u \<noteq> None"
  then obtain owner repo where s: "shorthand u = Some (owner, repo)" by auto
  obtain t where t: "u = https @ t" using u by (metis append_take_drop_id starts_with_def)
  define t' where "t' = before_final_newline t"
  have t': "before_final_newline u = https @ t'"
    unfolding t t'_def before_final_newline_def by (simp add: https_def butlast_append)
  have "split_on (CHR ''/'') (before_final_newline u) = ''https:'' # [] # split_on (CHR ''/'') t'"
    unfolding t' by (simp add: https_def)
  then show False using s split_on_nonempty [of "CHR ''/''" t']
    by (auto simp: shorthand_def split: list.splits if_splits)
qed


text \<open>A shorthand resolved on a host names its own owner and repository again, and resolving a URL
  a second time changes nothing.\<close>

lemma resolved_shorthand_names_itself:
  assumes "shorthand raw = Some (owner, repo)" and "host \<noteq> []" and "CHR ''/'' \<notin> set host"
    and "\<not> starts_with https raw" and "\<not> starts_with file_scheme raw"
  shows "\<exists>u. resolve_repo_url raw (https @ host) = Inr u \<and> extract_owner_repo u = Inr (owner, repo) \<and>
    resolve_repo_url u (https @ host) = Inr u"
proof -
  define u where "u = https @ host @ ''/'' @ owner @ ''/'' @ repo @ dot_git"
  have "last host \<noteq> CHR ''/''" using last_in_set [OF assms(2)] assms(3) by metis
  then have r: "rstrip_slash (https @ host) = https @ host"
    using assms(2) by (intro rstrip_slash_fixed) auto
  have h: "starts_with https u" by (simp add: u_def starts_with_def)
  have f: "\<not> starts_with file_scheme u" by (simp add: u_def starts_with_def https_def file_scheme_def)
  have e: "ends_with u dot_git" by (simp add: u_def ends_with_def)
  have d: "drop (length https) u = host @ ''/'' @ owner @ ''/'' @ repo @ dot_git" by (simp add: u_def)
  have s: "rstrip_slash (drop (length https) u) = drop (length https) u" "rstrip_slash u = u"
    by (rule rstrip_slash_fixed; simp add: u_def dot_git_def)+
  have "split_on (CHR ''/'') (drop (length https) u) = [host, owner, repo @ dot_git]"
    unfolding d using shorthand_parts [OF assms(1)] assms(3)
    by (simp add: split_on_cons split_on_free dot_git_def)
  then have "extract_owner_repo u = Inr (owner, repo)"
    using h f by (simp add: extract_owner_repo_def not_shorthand s remove_suffix_def ends_with_def)
  moreover have "resolve_repo_url u (https @ host) = Inr u"
    using h e by (simp add: resolve_repo_url_def parse_repo_url_def s Let_def)
  moreover have "resolve_repo_url raw (https @ host) = Inr u"
    using assms(1,4,5) r by (simp add: resolve_repo_url_def u_def)
  ultimately show ?thesis by blast
qed

text \<open>The cache directory does not identify the clone: a repository whose name holds two hyphens
  shares it with another owner's.\<close>

lemma cache_slug_collides:
  "cache_slug ''https://h/a/b--c.git'' = cache_slug ''https://h/a/b/c.git'' \<and>
   cache_slug ''https://h/a/b--c.git'' = cache_slug ''https://h/a--b/c.git''"
  by code_simp

end
