(* ===== verification/FireRun.thy ===== *)
theory FireRun
  imports FireGraph GitUrl
begin

section \<open>The fire graph: compositions, routes and runs\<close>

text \<open>
  \<^verbatim>\<open>chains/ralph_workflow.py\<close>: what \<^verbatim>\<open>prepare\<close> makes of a request, the
  three compositions and their routes, and a run from its entry to its terminal and the backup
  cleanup after it. One visit of a node takes the answers of that visit. \<^verbatim>\<open>domain/base_scope.py\<close>
  is the base a run is measured against. The graph library's own limit on steps, its checkpoints and
  the streaming of events are not modelled; the events of a run are the list of its acts.
\<close>

subsection \<open>The base a run is measured against\<close>

definition named_inputs :: "base_input list \<Rightarrow> string list" where
  "named_inputs inputs =
     map (\<lambda>i. bin_blocker_issue_id i @ ''@'' @ bin_branch i @ '':'' @ bin_sha i) inputs"

definition changed_inputs :: "base_spec \<Rightarrow> base_spec \<Rightarrow> string list" where
  "changed_inputs recorded implied =
     (let before = named_inputs (bs_inputs recorded); after = named_inputs (bs_inputs implied) in
      filter (\<lambda>i. i \<notin> set after) before @ filter (\<lambda>i. i \<notin> set before) after)"

definition scope_base :: "base_spec \<Rightarrow> base_spec option \<Rightarrow> fire_exn + string" where
  "scope_base recorded implied =
     (case implied of
        None \<Rightarrow> Inr (bs_base_branch recorded)
      | Some now \<Rightarrow>
          if is_base_stale recorded now
          then Inl (StaleBase (bs_base_branch recorded) (bs_base_branch now) (changed_inputs recorded now))
          else Inr (bs_base_branch recorded))"

subsection \<open>The compositions\<close>

datatype arm = AuthoredArm | NativeArm | ScopeArm

record engine =
  en_wiring :: fire_wiring
  en_has_stages :: bool
  en_has_criteria :: bool
  en_git_base_url :: string

record fire_request =
  fq_prompt :: string
  fq_issue_key :: "string option"
  fq_repo_path :: "string option"
  fq_repo_url :: "string option"
  fq_base_spec :: base_spec
  fq_scope :: "string option"
  fq_implied_base :: "base_spec option"
  fq_cache_key :: string
  fq_surface_holder :: "string option"
  fq_entry :: "lane_entry option"

definition own_arm :: "engine \<Rightarrow> arm" where
  "own_arm e = (if en_has_stages e then ScopeArm else AuthoredArm)"

definition composition :: "engine \<Rightarrow> string option \<Rightarrow> fire_exn + arm" where
  "composition e scope =
     (if scope = None \<or> en_has_stages e then Inr (own_arm e)
      else if \<not> en_has_criteria e
      then Inl (ScopeUnavailable ''Scoped execution requires the scope entry pipeline'')
      else Inr NativeArm)"

definition initial_state :: fire_state where
  "initial_state =
     \<lparr>ws_ruling_unrecorded = None, ws_criteria_infeasible = False, ws_accept_verdict = Rejected,
      ws_merged = False, ws_merge_error = None, ws_review_passed = False,
      ws_remediation_rounds_used = 0, ws_best_iteration_sha = None, ws_trajectory = None,
      fs_issue_key = None, fs_lane_entry = None, fs_feature_branch = [], fs_ralph_branch = [],
      fs_work_base_ref = [], fs_fire_spec = None, fs_acceptance_criteria = [], fs_criterion_set = None,
      fs_criteria_validation = None, fs_regeneration_rounds = 0, fs_flagged_items = [],
      fs_total_iterations = 0, fs_feature_tip_sha = None, fs_review_base_sha = None,
      fs_review_head_sha = None, fs_review_feedback = None, fs_remediation_ticket = None,
      fs_remediation_entry = None, fs_best_iteration_branch = None, fs_repo_url = None,
      fs_repo_visibility = UnknownVisibility\<rparr>"

text \<open>The branches, the work base and the verdict a lane enters on: a resumed lane whose record
  holds no loop branch at its head cuts a fresh one there, and a lane entered to deliver enters
  accepted.\<close>

fun entered_branches ::
  "string \<Rightarrow> string \<Rightarrow> string \<Rightarrow> string \<Rightarrow> lane_entry
     \<Rightarrow> fire_exn + string \<times> string \<times> string \<times> accept_verdict_kind" where
  "entered_branches key base short_id loop_id NewLane =
     bind_sum (map_error EntryFault (mint_lane_branches key short_id loop_id)) (\<lambda>(feature, ralph).
     Inr (feature, ralph, base, Rejected))"
| "entered_branches key base short_id loop_id (ResumedLane f) =
     Inr (case ef_loop_branch f of
            None \<Rightarrow> (ef_deliverable_branch f,
                     generate_ralph_branch_name (ef_deliverable_branch f) loop_id, ef_head_sha f, Rejected)
          | Some branch \<Rightarrow> (ef_deliverable_branch f, branch, branch, Rejected))"
| "entered_branches key base short_id loop_id (DeliverOnlyLane f) =
     (let branch = (case ef_loop_branch f of None \<Rightarrow> [] | Some b \<Rightarrow> b) in
      Inr (ef_deliverable_branch f, branch, branch, Accepted))"

definition lane_identity :: "engine \<Rightarrow> fire_request \<Rightarrow> fire_exn + string option" where
  "lane_identity e q =
     (case fq_scope q of
        None \<Rightarrow> Inr (fq_issue_key q)
      | Some key \<Rightarrow>
          bind_sum (composition e (Some key)) (\<lambda>_.
          if fq_issue_key q \<noteq> None \<and> fq_issue_key q \<noteq> Some key
          then Inl (ScopeUnavailable ''The addressed issue and the run's issue key disagree'')
          else Inr (Some key)))"

definition resolved_url :: "engine \<Rightarrow> fire_request \<Rightarrow> fire_exn + string option" where
  "resolved_url e q =
     (case fq_repo_url q of
        None \<Rightarrow> Inr None
      | Some raw \<Rightarrow>
          (case resolve_repo_url raw (en_git_base_url e) of
             Inl (UrlRefused why bad) \<Rightarrow> Inl (ValueFault (why @ '': '' @ bad))
           | Inr url \<Rightarrow> Inr (Some url)))"

definition valid_holder :: "string option \<Rightarrow> bool" where
  "valid_holder holder \<longleftrightarrow> (case holder of None \<Rightarrow> True | Some h \<Rightarrow> \<not> py_blank h)"

definition prepare :: "engine \<Rightarrow> fire_request \<Rightarrow> string \<Rightarrow> string \<Rightarrow> fire_exn + fire_state \<times> exec_ctx" where
  "prepare e q short_id loop_id =
     bind_sum (lane_identity e q) (\<lambda>issue_key.
     bind_sum (scope_base (fq_base_spec q) (fq_implied_base q)) (\<lambda>_.
     bind_sum (resolved_url e q) (\<lambda>url.
     if fq_prompt q = [] \<or> fq_cache_key q = [] \<or> \<not> valid_holder (fq_surface_holder q) then Inl (ValueFault ''ExecutionContext'')
     else
       let ctx = \<lparr>xc_prompt = fq_prompt q, xc_repo_path = fq_repo_path q, xc_repo_url = url,
                  xc_surface_holder = fq_surface_holder q, xc_base_spec = fq_base_spec q,
                  xc_scope = (if en_has_stages e then fq_scope q else None)\<rparr> in
       bind_sum (case fq_scope q of
           None \<Rightarrow> Inr ([], [], bs_base_branch (fq_base_spec q), Rejected)
         | Some key \<Rightarrow>
             entered_branches key (bs_base_branch (fq_base_spec q)) short_id loop_id
               (case fq_entry q of None \<Rightarrow> NewLane | Some entry \<Rightarrow> entry)) (\<lambda>(feature, ralph, base, verdict).
       Inr (initial_state\<lparr>fs_issue_key := issue_key, fs_lane_entry := fq_entry q,
              fs_feature_branch := feature, fs_ralph_branch := ralph, fs_work_base_ref := base,
              ws_accept_verdict := verdict, fs_repo_url := url\<rparr>, ctx)))))"

subsection \<open>Nodes and routes\<close>

datatype fire_node =
  ResolveVisibility | GenerateBranch | GenerateTicket | PersistTicket | GenerateCriteria
| ValidateCriteria | PersistArtifacts | RevalidateCriteria | RuleOpenQuestions | Groom | Prep
| RunRalphLoop | MergeToFeature | ScopeDone | ReviewAgainstTicket | Remediate | LandBestIteration
| Complete

fun exec_node ::
  "fire_wiring \<Rightarrow> exec_ctx \<Rightarrow> fire_answers \<Rightarrow> fire_node \<Rightarrow> fire_state \<Rightarrow> fire_state doing" where
  "exec_node w ctx a ResolveVisibility st = resolve_visibility w ctx a st"
| "exec_node w ctx a GenerateBranch st = generate_branch ctx a st"
| "exec_node w ctx a GenerateTicket st = generate_ticket a st"
| "exec_node w ctx a PersistTicket st = persist_ticket w a st"
| "exec_node w ctx a GenerateCriteria st = generate_criteria ctx a st"
| "exec_node w ctx a ValidateCriteria st = validate_criteria w a st"
| "exec_node w ctx a PersistArtifacts st = persist_artifacts w a st"
| "exec_node w ctx a RevalidateCriteria st = revalidate_criteria a st"
| "exec_node w ctx a RuleOpenQuestions st = rule_open_questions w a st"
| "exec_node w ctx a Groom st = groom ctx a st"
| "exec_node w ctx a Prep st = prep ctx a st"
| "exec_node w ctx a RunRalphLoop st = run_ralph_loop w ctx a st"
| "exec_node w ctx a MergeToFeature st = merge_to_feature w ctx a st"
| "exec_node w ctx a ScopeDone st = scope_done ctx a st"
| "exec_node w ctx a ReviewAgainstTicket st = review_against_ticket w ctx a st"
| "exec_node w ctx a Remediate st = remediate w a st"
| "exec_node w ctx a LandBestIteration st = land_best_iteration w ctx a st"
| "exec_node w ctx a Complete st = complete st"

fun criteria_gate :: "arm \<Rightarrow> fire_node" where
  "criteria_gate AuthoredArm = GenerateCriteria"
| "criteria_gate NativeArm = RevalidateCriteria"
| "criteria_gate ScopeArm = RunRalphLoop"

definition route_entry :: "arm \<Rightarrow> fire_state \<Rightarrow> fire_node" where
  "route_entry arm st =
     (if fs_remediation_ticket st \<noteq> None then criteria_gate arm else ResolveVisibility)"

definition route_after_validation :: "fire_wiring \<Rightarrow> fire_state \<Rightarrow> fire_node" where
  "route_after_validation w st =
     (if ws_criteria_infeasible st then Complete
      else if (case fs_criteria_validation st of None \<Rightarrow> False | Some v \<Rightarrow> demands_regeneration v)
      then GenerateCriteria
      else if fw_persists w then PersistArtifacts else RunRalphLoop)"

definition route_after_revalidation :: "fire_state \<Rightarrow> fire_node" where
  "route_after_revalidation st =
     (if delivers (fs_lane_entry st) \<and> fs_remediation_ticket st = None then MergeToFeature
      else RuleOpenQuestions)"

definition route_after_questions :: "fire_state \<Rightarrow> fire_node" where
  "route_after_questions st =
     (if ws_ruling_unrecorded st = Some True then Complete else RunRalphLoop)"

definition route_after_scope_prep :: "fire_state \<Rightarrow> fire_node" where
  "route_after_scope_prep st = (if ws_criteria_infeasible st then Complete else RunRalphLoop)"

definition route_after_merge :: "fire_wiring \<Rightarrow> arm \<Rightarrow> fire_state \<Rightarrow> fire_node" where
  "route_after_merge w arm st =
     (if ws_merged st then (case arm of ScopeArm \<Rightarrow> ScopeDone | _ \<Rightarrow> ReviewAgainstTicket)
      else if ws_merge_error st \<noteq> None then Complete
      else if rounds_remain w st then Remediate
      else LandBestIteration)"

definition route_after_review :: "fire_wiring \<Rightarrow> fire_state \<Rightarrow> fire_node" where
  "route_after_review w st =
     (if ws_review_passed st then Complete
      else if rounds_remain w st then Remediate
      else Complete)"

definition route_after_scope_done :: "fire_wiring \<Rightarrow> fire_state \<Rightarrow> fire_node" where
  "route_after_scope_done w st =
     (if ws_review_passed st then ReviewAgainstTicket else route_after_review w st)"

fun next_node :: "fire_wiring \<Rightarrow> arm \<Rightarrow> fire_node \<Rightarrow> fire_state \<Rightarrow> fire_node option" where
  "next_node w arm ResolveVisibility st =
     Some (case arm of AuthoredArm \<Rightarrow> GenerateBranch | NativeArm \<Rightarrow> RevalidateCriteria | ScopeArm \<Rightarrow> Groom)"
| "next_node w arm GenerateBranch st = Some GenerateTicket"
| "next_node w arm GenerateTicket st = Some (if fw_persists w then PersistTicket else GenerateCriteria)"
| "next_node w arm PersistTicket st = Some GenerateCriteria"
| "next_node w arm GenerateCriteria st = Some ValidateCriteria"
| "next_node w arm ValidateCriteria st = Some (route_after_validation w st)"
| "next_node w arm PersistArtifacts st = Some RunRalphLoop"
| "next_node w arm RevalidateCriteria st = Some (route_after_revalidation st)"
| "next_node w arm RuleOpenQuestions st = Some (route_after_questions st)"
| "next_node w arm Groom st = Some Prep"
| "next_node w arm Prep st = Some (route_after_scope_prep st)"
| "next_node w arm RunRalphLoop st = Some MergeToFeature"
| "next_node w arm MergeToFeature st = Some (route_after_merge w arm st)"
| "next_node w arm ScopeDone st = Some (route_after_scope_done w st)"
| "next_node w arm ReviewAgainstTicket st = Some (route_after_review w st)"
| "next_node w arm Remediate st = Some (criteria_gate arm)"
| "next_node w arm LandBestIteration st = Some Complete"
| "next_node w arm Complete st = None"

subsection \<open>Every edge spends something\<close>

text \<open>The rank of a node on the way to the terminal; the two edges back spend a round.\<close>

fun node_rank :: "fire_node \<Rightarrow> nat" where
  "node_rank ResolveVisibility = 13"
| "node_rank GenerateBranch = 12"
| "node_rank GenerateTicket = 11"
| "node_rank PersistTicket = 10"
| "node_rank GenerateCriteria = 9"
| "node_rank ValidateCriteria = 8"
| "node_rank PersistArtifacts = 7"
| "node_rank RevalidateCriteria = 9"
| "node_rank RuleOpenQuestions = 8"
| "node_rank Groom = 12"
| "node_rank Prep = 11"
| "node_rank RunRalphLoop = 6"
| "node_rank MergeToFeature = 5"
| "node_rank ScopeDone = 4"
| "node_rank ReviewAgainstTicket = 3"
| "node_rank Remediate = 2"
| "node_rank LandBestIteration = 2"
| "node_rank Complete = 1"

definition round_cost :: "fire_wiring \<Rightarrow> nat" where
  "round_cost w = 2 * nat (fw_max_regeneration w) + 8"

definition fire_weight :: "fire_wiring \<Rightarrow> fire_node \<Rightarrow> fire_state \<Rightarrow> nat" where
  "fire_weight w n st =
     round_cost w * nat (fw_max_remediation w - ws_remediation_rounds_used st) +
     2 * nat (fw_max_regeneration w - int (fs_regeneration_rounds st)) + node_rank n +
     (if n = Remediate \<and> ws_remediation_rounds_used st \<ge> fw_max_remediation w then round_cost w else 0)"

text \<open>What the nodes before the loop leave alone: everything the work decides, and the branches
  once they are drawn.\<close>

definition keeps_work :: "fire_state \<Rightarrow> fire_state \<Rightarrow> bool" where
  "keeps_work st st' \<longleftrightarrow>
     ws_remediation_rounds_used st' = ws_remediation_rounds_used st \<and>
     ws_accept_verdict st' = ws_accept_verdict st \<and> ws_merged st' = ws_merged st \<and>
     ws_merge_error st' = ws_merge_error st \<and> ws_review_passed st' = ws_review_passed st \<and>
     ws_best_iteration_sha st' = ws_best_iteration_sha st \<and> ws_trajectory st' = ws_trajectory st \<and>
     fs_work_base_ref st' = fs_work_base_ref st \<and> fs_lane_entry st' = fs_lane_entry st \<and>
     fs_remediation_ticket st' = fs_remediation_ticket st \<and>
     fs_total_iterations st' = fs_total_iterations st"

definition keeps_halts :: "fire_state \<Rightarrow> fire_state \<Rightarrow> bool" where
  "keeps_halts st st' \<longleftrightarrow>
     ws_ruling_unrecorded st' = ws_ruling_unrecorded st \<and>
     ws_criteria_infeasible st' = ws_criteria_infeasible st \<and>
     fs_regeneration_rounds st' = fs_regeneration_rounds st"

definition keeps_branches :: "fire_state \<Rightarrow> fire_state \<Rightarrow> bool" where
  "keeps_branches st st' \<longleftrightarrow>
     fs_feature_branch st' = fs_feature_branch st \<and> fs_ralph_branch st' = fs_ralph_branch st"

lemmas keeps_defs = keeps_work_def keeps_halts_def keeps_branches_def

lemma asks_Inr [simp]: "asks r = (Inr x, evs) \<longleftrightarrow> r = Inr x \<and> evs = []"
  by (auto simp: asks_def)

lemma does_Inr [simp]: "does r emitted = (Inr x, evs) \<longleftrightarrow> r = Inr x \<and> evs = emitted"
  by (auto simp: does_def split: sum.splits)

lemma resolve_visibility_updates:
  "resolve_visibility w ctx a st = (Inr st', evs) \<Longrightarrow> \<exists>v. st' = st\<lparr>fs_repo_visibility := v\<rparr>"
  by (auto simp: resolve_visibility_def result_simps)

lemma generate_branch_updates:
  "generate_branch ctx a st = (Inr st', evs) \<Longrightarrow>
     \<exists>f r. st' = st\<lparr>fs_feature_branch := f, fs_ralph_branch := r\<rparr>"
  by (auto simp: generate_branch_def result_simps Let_def)

lemma generate_ticket_updates:
  "generate_ticket a st = (Inr st', evs) \<Longrightarrow> \<exists>t. st' = st\<lparr>fs_fire_spec := t\<rparr>"
  by (auto simp: generate_ticket_def result_simps split: option.split_asm)

lemma generate_criteria_updates:
  "generate_criteria ctx a st = (Inr st', evs) \<Longrightarrow> \<exists>c. st' = st\<lparr>fs_acceptance_criteria := c\<rparr>"
  by (auto simp: generate_criteria_def result_simps)

lemma persisting_updates:
  "persist_ticket w a st = (Inr st', evs) \<Longrightarrow> st' = st"
  "persist_artifacts w a st = (Inr st', evs) \<Longrightarrow> st' = st"
  unfolding persist_ticket_def persist_artifacts_def
  by (auto simp only: result_simps asks_Inr does_Inr)

lemma revalidate_updates:
  assumes "revalidate_criteria a st = (Inr st', evs)"
  shows "\<exists>spec roster. st' = st\<lparr>fs_fire_spec := Some spec, fs_criterion_set := Some (TrackerSet roster)\<rparr>"
proof -
  obtain issue_key spec roster where e: "fs_issue_key st = Some issue_key"
      "entered_spec a st = Inr (spec, roster)"
    using assms by (auto simp: revalidate_criteria_def result_simps split: option.split_asm)
  show ?thesis
    using assms by (cases spec; cases roster)
      (auto simp: revalidate_criteria_def e result_simps split: if_split_asm)
qed

lemma rule_open_questions_cases:
  "rule_open_questions w a st = (Inr st', evs) \<Longrightarrow>
     st' = st \<or> st' = st\<lparr>ws_ruling_unrecorded := Some True\<rparr>"
  by (auto simp: rule_open_questions_def split: option.split_asm fire_spec.split_asm if_split_asm
      criterion_source.split_asm ruling_answer.split_asm)

lemma scope_stages_keep:
  "groom ctx a st = (Inr st', evs) \<Longrightarrow> st' = st"
  "prep ctx a st = (Inr st', evs) \<Longrightarrow>
     keeps_work st st' \<and> keeps_branches st st' \<and>
     ws_ruling_unrecorded st' = ws_ruling_unrecorded st \<and>
     fs_regeneration_rounds st' = fs_regeneration_rounds st"
  by (auto simp: groom_def prep_def result_simps keeps_defs Let_def split: if_split_asm)

lemma validate_criteria_updates:
  assumes "validate_criteria w a st = (Inr st', evs)"
  obtains v art where
    "st' = st\<lparr>fs_criteria_validation := Some v, fs_criterion_set := Some (Artifact art),
       fs_regeneration_rounds :=
         (if regeneration_targets v \<noteq> [] \<and> int (fs_regeneration_rounds st) \<ge> fw_max_regeneration w \<or>
             regeneration_targets v = []
          then fs_regeneration_rounds st else Suc (fs_regeneration_rounds st)),
       ws_criteria_infeasible :=
         (regeneration_targets v \<noteq> [] \<and> int (fs_regeneration_rounds st) \<ge> fw_max_regeneration w)\<rparr>"
    "build_artifact (fs_acceptance_criteria st) v = Inr art"
proof -
  obtain spec v c art where p: "current_fire_spec st = Inr spec"
      "swept w a (fs_acceptance_criteria st) = Inr (v, c)"
      "build_artifact (fs_acceptance_criteria st) v = Inr art"
    using assms by (auto simp: validate_criteria_def result_simps Let_def)
  show thesis
    by (rule that [of v art]) (use assms p in \<open>auto simp: validate_criteria_def result_simps Let_def\<close>)
qed

lemma run_quality_gate_effect:
  "run_quality_gate a call = (Inr it, evs) \<Longrightarrow> evs = [LoopRun call]"
  by (auto simp: run_quality_gate_def result_simps Let_def split: prod.split_asm)

lemma run_ralph_loop_updates:
  assumes "run_ralph_loop w ctx a st = (Inr st', evs)"
  obtains source flagged it call where
    "st' = st\<lparr>fs_criterion_set := source, ws_accept_verdict := ie_verdict it,
       fs_flagged_items := flagged, fs_total_iterations := fs_total_iterations st + ie_iteration it,
       fs_feature_tip_sha := None, ws_trajectory := Some (ie_trajectory it)\<rparr>"
    "evs = [LoopRun call]" "lp_feature_branch call = fs_feature_branch st"
    "lp_ralph_branch call = fs_ralph_branch st" "lp_work_base_ref call = fs_work_base_ref st"
    "run_quality_gate a call = (Inr it, [LoopRun call])"
proof -
  obtain spec source criteria it flagged where r:
      "run_quality_gate a (loop_call_of ctx st spec criteria) = (Inr it, evs)"
      "st\<lparr>fs_criterion_set :=
           (if native_spec (xc_scope ctx) spec = None then source
            else Some (TrackerSet (graded_snapshot it))),
         ws_accept_verdict := ie_verdict it, fs_flagged_items := flagged,
         fs_total_iterations := fs_total_iterations st + ie_iteration it,
         fs_feature_tip_sha := None, ws_trajectory := Some (ie_trajectory it)\<rparr> = st'"
    using assms unfolding run_ralph_loop_def Let_def
    by (elim then_do_Inr [THEN iffD1, elim_format] exE conjE)
      (simp only: asks_Inr sum.inject append_Nil append_Nil2; blast)
  show thesis
    by (rule that [OF r(2) [symmetric]])
      (use r(1) run_quality_gate_effect [OF r(1)] in \<open>simp_all add: loop_call_of_def Let_def\<close>)
qed

lemma scope_done_updates:
  "scope_done ctx a st = (Inr st', evs) \<Longrightarrow>
     evs = [] \<and> (st' = st\<lparr>ws_review_passed := True\<rparr> \<or>
       (\<exists>feedback. st' = st\<lparr>ws_review_passed := False, fs_review_feedback := feedback\<rparr>))"
  by (auto simp: scope_done_def result_simps Let_def split: if_split_asm)

text \<open>What a consolidation leaves in the trace.\<close>

fun is_consolidated :: "fire_act \<Rightarrow> bool" where
  "is_consolidated (Consolidated _ _ _ _) = True"
| "is_consolidated _ = False"

lemma consolidate_effect:
  "consolidate a url base feature source missing = (Inr oc, evs) \<Longrightarrow>
     evs = [Consolidated (oc_status oc) feature source (oc_feature_tip_sha oc)] \<and>
     (missing \<noteq> [] \<longrightarrow> oc_status oc \<noteq> SourceMissing)"
  by (auto simp: consolidate_def result_simps split: if_split_asm)

lemma consolidate_each_effect:
  "consolidate_each a st repositories = (Inr outcomes, evs) \<Longrightarrow>
     map fst outcomes = repositories \<and>
     evs = map (\<lambda>(_, oc). Consolidated (oc_status oc) (fs_feature_branch st) (fs_ralph_branch st)
       (oc_feature_tip_sha oc)) outcomes \<and>
     (\<forall>(_, oc) \<in> set outcomes. oc_status oc \<noteq> SourceMissing)"
  by (induction repositories arbitrary: outcomes evs)
    (auto simp: result_simps dest!: consolidate_effect)

lemma gained_outcomes_effect:
  "gained_outcomes a st repositories = (Inr outcomes, evs) \<Longrightarrow>
     evs = map (\<lambda>(_, oc). Consolidated (oc_status oc) (fs_feature_branch st) (fs_ralph_branch st)
       (oc_feature_tip_sha oc)) outcomes \<and>
     (\<forall>(_, oc) \<in> set outcomes. oc_status oc \<noteq> SourceMissing)"
  by (auto simp: gained_outcomes_def result_simps dest!: consolidate_each_effect)

text \<open>The consolidations of an integration: every one took the loop's branch onto the feature
  branch, and the first one's tip is the feature's.\<close>

definition integrating :: "string \<Rightarrow> string \<Rightarrow> sha \<Rightarrow> fire_act list \<Rightarrow> bool" where
  "integrating feature ralph tip evs \<longleftrightarrow>
     (\<exists>status rest. evs = Consolidated status feature ralph tip # rest) \<and>
     (\<forall>ev \<in> set evs. \<exists>status t. ev = Consolidated status feature ralph t \<and>
        status \<in> {AlreadyIntegrated, FastForwarded})"

lemma settled_status: "s \<noteq> Divergent \<Longrightarrow> s \<noteq> SourceMissing \<Longrightarrow> s \<in> {AlreadyIntegrated, FastForwarded}"
  by (cases s) auto

lemma merge_each_updates:
  assumes "merge_each a st repositories = (Inr st', evs)"
  shows "(\<exists>message tip. st' = diverged st message tip) \<or>
    (\<exists>tip base. st' = integrated st tip base \<and>
       integrating (fs_feature_branch st) (fs_ralph_branch st) tip evs)"
proof -
  obtain outcomes evs1 where g: "gained_outcomes a st repositories = (Inr outcomes, evs1)"
    using assms by (auto simp: merge_each_def result_simps)
  note e = gained_outcomes_effect [OF g]
  obtain r oc rest where o: "outcomes = (r, oc) # rest"
    using assms by (cases outcomes) (auto simp: merge_each_def g result_simps asks_def)
  show ?thesis
  proof (cases "filter (\<lambda>(_, oc). oc_status oc = Divergent) outcomes = []")
    case True
    then have "\<forall>(_, oc) \<in> set outcomes. oc_status oc \<in> {AlreadyIntegrated, FastForwarded}"
      using e settled_status by (fastforce simp: filter_empty_conv)
    moreover obtain tip where "st' = integrated st (oc_feature_tip_sha oc) tip" "evs = evs1"
      using assms True
      by (auto simp: merge_each_def g o result_simps Let_def simp del: then_do.simps split: if_split_asm)
    ultimately show ?thesis
      using e o by (intro disjI2) (fastforce simp: integrating_def)
  next
    case False
    then show ?thesis
      using assms
      by (auto simp: merge_each_def g o result_simps Let_def simp del: then_do.simps split: if_split_asm)
  qed
qed

lemma merge_to_feature_updates:
  assumes "merge_to_feature w ctx a st = (Inr st', evs)"
  obtains (rejected) "\<not> gate_cleared (ws_accept_verdict st)" "st' = not_accepted st" "evs = []"
  | (divergent) message tip where "gate_cleared (ws_accept_verdict st)" "st' = diverged st message tip"
  | (merged) tip base where "gate_cleared (ws_accept_verdict st)" "st' = integrated st tip base"
      "integrating (fs_feature_branch st) (fs_ralph_branch st) tip evs"
proof (cases "gate_cleared (ws_accept_verdict st)")
  case False
  then show thesis using assms rejected by (simp add: merge_to_feature_def)
next
  case cleared: True
  show thesis
  proof (cases "scope_repositories (xc_scope ctx) (fw_repositories w) = []")
    case False
    then have "merge_each a st (scope_repositories (xc_scope ctx) (fw_repositories w)) = (Inr st', evs)"
      using assms cleared by (simp add: merge_to_feature_def Let_def)
    from merge_each_updates [OF this] show thesis using cleared divergent merged by blast
  next
    case True
    then obtain oc evs1 where c: "consolidate a (xc_repo_url ctx) (bs_base_branch (xc_base_spec ctx))
          (fs_feature_branch st) (fs_ralph_branch st)
          ''consolidate returned SOURCE_MISSING: the loop must have pushed'' = (Inr oc, evs1)"
      using assms cleared by (auto simp: merge_to_feature_def Let_def result_simps)
    note e = consolidate_effect [OF c]
    show thesis
    proof (cases "oc_status oc = Divergent")
      case d: True
      then have "\<exists>message tip. st' = diverged st message tip"
        using assms cleared True c by (auto simp: merge_to_feature_def Let_def asks_def)
      then show thesis using cleared divergent by blast
    next
      case d: False
      then have "\<exists>base. st' = integrated st (oc_feature_tip_sha oc) base" "evs = evs1"
        using assms cleared True c
        by (auto simp: merge_to_feature_def Let_def result_simps simp del: then_do.simps)
      moreover have "integrating (fs_feature_branch st) (fs_ralph_branch st) (oc_feature_tip_sha oc) evs1"
        using e d settled_status by (simp add: integrating_def)
      ultimately show thesis using cleared merged by blast
    qed
  qed
qed

fun is_landing :: "fire_act \<Rightarrow> bool" where
  "is_landing (BestPublished _ _) = True"
| "is_landing ev = is_consolidated ev"

lemma land_each_updates:
  assumes "land_each a st repositories = (Inr st', evs)"
  shows "(\<exists>tip. st' = st\<lparr>fs_feature_tip_sha := tip\<rparr>) \<and> list_all is_consolidated evs"
proof -
  obtain outcomes evs1 where g: "gained_outcomes a st repositories = (Inr outcomes, evs1)"
    using assms by (auto simp: land_each_def result_simps simp del: then_do.simps)
  have "list_all is_consolidated evs1"
    using gained_outcomes_effect [OF g] by (auto simp: list_all_iff)
  moreover have "evs = evs1" "st' = st \<or> (\<exists>tip. st' = st\<lparr>fs_feature_tip_sha := Some tip\<rparr>)"
    using assms by (auto simp: land_each_def g result_simps simp del: then_do.simps split: list.split_asm)
  moreover have "st = st\<lparr>fs_feature_tip_sha := fs_feature_tip_sha st\<rparr>" by simp
  ultimately show ?thesis by blast
qed

lemma land_best_iteration_updates:
  assumes "land_best_iteration w ctx a st = (Inr st', evs)"
  shows "(\<exists>branch tip. st' = st\<lparr>fs_feature_branch := branch, fs_feature_tip_sha := tip\<rparr>) \<and>
    list_all is_landing evs \<and>
    (\<forall>sha ref. BestPublished sha ref \<in> set evs \<longrightarrow> ws_best_iteration_sha st = Some sha)"
proof -
  have same: "\<exists>branch tip. st\<lparr>fs_feature_tip_sha := t\<rparr> = st\<lparr>fs_feature_branch := branch, fs_feature_tip_sha := tip\<rparr>"
    for t by (intro exI [of _ "fs_feature_branch st"] exI [of _ t]) simp
  have landed: "list_all is_landing evs1 \<and> (\<forall>sha ref. BestPublished sha ref \<notin> set evs1)"
    if "list_all is_consolidated evs1" for evs1
    using that by (induction evs1) (auto elim: is_consolidated.elims)
  show ?thesis
  proof (cases "\<exists>t best url. ws_trajectory st = Some t \<and> ws_best_iteration_sha st = Some best \<and>
      xc_repo_url ctx = Some url \<and> fw_has_publisher w")
    case False
    then have "st' = st" "evs = []"
      using assms by (auto simp: land_best_iteration_def split: option.split_asm)
    then show ?thesis using same [of "fs_feature_tip_sha st"] by simp
  next
    case True
    then obtain t best url where k: "ws_trajectory st = Some t" "ws_best_iteration_sha st = Some best"
        "xc_repo_url ctx = Some url" "fw_has_publisher w" by blast
    show ?thesis
    proof (cases "scope_repositories (xc_scope ctx) (fw_repositories w) = []")
      case False
      then have "land_each a st (scope_repositories (xc_scope ctx) (fw_repositories w)) = (Inr st', evs)"
        using assms k by (simp add: land_best_iteration_def Let_def)
      from land_each_updates [OF this] show ?thesis using same landed by auto
    next
      case True
      let ?ref = "best_iteration_ref (fs_feature_branch st)"
      obtain oc evs1 where c: "consolidate a (Some url) (bs_base_branch (xc_base_spec ctx))
            (fs_feature_branch st) ?ref [] = (Inr oc, evs1)" "evs = BestPublished best ?ref # evs1"
          "st' = landed st ?ref best oc"
        using assms k True
        by (auto simp: land_best_iteration_def Let_def result_simps simp del: then_do.simps)
      have "list_all is_landing evs" "\<forall>sha ref. BestPublished sha ref \<in> set evs \<longrightarrow> sha = best"
        using c(2) consolidate_effect [OF c(1)] by auto
      moreover have "\<exists>branch tip. st' = st\<lparr>fs_feature_branch := branch, fs_feature_tip_sha := tip\<rparr>"
        using c(3) same by (auto simp: landed_def)
      ultimately show ?thesis using k(2) by blast
    qed
  qed
qed

lemma review_updates:
  assumes "review_against_ticket w ctx a st = (Inr st', evs)"
  obtains source passed feedback flagged results fan_in where
    "st' = st\<lparr>fs_criterion_set := source, ws_review_passed := passed, fs_review_feedback := feedback,
       fs_flagged_items := flagged\<rparr>"
    "evs = [Reviewed passed results (ws_remediation_rounds_used st) fan_in]"
    "fs_review_base_sha st \<noteq> None" "fs_review_head_sha st \<noteq> None"
proof -
  have shas: "\<not> (fs_review_base_sha st = None \<or> fs_review_head_sha st = None)"
  proof
    assume "fs_review_base_sha st = None \<or> fs_review_head_sha st = None"
    then show False using assms by (simp add: review_against_ticket_def)
  qed
  obtain source grade fan_in where r: "reviewed st source grade fan_in = (Inr st', evs)"
    using assms shas
    by (auto simp: review_against_ticket_def result_simps simp del: then_do.simps)
  show thesis
    by (rule that) (use r shas in \<open>auto simp: reviewed_def Let_def\<close>)
qed

lemma draft_remediation_updates:
  assumes "draft_remediation w a st request = (Inr st', evs)"
  shows "fw_has_remediator w \<and> evs = [RoundDrafted request] \<and>
    (\<exists>ticket. st' = opened_round st request ticket (fa_loop_id a))"
proof -
  have h: "fw_has_remediator w"
    using assms by (cases "fw_has_remediator w") (simp_all add: draft_remediation_def)
  then show ?thesis
    using assms
    by (auto simp: draft_remediation_def result_simps simp del: then_do.simps
        split: if_split_asm option.split_asm)
qed

lemma remediate_updates:
  assumes "remediate w a st = (Inr st', evs)"
  obtains request ticket where "fw_has_remediator w" "evs = [RoundDrafted request]"
    "rq_round_index request = ws_remediation_rounds_used st" "rq_entry request = opening_entry st"
    "st' = opened_round st request ticket (fa_loop_id a)"
proof -
  obtain spec criteria where d: "draft_remediation w a st (request_of st spec criteria) = (Inr st', evs)"
    using assms by (auto simp: remediate_def result_simps simp del: then_do.simps split: if_split_asm)
  have q: "rq_round_index (request_of st spec criteria) = ws_remediation_rounds_used st"
      "rq_entry (request_of st spec criteria) = opening_entry st"
    by (simp_all add: request_of_def Let_def)
  show thesis
    using draft_remediation_updates [OF d] that q by blast
qed

lemma complete_updates:
  "complete st = (Inr st', evs) \<longleftrightarrow> st' = st \<and> (\<exists>c. fire_terminal st = Inr c \<and> evs = [Completed c])"
  by (auto simp: complete_def result_simps simp del: then_do.simps)

subsection \<open>The weight of a visit\<close>

lemma weight_moves_on:
  assumes "ws_remediation_rounds_used st' = ws_remediation_rounds_used st"
    and "fs_regeneration_rounds st' = fs_regeneration_rounds st" and "node_rank n' < node_rank n"
    and "n' = Remediate \<Longrightarrow> ws_remediation_rounds_used st < fw_max_remediation w"
  shows "fire_weight w n' st' < fire_weight w n st"
  using assms by (auto simp: fire_weight_def)

lemma weight_of_validation:
  assumes "validate_criteria w a st = (Inr st', evs)"
  shows "fire_weight w (route_after_validation w st') st' < fire_weight w ValidateCriteria st"
  using assms
proof (rule validate_criteria_updates)
  fix v art
  let ?regenerates = "regeneration_targets v \<noteq> []"
  let ?exhausted = "?regenerates \<and> int (fs_regeneration_rounds st) \<ge> fw_max_regeneration w"
  assume s: "st' = st\<lparr>fs_criteria_validation := Some v, fs_criterion_set := Some (Artifact art),
      fs_regeneration_rounds := (if ?exhausted \<or> regeneration_targets v = []
        then fs_regeneration_rounds st else Suc (fs_regeneration_rounds st)),
      ws_criteria_infeasible := ?exhausted\<rparr>"
  show ?thesis
  proof (cases "?regenerates \<and> \<not> ?exhausted")
    case True
    then have "nat (fw_max_regeneration w - int (fs_regeneration_rounds st)) =
        Suc (nat (fw_max_regeneration w - (1 + int (fs_regeneration_rounds st))))" by auto
    with True show ?thesis
      by (simp add: s fire_weight_def route_after_validation_def demands_regeneration_def)
  next
    case False
    then show ?thesis
      by (auto simp: s fire_weight_def route_after_validation_def demands_regeneration_def)
  qed
qed

lemma weight_of_remediation:
  assumes "remediate w a st = (Inr st', evs)"
  shows "fire_weight w (criteria_gate arm) st' < fire_weight w Remediate st"
proof -
  obtain request ticket where s: "st' = opened_round st request ticket (fa_loop_id a)"
    by (rule remediate_updates [OF assms]) blast
  let ?left = "nat (fw_max_remediation w - ws_remediation_rounds_used st)"
  have "node_rank (criteria_gate arm) \<le> 9" by (cases arm) simp_all
  moreover have "criteria_gate arm \<noteq> Remediate" by (cases arm) simp_all
  moreover have "?left = Suc (nat (fw_max_remediation w - (ws_remediation_rounds_used st + 1)))"
    if "ws_remediation_rounds_used st < fw_max_remediation w" using that by simp
  ultimately show ?thesis
    by (cases "ws_remediation_rounds_used st < fw_max_remediation w")
      (auto simp: s opened_round_def fire_weight_def round_cost_def algebra_simps)
qed

definition spends_no_round :: "fire_node \<Rightarrow> bool" where
  "spends_no_round n \<longleftrightarrow> n \<noteq> Remediate \<and> n \<noteq> ValidateCriteria"

lemma keeps_counters:
  assumes "exec_node w ctx a n st = (Inr st', evs)" and "spends_no_round n"
  shows "ws_remediation_rounds_used st' = ws_remediation_rounds_used st \<and>
    fs_regeneration_rounds st' = fs_regeneration_rounds st"
proof (cases n)
  case RunRalphLoop
  then show ?thesis using assms(1) by (auto elim: run_ralph_loop_updates)
next
  case MergeToFeature
  then have "merge_to_feature w ctx a st = (Inr st', evs)" using assms(1) by simp
  then show ?thesis
    by (rule merge_to_feature_updates)
      (auto simp: not_accepted_def diverged_def integrated_def Let_def split: option.splits)
next
  case ReviewAgainstTicket
  then show ?thesis using assms(1) by (auto elim: review_updates)
next
  case Prep
  then show ?thesis using assms(1) scope_stages_keep(2) by (auto simp: keeps_work_def)
qed (use assms in \<open>auto simp: spends_no_round_def complete_updates scope_stages_keep(1) keeps_work_def
    dest: resolve_visibility_updates generate_branch_updates generate_ticket_updates
      generate_criteria_updates persisting_updates revalidate_updates rule_open_questions_cases
      scope_stages_keep(1) scope_done_updates land_best_iteration_updates\<close>)

lemma route_descends:
  assumes "next_node w arm n st = Some n'" and "spends_no_round n"
  shows "node_rank n' < node_rank n"
  using assms
  by (cases n)
    (auto simp: spends_no_round_def route_after_revalidation_def route_after_questions_def
      route_after_scope_prep_def route_after_merge_def route_after_review_def route_after_scope_done_def
      split: arm.splits)

lemma route_to_remediation:
  assumes "next_node w arm n st = Some Remediate"
  shows "rounds_remain w st \<and> n \<in> {MergeToFeature, ScopeDone, ReviewAgainstTicket}"
  using assms
  by (cases n; cases arm)
    (auto simp: route_after_validation_def route_after_revalidation_def route_after_questions_def
      route_after_scope_prep_def route_after_merge_def route_after_review_def route_after_scope_done_def
      split: if_splits)

text \<open>Every edge of every composition lowers the weight.\<close>

lemma step_spends:
  assumes "exec_node w ctx a n st = (Inr st', evs)" and "next_node w arm n st' = Some n'"
  shows "fire_weight w n' st' < fire_weight w n st"
proof (cases "spends_no_round n")
  case True
  show ?thesis
    using keeps_counters [OF assms(1) True] route_descends [OF assms(2) True]
      route_to_remediation [of w arm n st'] assms(2)
    by (intro weight_moves_on) (auto simp: rounds_remain_def)
next
  case False
  then consider "n = Remediate" | "n = ValidateCriteria" by (auto simp: spends_no_round_def)
  then show ?thesis
    using assms weight_of_validation weight_of_remediation by cases auto
qed

subsection \<open>A run\<close>

record fire_run =
  fr_result :: "fire_exn + fire_state"
  fr_events :: "fire_act list"
  fr_visits :: "fire_node list"

definition visited :: "fire_node \<Rightarrow> fire_act list \<Rightarrow> fire_run \<Rightarrow> fire_run" where
  "visited n evs rest = rest\<lparr>fr_events := evs @ fr_events rest, fr_visits := n # fr_visits rest\<rparr>"

definition stopped :: "fire_exn + fire_state \<Rightarrow> fire_run" where
  "stopped result = \<lparr>fr_result = result, fr_events = [], fr_visits = []\<rparr>"

text \<open>From a node to the end, each visit on its own answers.\<close>

function run_from ::
  "fire_wiring \<Rightarrow> exec_ctx \<Rightarrow> arm \<Rightarrow> (nat \<Rightarrow> fire_answers) \<Rightarrow> nat \<Rightarrow> fire_node \<Rightarrow> fire_state \<Rightarrow> fire_run" where
  "run_from w ctx arm answers k n st =
     (case exec_node w ctx (answers k) n st of
        (Inl e, evs) \<Rightarrow> visited n evs (stopped (Inl e))
      | (Inr st', evs) \<Rightarrow>
          (case next_node w arm n st' of
             None \<Rightarrow> visited n evs (stopped (Inr st'))
           | Some n' \<Rightarrow> visited n evs (run_from w ctx arm answers (Suc k) n' st')))"
  by pat_completeness auto

termination
  by (relation "measure (\<lambda>(w, ctx, arm, answers, k, n, st). fire_weight w n st)")
    (auto intro: step_spends [OF sym])

declare run_from.simps [simp del]

lemma run_cases:
  obtains
    (failed) e evs where "exec_node w ctx (answers k) n st = (Inl e, evs)"
      "run_from w ctx arm answers k n st = visited n evs (stopped (Inl e))"
  | (ended) st' evs where "exec_node w ctx (answers k) n st = (Inr st', evs)"
      "next_node w arm n st' = None"
      "run_from w ctx arm answers k n st = visited n evs (stopped (Inr st'))"
  | (moved) st' evs n' where "exec_node w ctx (answers k) n st = (Inr st', evs)"
      "next_node w arm n st' = Some n'" "fire_weight w n' st' < fire_weight w n st"
      "run_from w ctx arm answers k n st = visited n evs (run_from w ctx arm answers (Suc k) n' st')"
proof -
  obtain r evs where x: "exec_node w ctx (answers k) n st = (r, evs)" by (rule prod.exhaust)
  show thesis
  proof (cases r)
    case (Inl e)
    then show ?thesis using x failed by (simp add: run_from.simps [of w ctx arm answers k n st])
  next
    case (Inr st')
    then show ?thesis
      using x ended moved step_spends [of w ctx "answers k" n st st' evs arm]
      by (cases "next_node w arm n st'") (simp_all add: run_from.simps [of w ctx arm answers k n st])
  qed
qed

definition last_terminal :: "fire_act list \<Rightarrow> workflow_complete option" where
  "last_terminal evs =
     foldl (\<lambda>found ev. case ev of Completed c \<Rightarrow> Some c | _ \<Rightarrow> found) None evs"

definition finish_fire ::
  "fire_wiring \<Rightarrow> exec_ctx \<Rightarrow> (nat \<Rightarrow> fire_answers) \<Rightarrow> fire_run \<Rightarrow> fire_run" where
  "finish_fire w ctx answers fired =
     (case fr_result fired of
        Inl _ \<Rightarrow> fired
      | Inr final \<Rightarrow>
          (case last_terminal (fr_events fired) of
             None \<Rightarrow> fired\<lparr>fr_result := Inl (RuntimeFault ''Fire graph emitted no terminal'')\<rparr>
           | Some terminal \<Rightarrow>
               (case cleanup_backups w ctx (answers (length (fr_visits fired))) terminal of
                  (result, evs) \<Rightarrow>
                    fired\<lparr>fr_events := fr_events fired @ evs,
                          fr_result := bind_sum result (\<lambda>_. Inr final)\<rparr>)))"

text \<open>\<^verbatim>\<open>RalphWorkflowEngine.run\<close>: the surface holder of an addressed run is its job, and
  the backups are cleaned on the answers after the last visit.\<close>

definition fire_from ::
  "engine \<Rightarrow> fire_request \<Rightarrow> exec_ctx \<Rightarrow> fire_state \<Rightarrow> (nat \<Rightarrow> fire_answers) \<Rightarrow> fire_exn + fire_run" where
  "fire_from e q ctx st answers =
     bind_sum (composition e (fq_scope q)) (\<lambda>arm.
     Inr (finish_fire (en_wiring e) ctx answers
       (run_from (en_wiring e) ctx arm answers 0 (route_entry arm st) st)))"

definition run_fire ::
  "engine \<Rightarrow> fire_request \<Rightarrow> string \<Rightarrow> string \<Rightarrow> (nat \<Rightarrow> fire_answers) \<Rightarrow> fire_exn + fire_run" where
  "run_fire e q short_id loop_id answers =
     (let held = q\<lparr>fq_surface_holder :=
                     (if fq_scope q = None then None else Some (fq_cache_key q))\<rparr> in
      bind_sum (prepare e held short_id loop_id) (\<lambda>(st, ctx). fire_from e held ctx st answers))"

end
