(* ===== verification/Spec2Isabelle.thy ===== *)
theory Spec2Isabelle
  imports JobQueueSpec Outbound LeaseRun RalphLoopSpec Topology FireDispatch FireRun
begin

text \<open>
  Verification library of kodezart.
\<close>

end
